(* ===== verification/Prelude.thy ===== *)
theory Prelude
  imports Complex_Main "HOL-Library.AList" "HOL-Library.While_Combinator"
    "HOL-Library.Word" "HOL-Library.Char_ord" "HOL-Library.List_Lexorder" "HOL-Library.Monad_Syntax"
begin

text \<open>
  Shared material of the development: the fact collections, association lists standing for
  \<open>std::unordered_map\<close> and \<open>std::map\<close>, insertion-ordered lists standing for
  \<open>std::unordered_set\<close> together with the unspecified iteration order of both, the C library's
  number scanner (\<open>strtol\<close>, \<open>std::stol\<close>, \<open>std::to_string\<close>), POSIX paths as
  \<open>std::filesystem::path\<close> splits them, and the JSON values of \<open>nlohmann::json\<close>.
  Nothing here models code of the repository itself.
\<close>

named_theorems lookup_simps \<open>what a lookup returns after an update of an unordered map\<close>
named_theorems frame_simps \<open>what an operation leaves unchanged\<close>

section \<open>Unordered maps and sets\<close>

text \<open>
  An \<open>std::unordered_map\<close> is an association list with distinct keys, in the order the keys
  were inserted. \<open>AList.update\<close> is \<open>m[k] = v\<close>, \<open>AList.delete\<close> is \<open>m.erase(k)\<close>.
\<close>

type_synonym 'v umap = "(string \<times> 'v) list"

abbreviation keys :: "'v umap \<Rightarrow> string list" where
  "keys m \<equiv> map fst m"

definition umap_ok :: "'v umap \<Rightarrow> bool" where
  "umap_ok m \<longleftrightarrow> distinct (keys m)"

lemma map_of_update [simp, lookup_simps]: "map_of (AList.update k v m) = (map_of m)(k \<mapsto> v)"
  by (rule update_conv')

lemma map_of_delete [simp, lookup_simps]: "map_of (AList.delete k m) = (map_of m)(k := None)"
  by (rule delete_conv')

lemma keys_update: "keys (AList.update k v m) = (if k \<in> set (keys m) then keys m else keys m @ [k])"
  by (rule update_keys)

lemma set_keys_update [simp]: "set (keys (AList.update k v m)) = insert k (set (keys m))"
  by (auto simp: keys_update simp del: set_map)

lemma set_keys_delete [simp]: "set (keys (AList.delete k m)) = set (keys m) - {k}"
  by (simp add: delete_keys)

lemma umap_ok_update [simp]: "umap_ok m \<Longrightarrow> umap_ok (AList.update k v m)"
  by (simp add: umap_ok_def distinct_update)

lemma umap_ok_delete [simp]: "umap_ok m \<Longrightarrow> umap_ok (AList.delete k m)"
  by (simp add: umap_ok_def distinct_delete)

lemma umap_ok_Nil [simp]: "umap_ok []"
  by (simp add: umap_ok_def)

lemma dom_map_of_keys: "dom (map_of m) = set (keys m)"
  by (simp add: dom_map_of_conv_image_fst)

lemma map_of_None_keys: "map_of m k = None \<longleftrightarrow> k \<notin> set (keys m)"
  by (simp add: map_of_eq_None_iff)

lemma map_of_Some_key: "map_of m k = Some v \<Longrightarrow> k \<in> set (keys m)"
  by (metis map_of_None_keys option.distinct(1))

lemma key_map_of_Some: "k \<in> set (keys m) \<Longrightarrow> \<exists>v. map_of m k = Some v"
  by (metis map_of_None_keys not_None_eq)

text \<open>Change the value stored under a key that is there, and every value.\<close>

definition umap_adjust :: "string \<Rightarrow> ('v \<Rightarrow> 'v) \<Rightarrow> 'v umap \<Rightarrow> 'v umap" where
  "umap_adjust k f m = map (\<lambda>(x, v). (x, if x = k then f v else v)) m"

definition umap_map :: "(string \<Rightarrow> 'v \<Rightarrow> 'v) \<Rightarrow> 'v umap \<Rightarrow> 'v umap" where
  "umap_map f m = map (\<lambda>(x, v). (x, f x v)) m"

lemma keys_umap_map [simp]: "keys (umap_map f m) = keys m"
  by (induction m) (auto simp: umap_map_def)

lemma keys_umap_adjust [simp]: "keys (umap_adjust k f m) = keys m"
  by (induction m) (auto simp: umap_adjust_def)

lemma map_of_umap_map [simp]: "map_of (umap_map f m) k = map_option (f k) (map_of m k)"
  by (induction m) (auto simp: umap_map_def)

lemma map_of_umap_adjust [simp]:
  "map_of (umap_adjust k f m) x = (if x = k then map_option f (map_of m k) else map_of m x)"
  by (induction m) (auto simp: umap_adjust_def)

lemma umap_ok_umap_map [simp]: "umap_ok (umap_map f m) = umap_ok m"
  by (simp add: umap_ok_def)

lemma umap_ok_umap_adjust [simp]: "umap_ok (umap_adjust k f m) = umap_ok m"
  by (simp add: umap_ok_def)

text \<open>An \<open>std::unordered_set\<close> of strings: the distinct elements in insertion order.\<close>

definition uset_insert :: "string \<Rightarrow> string list \<Rightarrow> string list" where
  "uset_insert x xs = (if x \<in> set xs then xs else xs @ [x])"

lemma set_uset_insert [simp]: "set (uset_insert x xs) = insert x (set xs)"
  by (auto simp: uset_insert_def)

lemma distinct_uset_insert [simp]: "distinct xs \<Longrightarrow> distinct (uset_insert x xs)"
  by (simp add: uset_insert_def)

text \<open>
  The standard says of the iteration order of an unordered container only that it visits every
  element once. The order is therefore a function \<open>ho\<close> of the insertion sequence about which
  nothing else is known: a parameter of every definition that iterates over such a container.
\<close>

type_synonym hash_iter = "string list \<Rightarrow> string list"

definition hash_order :: "hash_iter \<Rightarrow> bool" where
  "hash_order ho \<longleftrightarrow> (\<forall>xs. distinct xs \<longrightarrow> distinct (ho xs) \<and> set (ho xs) = set xs)"

lemma hash_orderD: "hash_order ho \<Longrightarrow> distinct xs \<Longrightarrow> distinct (ho xs)"
  "hash_order ho \<Longrightarrow> distinct xs \<Longrightarrow> set (ho xs) = set xs"
  by (auto simp: hash_order_def)

lemma hash_order_id: "hash_order (\<lambda>xs. xs)"
  by (simp add: hash_order_def)

lemma hash_order_rev: "hash_order rev"
  by (simp add: hash_order_def)

lemma hash_order_length: "hash_order ho \<Longrightarrow> distinct xs \<Longrightarrow> length (ho xs) = length xs"
  by (metis distinct_card hash_orderD)

section \<open>Lists\<close>

lemma distinct_set_eq_length:
  "distinct xs \<Longrightarrow> distinct ys \<Longrightarrow> set xs \<subseteq> set ys \<Longrightarrow> length xs = length ys \<longleftrightarrow> set xs = set ys"
  by (metis card_subset_eq distinct_card finite_set)

lemma fold_invariant: "P s \<Longrightarrow> (\<And>x s. x \<in> set xs \<Longrightarrow> P s \<Longrightarrow> P (f x s)) \<Longrightarrow> P (fold f xs s)"
  by (induction xs arbitrary: s) auto

lemma count_list_replicate [simp]: "count_list (replicate n y) x = (if x = y then n else 0)"
  by (induction n) auto

lemma count_list_concat_replicate:
  "distinct ms \<Longrightarrow>
   count_list (concat (map (\<lambda>m. replicate (f m) m) ms)) x = (if x \<in> set ms then f x else 0)"
  by (induction ms) auto

text \<open>A loop over a list whose body may not return.\<close>

fun foldM :: "('a \<Rightarrow> 's \<Rightarrow> 's option) \<Rightarrow> 'a list \<Rightarrow> 's \<Rightarrow> 's option" where
  "foldM f [] s = Some s"
| "foldM f (x # xs) s = (case f x s of None \<Rightarrow> None | Some s' \<Rightarrow> foldM f xs s')"

text \<open>Each step keeps \<open>P\<close>, settles its own \<open>Q x\<close> and unsettles none.\<close>

lemma foldM_each:
  assumes "P s"
    and "\<And>x s. x \<in> set xs \<Longrightarrow> P s \<Longrightarrow>
      \<exists>s'. f x s = Some s' \<and> P s' \<and> Q x s' \<and> (\<forall>y. Q y s \<longrightarrow> Q y s')"
  shows "\<exists>s'. foldM f xs s = Some s' \<and> P s' \<and> (\<forall>x \<in> set xs. Q x s') \<and> (\<forall>y. Q y s \<longrightarrow> Q y s')"
  using assms
proof (induction xs arbitrary: s)
  case Nil
  then show ?case by simp
next
  case (Cons x xs)
  obtain t where t: "f x s = Some t" "P t" "Q x t" "\<forall>y. Q y s \<longrightarrow> Q y t"
    using Cons.prems(2) [of x s] Cons.prems(1) by auto
  have "\<exists>s'. foldM f xs t = Some s' \<and> P s' \<and> (\<forall>x \<in> set xs. Q x s') \<and> (\<forall>y. Q y t \<longrightarrow> Q y s')"
    by (rule Cons.IH [OF t(2)]) (use Cons.prems(2) in auto)
  then show ?case using t by auto
qed

section \<open>Numbers in strings\<close>

text \<open>
  \<open>isspace\<close> and \<open>isdigit\<close> of the C locale, and the base 10 scanner underneath \<open>strtol\<close> and
  \<open>std::stol\<close>: leading white space, one optional sign, then as many digits as there are. The
  result is the number and how many characters were used, or \<open>None\<close> where no digit was found.
\<close>

definition c_isspace :: "char \<Rightarrow> bool" where
  "c_isspace c = (let n = of_char c :: nat in n = 32 \<or> (9 \<le> n \<and> n \<le> 13))"

definition c_isdigit :: "char \<Rightarrow> bool" where
  "c_isdigit c = (let n = of_char c :: nat in 48 \<le> n \<and> n \<le> 57)"

fun digits_value :: "nat \<Rightarrow> string \<Rightarrow> nat" where
  "digits_value a [] = a"
| "digits_value a (c # cs) = digits_value (10 * a + (of_char c - 48)) cs"

definition scan_long :: "string \<Rightarrow> (int \<times> nat) option" where
  "scan_long s =
     (let ws = takeWhile c_isspace s;
          r = dropWhile c_isspace s;
          signed = (case r of [] \<Rightarrow> False | c # _ \<Rightarrow> c = CHR ''+'' \<or> c = CHR ''-'');
          neg = (case r of [] \<Rightarrow> False | c # _ \<Rightarrow> c = CHR ''-'');
          ds = takeWhile c_isdigit (if signed then tl r else r);
          v = int (digits_value 0 ds)
      in if ds = [] then None
         else Some (if neg then - v else v, length ws + (if signed then 1 else 0) + length ds))"

text \<open>The range of a 64-bit \<open>long\<close> and of a 32-bit \<open>int\<close> (an LP64 platform).\<close>

definition long_max :: int where
  "long_max = 9223372036854775807"

definition long_min :: int where
  "long_min = - 9223372036854775808"

definition int_of_long :: "int \<Rightarrow> int" where
  "int_of_long n = signed_take_bit 31 n"

text \<open>\<open>strtol\<close> saturates; \<open>std::stol\<close> throws on no digits (\<open>invalid_argument\<close>) and on
  overflow (\<open>out_of_range\<close>), which is \<open>None\<close> here.\<close>

definition strtol :: "string \<Rightarrow> int \<times> nat" where
  "strtol s = (case scan_long s of None \<Rightarrow> (0, 0) | Some (v, n) \<Rightarrow> (max long_min (min long_max v), n))"

definition stol :: "string \<Rightarrow> (int \<times> nat) option" where
  "stol s = (case scan_long s of None \<Rightarrow> None
     | Some (v, n) \<Rightarrow> if long_min \<le> v \<and> v \<le> long_max then Some (v, n) else None)"

lemma int_of_long_small: "0 \<le> n \<Longrightarrow> n < 2147483648 \<Longrightarrow> int_of_long n = n"
  unfolding int_of_long_def by (rule signed_take_bit_int_eq_self) auto

text \<open>\<open>std::to_string\<close> of a number that is not negative, and of any number.\<close>

definition digit_char :: "nat \<Rightarrow> char" where
  "digit_char d = char_of (48 + d)"

fun decimal :: "nat \<Rightarrow> string" where
  "decimal n = (if n < 10 then [digit_char n] else decimal (n div 10) @ [digit_char (n mod 10)])"

declare decimal.simps [simp del]

definition to_string :: "int \<Rightarrow> string" where
  "to_string n = (if n < 0 then CHR ''-'' # decimal (nat (- n)) else decimal (nat n))"

lemma of_char_digit_char: "d < 10 \<Longrightarrow> of_char (digit_char d) = 48 + d"
  by (simp add: digit_char_def)

lemma isdigit_digit_char: "d < 10 \<Longrightarrow> c_isdigit (digit_char d)"
  by (simp add: c_isdigit_def of_char_digit_char Let_def)

lemma digits_value_append:
  "digits_value a (xs @ [c]) = 10 * digits_value a xs + (of_char c - 48)"
  by (induction xs arbitrary: a) auto

lemma digits_value_decimal: "digits_value 0 (decimal n) = n"
proof (induction n rule: decimal.induct)
  case (1 n)
  then show ?case
    by (subst decimal.simps) (auto simp: digits_value_append of_char_digit_char)
qed

lemma decimal_isdigit: "c \<in> set (decimal n) \<Longrightarrow> c_isdigit c"
proof (induction n rule: decimal.induct)
  case (1 n)
  then show ?case
    by (subst (asm) decimal.simps) (auto simp: isdigit_digit_char split: if_splits)
qed

lemma decimal_not_Nil [simp]: "decimal n \<noteq> []"
  by (subst decimal.simps) simp

lemma isdigit_not_space: "c_isdigit c \<Longrightarrow> \<not> c_isspace c"
  by (auto simp: c_isdigit_def c_isspace_def Let_def)

lemma isdigit_not_sign: "c_isdigit c \<Longrightarrow> c \<noteq> CHR ''+'' \<and> c \<noteq> CHR ''-''"
  by (auto simp: c_isdigit_def Let_def)

text \<open>A decimal numeral is scanned back, whatever follows its last digit.\<close>

lemma scan_long_decimal:
  assumes "rest = [] \<or> \<not> c_isdigit (hd rest)"
  shows "scan_long (decimal n @ rest) = Some (int n, length (decimal n))"
proof -
  obtain d ds where dd: "decimal n = d # ds" by (meson decimal_not_Nil neq_Nil_conv)
  have dig: "c_isdigit d" by (rule decimal_isdigit [of d n]) (simp add: dd)
  have tw: "takeWhile c_isdigit (decimal n @ rest) = decimal n"
    using assms decimal_isdigit [of _ n] by (cases rest) (auto simp: takeWhile_append)
  have "takeWhile c_isspace (decimal n @ rest) = []" "dropWhile c_isspace (decimal n @ rest) = decimal n @ rest"
    using isdigit_not_space [OF dig] by (simp_all add: dd)
  moreover have "digits_value (of_char d - 48) ds = n"
    using digits_value_decimal [of n] by (simp add: dd)
  ultimately show ?thesis
    using tw isdigit_not_sign [OF dig] by (simp add: scan_long_def dd)
qed

text \<open>The UTF-8 bytes of the em dash that some of the messages carry.\<close>

definition emDash :: string where
  "emDash = [CHR 0xE2, CHR 0x80, CHR 0x94]"

section \<open>Paths\<close>

text \<open>
  \<open>std::filesystem::path\<close> on POSIX: the filename is what follows the last slash; its extension
  starts at the last dot, except where that dot is the first character of the filename or the
  filename is \<open>..\<close>; the stem is the rest.
\<close>

definition path_filename :: "string \<Rightarrow> string" where
  "path_filename p = rev (takeWhile (\<lambda>c. c \<noteq> CHR ''/'') (rev p))"

definition path_dot :: "string \<Rightarrow> nat option" where
  "path_dot p =
     (let f = path_filename p; after = takeWhile (\<lambda>c. c \<noteq> CHR ''.'') (rev f)
      in if f = ''..'' \<or> length after = length f \<or> length after + 1 = length f then None
         else Some (length f - length after - 1))"

definition path_stem :: "string \<Rightarrow> string" where
  "path_stem p = (case path_dot p of None \<Rightarrow> path_filename p | Some i \<Rightarrow> take i (path_filename p))"

definition path_extension :: "string \<Rightarrow> string" where
  "path_extension p = (case path_dot p of None \<Rightarrow> [] | Some i \<Rightarrow> drop i (path_filename p))"

text \<open>The parent of a path: everything before the last slash, the root itself at the root.\<close>

definition path_parent :: "string \<Rightarrow> string" where
  "path_parent p =
     (let d = rev (dropWhile (\<lambda>c. c \<noteq> CHR ''/'') (rev p));
          e = rev (dropWhile (\<lambda>c. c = CHR ''/'') (rev d))
      in if e = [] \<and> d \<noteq> [] then ''/'' else e)"

definition c_tolower :: "char \<Rightarrow> char" where
  "c_tolower c = (let n = of_char c :: nat in if 65 \<le> n \<and> n \<le> 90 then char_of (n + 32) else c)"

section \<open>JSON values\<close>

text \<open>
  A \<open>nlohmann::json\<close> value. An object is a \<open>std::map\<close>: the list of its members in key order,
  every key once. Text is parsed and printed by that library, so \<open>parse\<close> and \<open>dump\<close> are
  parameters wherever the code calls them; what is fixed here is the documented behaviour of the
  accessors: \<open>value(key, default)\<close> answers the default for a missing key and throws
  \<open>type_error\<close> where the member has another type.
\<close>

datatype json =
    JNull
  | JBool bool
  | JInt int
  | JFloat rat
  | JString string
  | JArray "json list"
  | JObject "(string \<times> json) list"

datatype exn = TypeError

fun is_object :: "json \<Rightarrow> bool" where
  "is_object (JObject _) = True"
| "is_object _ = False"

fun members :: "json \<Rightarrow> (string \<times> json) list" where
  "members (JObject ms) = ms"
| "members _ = []"

definition jfind :: "json \<Rightarrow> string \<Rightarrow> json option" where
  "jfind j k = map_of (members j) k"

definition jvalue_string :: "json \<Rightarrow> string \<Rightarrow> string \<Rightarrow> exn + string" where
  "jvalue_string j k d = (case jfind j k of None \<Rightarrow> Inr d
     | Some (JString s) \<Rightarrow> Inr s
     | Some _ \<Rightarrow> Inl TypeError)"

end
