(* ===== verification/AccessPolicy.thy ===== *)
theory AccessPolicy
  imports Prelude
begin

text \<open>
  \<open>src/logos_core/access_policy.{h,cpp}\<close>: the parser of the inter-module access policy. The JSON
  parser is the parameter \<open>parse\<close>; the typed accessors \<open>value\<close> of the JSON library throw on a
  member of another type, and the exception leaves \<open>parseAccessPolicy\<close> as the value
  \<open>Inl TypeError\<close>, \<open>std::nullopt\<close> is \<open>Inr None\<close>.
\<close>

record AccessRestriction =
  target :: string
  allowedCallers :: "string list"

record AccessPolicy =
  ap_version :: int
  mode :: string
  restrictions :: "AccessRestriction list"

definition enforce :: "AccessPolicy \<Rightarrow> bool" where
  "enforce p \<longleftrightarrow> mode p = ''enforce''"

text \<open>\<open>value("version", 0)\<close>: every number and boolean converts to \<open>int\<close>, a double by truncation
  (outside the range of \<open>int\<close>, where C++ leaves the result undefined, the truncated number).\<close>

definition jvalue_int :: "json \<Rightarrow> string \<Rightarrow> int \<Rightarrow> exn + int" where
  "jvalue_int j k d = (case jfind j k of None \<Rightarrow> Inr d
     | Some (JInt n) \<Rightarrow> Inr (int_of_long n)
     | Some (JBool b) \<Rightarrow> Inr (if b then 1 else 0)
     | Some (JFloat r) \<Rightarrow> Inr (if r < 0 then \<lceil>r\<rceil> else \<lfloor>r\<rfloor>)
     | Some _ \<Rightarrow> Inl TypeError)"

fun stringsOf :: "json list \<Rightarrow> string list" where
  "stringsOf [] = []"
| "stringsOf (JString s # js) = s # stringsOf js"
| "stringsOf (_ # js) = stringsOf js"

definition parseCallers :: "json \<Rightarrow> string list" where
  "parseCallers entry = (case jfind entry ''allowedCallers'' of
       Some (JArray js) \<Rightarrow> stringsOf js
     | _ \<Rightarrow> [])"

fun parseRestrictions :: "(string \<times> json) list \<Rightarrow> AccessRestriction list" where
  "parseRestrictions [] = []"
| "parseRestrictions ((key, entry) # rest) =
     (if key = [] then parseRestrictions rest
      else \<lparr>target = key, allowedCallers = parseCallers entry\<rparr> # parseRestrictions rest)"

definition parseAccessPolicy :: "(string \<Rightarrow> json option) \<Rightarrow> string \<Rightarrow> exn + AccessPolicy option" where
  "parseAccessPolicy parse text =
     (case parse text of
        None \<Rightarrow> Inr None
      | Some doc \<Rightarrow>
          if \<not> is_object doc then Inr None
          else case jvalue_int doc ''version'' 0 of
            Inl e \<Rightarrow> Inl e
          | Inr v \<Rightarrow> (case jvalue_string doc ''mode'' [] of
              Inl e \<Rightarrow> Inl e
            | Inr m \<Rightarrow> Inr (Some \<lparr>ap_version = v, mode = m,
                restrictions = (case jfind doc ''restrictions'' of
                    Some (JObject ms) \<Rightarrow> parseRestrictions ms
                  | _ \<Rightarrow> [])\<rparr>)))"

section \<open>What is restricted\<close>

text \<open>The abstract policy: the callers a target is restricted to, if it is restricted at all.\<close>

definition restricted_to :: "AccessPolicy \<Rightarrow> string \<Rightarrow> string list option" where
  "restricted_to p t = map_of (map (\<lambda>r. (target r, allowedCallers r)) (restrictions p)) t"

lemma restricted_to_parsed:
  "map_of (map (\<lambda>r. (target r, allowedCallers r)) (parseRestrictions ms)) t =
     (if t = [] then None else map_option parseCallers (map_of ms t))"
  by (induction ms rule: parseRestrictions.induct) auto

lemma stringsOf_set: "s \<in> set (stringsOf js) \<longleftrightarrow> JString s \<in> set js"
  by (induction js rule: stringsOf.induct) auto

definition ill_typed :: "json \<Rightarrow> bool" where
  "ill_typed doc \<longleftrightarrow>
     (case jfind doc ''version'' of None \<Rightarrow> False | Some JNull \<Rightarrow> True | Some (JString _) \<Rightarrow> True
        | Some (JArray _) \<Rightarrow> True | Some (JObject _) \<Rightarrow> True | Some _ \<Rightarrow> False)
   \<or> (case jfind doc ''mode'' of None \<Rightarrow> False | Some (JString _) \<Rightarrow> False | Some _ \<Rightarrow> True)"

lemma jvalue_int_error: "(\<exists>e. jvalue_int doc k d = Inl e) \<longleftrightarrow>
    (case jfind doc k of None \<Rightarrow> False | Some JNull \<Rightarrow> True | Some (JString _) \<Rightarrow> True
        | Some (JArray _) \<Rightarrow> True | Some (JObject _) \<Rightarrow> True | Some _ \<Rightarrow> False)"
  by (auto simp: jvalue_int_def split: option.splits json.splits)

lemma jvalue_string_error: "(\<exists>e. jvalue_string doc k d = Inl e) \<longleftrightarrow>
    (case jfind doc k of None \<Rightarrow> False | Some (JString _) \<Rightarrow> False | Some _ \<Rightarrow> True)"
  by (auto simp: jvalue_string_def split: option.splits json.splits)

text \<open>
  What parsing yields, on every text: no policy exactly where the text is not JSON or not an
  object; the type error of the accessors exactly where \<open>version\<close> is neither a number nor a boolean
  or \<open>mode\<close> is not a string; and otherwise a policy.
\<close>

theorem access_policy_verdict:
  "(parseAccessPolicy parse text = Inr None \<longleftrightarrow>
      (case parse text of None \<Rightarrow> True | Some doc \<Rightarrow> \<not> is_object doc))
   \<and> (parseAccessPolicy parse text = Inl TypeError \<longleftrightarrow>
      (case parse text of None \<Rightarrow> False | Some doc \<Rightarrow> is_object doc \<and> ill_typed doc))"
proof (cases "parse text")
  case None
  then show ?thesis by (simp add: parseAccessPolicy_def)
next
  case (Some doc)
  have e: "e = TypeError" for e :: exn by (cases e)
  show ?thesis
  proof (cases "is_object doc")
    case False
    with Some show ?thesis by (simp add: parseAccessPolicy_def)
  next
    case True
    then have "parseAccessPolicy parse text \<noteq> Inr None"
      using Some by (auto simp: parseAccessPolicy_def split: sum.splits)
    moreover have "ill_typed doc \<longleftrightarrow> (\<exists>e. jvalue_int doc ''version'' 0 = Inl e) \<or>
        (\<exists>e. jvalue_string doc ''mode'' [] = Inl e)"
      unfolding ill_typed_def jvalue_int_error jvalue_string_error by simp
    moreover have "parseAccessPolicy parse text = Inl TypeError \<longleftrightarrow>
        (\<exists>e. jvalue_int doc ''version'' 0 = Inl e) \<or> (\<exists>e. jvalue_string doc ''mode'' [] = Inl e)"
      using Some True e by (auto simp: parseAccessPolicy_def split: sum.splits)
    ultimately show ?thesis using Some True by simp
  qed
qed

text \<open>
  A policy that parses restricts exactly the nonempty keys of the \<open>restrictions\<close> object, each to the
  string elements of its \<open>allowedCallers\<close> array and to nobody where there is no such array; it is
  enforced exactly when the \<open>mode\<close> member is the string \<open>enforce\<close>.
\<close>

theorem access_policy_restrictions:
  assumes "parse text = Some (JObject ms)"
    and "parseAccessPolicy parse text = Inr (Some p)"
  shows "(enforce p \<longleftrightarrow> map_of ms ''mode'' = Some (JString ''enforce'')) \<and>
    restricted_to p t = (case map_of ms ''restrictions'' of
       Some (JObject rs) \<Rightarrow> if t = [] then None else map_option parseCallers (map_of rs t)
     | _ \<Rightarrow> None)"
proof -
  let ?rs = "case map_of ms ''restrictions'' of Some (JObject rs) \<Rightarrow> parseRestrictions rs | _ \<Rightarrow> []"
  have p: "jvalue_string (JObject ms) ''mode'' [] = Inr (mode p)" "restrictions p = ?rs"
    using assms by (auto simp: parseAccessPolicy_def jfind_def split: sum.splits if_splits)
  have "enforce p \<longleftrightarrow> map_of ms ''mode'' = Some (JString ''enforce'')"
    using p(1) by (auto simp: enforce_def jvalue_string_def jfind_def split: option.splits json.splits)
  then show ?thesis
    by (auto simp: restricted_to_def p(2) restricted_to_parsed split: option.splits json.splits)
qed

definition sample_policy :: "(string \<times> json) list" where
  "sample_policy = [(''mode'', JString ''enforce''),
     (''restrictions'', JObject [([], JNull), (''pm'', JObject [(''allowedCallers'', JArray [JString ''ui'', JInt 3])])]),
     (''version'', JInt 1)]"

theorem access_policy_restrictions_witness:
  "restricted_to \<lparr>ap_version = 1, mode = ''enforce'', restrictions = [\<lparr>target = ''pm'', allowedCallers = [''ui'']\<rparr>]\<rparr> ''pm''
     = Some [''ui'']"
proof -
  let ?p = "\<lparr>ap_version = 1, mode = ''enforce'', restrictions = [\<lparr>target = ''pm'', allowedCallers = [''ui'']\<rparr>]\<rparr>"
  have "parseAccessPolicy (\<lambda>_. Some (JObject sample_policy)) ''{}'' = Inr (Some ?p)"
    by (simp add: parseAccessPolicy_def sample_policy_def jvalue_int_def jvalue_string_def jfind_def
        parseCallers_def int_of_long_small)
  then have "restricted_to ?p ''pm'' = (case map_of sample_policy ''restrictions'' of
       Some (JObject rs) \<Rightarrow> if ''pm'' = [] then None else map_option parseCallers (map_of rs ''pm'')
     | _ \<Rightarrow> None)"
    by (rule access_policy_restrictions [THEN conjunct2, rotated]) simp
  then show ?thesis by (simp add: sample_policy_def parseCallers_def jfind_def)
qed

end
