(* ===== verification/ProtocolGate.thy ===== *)
theory ProtocolGate
  imports Prelude
begin

text \<open>
  \<open>src/logos_core/protocol_gate.h\<close>: the load gate on the logos-protocol version a module was
  built against. The major is read with \<open>strtol\<close> into a 64-bit \<open>long\<close> (which saturates) and
  cast to a 32-bit \<open>int\<close> (which wraps); the lemmas give the decision on every version
  string, on the versions a builder stamps, and on the majors the cast folds together.
\<close>

datatype ProtocolGateDecision = PgAllow | PgAllowLegacy | PgRefuse

record ProtocolGateResult =
  pgDecision :: ProtocolGateDecision
  moduleMajor :: int

definition protocolVersionMajor :: "string \<Rightarrow> int" where
  "protocolVersionMajor version =
     (if version = [] then -1
      else let (major, used) = strtol version
           in if used = 0 \<or> major < 0 then -1 else int_of_long major)"

definition evaluateProtocolGate :: "string \<Rightarrow> int \<Rightarrow> ProtocolGateResult" where
  "evaluateProtocolGate moduleVersion hostMajor =
     (let major = protocolVersionMajor moduleVersion
      in if major < 0 then \<lparr>pgDecision = PgAllowLegacy, moduleMajor = -1\<rparr>
         else if major = hostMajor then \<lparr>pgDecision = PgAllow, moduleMajor = major\<rparr>
         else \<lparr>pgDecision = PgRefuse, moduleMajor = major\<rparr>)"

lemma protocolVersionMajor_scan:
  "protocolVersionMajor v =
     (case scan_long v of None \<Rightarrow> -1
      | Some (m, n) \<Rightarrow> if m < 0 then -1 else int_of_long (min long_max m))"
proof (cases "scan_long v")
  case None
  then show ?thesis by (simp add: protocolVersionMajor_def strtol_def)
next
  case (Some p)
  obtain m n where p: "p = (m, n)" by (cases p)
  have "v \<noteq> []" "n \<noteq> 0"
    using Some p by (auto simp: scan_long_def Let_def split: if_splits)
  with Some p show ?thesis
    by (auto simp: protocolVersionMajor_def strtol_def long_min_def long_max_def max_def min_def)
qed

lemma protocolVersionMajor_decimal:
  "rest = [] \<or> \<not> c_isdigit (hd rest) \<Longrightarrow>
   protocolVersionMajor (decimal n @ rest) = int_of_long (min long_max (int n))"
  by (simp add: protocolVersionMajor_scan scan_long_decimal)

text \<open>
  On a version string \<open>MAJOR...\<close> whose major fits a 32-bit \<open>int\<close> the gate implements the
  one rule of the header: the load is allowed exactly when the module's major is the host's,
  refused otherwise, and the parsed major is reported.
\<close>

theorem gate_equal_major:
  assumes "n < 2147483648" and "rest = [] \<or> \<not> c_isdigit (hd rest)"
  shows "evaluateProtocolGate (decimal n @ rest) hostMajor =
    \<lparr>pgDecision = (if int n = hostMajor then PgAllow else PgRefuse), moduleMajor = int n\<rparr>"
proof -
  have "protocolVersionMajor (decimal n @ rest) = int n"
    using assms by (simp add: protocolVersionMajor_decimal int_of_long_small long_max_def)
  then show ?thesis by (simp add: evaluateProtocolGate_def)
qed

theorem gate_equal_major_witness:
  "evaluateProtocolGate (decimal 1 @ ''.8.2'') 1 = \<lparr>pgDecision = PgAllow, moduleMajor = 1\<rparr>
   \<and> evaluateProtocolGate (decimal 2 @ ''.0'') 1 = \<lparr>pgDecision = PgRefuse, moduleMajor = 2\<rparr>"
  using gate_equal_major [of 1 "''.8.2''" 1] gate_equal_major [of 2 "''.0''" 1]
  by (simp add: c_isdigit_def)

text \<open>
  What the gate refuses, over all strings: there is a number at the front that is not
  negative, and after saturation at \<open>LONG_MAX\<close> and the cast to \<open>int\<close> it is still not negative and
  differs from the host's major. Everything without such a number loads permissively.
\<close>

theorem gate_refuses_iff:
  "pgDecision (evaluateProtocolGate v hostMajor) = PgRefuse \<longleftrightarrow>
   (\<exists>m used. scan_long v = Some (m, used) \<and> 0 \<le> m \<and>
      0 \<le> int_of_long (min long_max m) \<and> int_of_long (min long_max m) \<noteq> hostMajor)"
  by (auto simp: evaluateProtocolGate_def protocolVersionMajor_scan Let_def split: option.splits prod.splits)

lemma int_of_long_mod:
  "int_of_long k = (if k mod 4294967296 < 2147483648 then k mod 4294967296 else k mod 4294967296 - 4294967296)"
proof -
  have "int_of_long k = (k + 2147483648) mod 4294967296 - 2147483648"
    by (simp add: int_of_long_def signed_take_bit_eq_take_bit_shift take_bit_eq_mod)
  also have "(k + 2147483648) mod 4294967296 = (k mod 4294967296 + 2147483648) mod 4294967296"
    by (simp add: mod_add_left_eq)
  finally have k: "int_of_long k = (k mod 4294967296 + 2147483648) mod 4294967296 - 2147483648" .
  have q: "0 \<le> k mod 4294967296" "k mod 4294967296 < 4294967296" by simp_all
  show ?thesis
  proof (cases "k mod 4294967296 < 2147483648")
    case True
    then show ?thesis using k q(1) by simp
  next
    case False
    then have "(k mod 4294967296 + 2147483648) mod 4294967296 = k mod 4294967296 + 2147483648 - 4294967296"
      using q mod_add_if_z [of "k mod 4294967296" 4294967296 2147483648] by simp
    then show ?thesis using k False by simp
  qed
qed

text \<open>
  C40. The gate on every version string that starts with a number, however large: the major is read at 64 bits, where it
  saturates, and cast to 32, where it wraps. So the load is allowed when the major is the host's modulo \<open>2 ^ 32\<close>, passes as
  unstamped when what is left has the sign bit set (a major from \<open>2 ^ 31\<close> on, and every major beyond \<open>LONG_MAX\<close>), and is refused
  otherwise; below \<open>2 ^ 31\<close> that is the rule of the header.
\<close>

theorem gate_on_every_stamp:
  assumes "rest = [] \<or> \<not> c_isdigit (hd rest)"
  shows "evaluateProtocolGate (decimal n @ rest) hostMajor =
    (let m = (if n \<le> 9223372036854775807 then n mod 4294967296 else 4294967295) in
     if 2147483648 \<le> m then \<lparr>pgDecision = PgAllowLegacy, moduleMajor = -1\<rparr>
     else \<lparr>pgDecision = (if int m = hostMajor then PgAllow else PgRefuse), moduleMajor = int m\<rparr>)"
proof -
  let ?m = "if n \<le> 9223372036854775807 then n mod 4294967296 else 4294967295"
  have "min long_max (int n) mod 4294967296 = int ?m"
    by (auto simp: long_max_def min_def zmod_int)
  then have "protocolVersionMajor (decimal n @ rest) = (if ?m < 2147483648 then int ?m else int ?m - 4294967296)"
    using protocolVersionMajor_decimal [OF assms, of n] by (simp only: int_of_long_mod) (simp split: if_split)
  moreover have "?m < 4294967296" by simp
  ultimately show ?thesis by (auto simp: evaluateProtocolGate_def Let_def)
qed

theorem gate_on_every_stamp_witness:
  "evaluateProtocolGate (decimal 4294967297 @ ''.0.0'') 1 = \<lparr>pgDecision = PgAllow, moduleMajor = 1\<rparr>
   \<and> evaluateProtocolGate (decimal 2147483648 @ ''.0.0'') 1 = \<lparr>pgDecision = PgAllowLegacy, moduleMajor = -1\<rparr>
   \<and> evaluateProtocolGate (decimal 2 @ ''.0.0'') 1 = \<lparr>pgDecision = PgRefuse, moduleMajor = 2\<rparr>"
  using gate_on_every_stamp [of "''.0.0''" 4294967297 1] gate_on_every_stamp [of "''.0.0''" 2147483648 1]
    gate_on_every_stamp [of "''.0.0''" 2 1]
  by (simp add: c_isdigit_def)

text \<open>
  The cast from \<open>long\<close> to \<open>int\<close> is visible: majors that differ by \<open>2 ^ 32\<close> are one major to
  the gate, so a stamp \<open>2 ^ 32\<close> above the host's major is allowed although it is a different
  major.
\<close>

theorem gate_major_wraps:
  assumes "h < 2147483648"
  shows "evaluateProtocolGate (decimal (h + 4294967296)) (int h) =
    \<lparr>pgDecision = PgAllow, moduleMajor = int h\<rparr>"
proof -
  have "int_of_long (int h + 4294967296) = int_of_long (int h)"
    unfolding int_of_long_def signed_take_bit_eq_iff_take_bit_eq
    by (simp add: take_bit_eq_mod)
  then have "protocolVersionMajor (decimal (h + 4294967296)) = int h"
    using assms protocolVersionMajor_decimal [of "[]" "h + 4294967296"]
    by (simp add: int_of_long_small long_max_def)
  then show ?thesis by (simp add: evaluateProtocolGate_def)
qed

theorem gate_major_wraps_witness:
  "evaluateProtocolGate (decimal (1 + 4294967296)) 1 = \<lparr>pgDecision = PgAllow, moduleMajor = 1\<rparr>"
  using gate_major_wraps [of 1] by simp

end
