(* ===== verification/DependencyGate.thy ===== *)
theory DependencyGate
  imports Prelude
begin

text \<open>
  \<open>src/logos_core/dependency_gate.h\<close> and \<open>.cpp\<close>: the load gate on the version ranges a module
  declares for its dependencies. \<open>liblgx\<close>'s semver functions are parameters; the installed version
  of a dependency is a function, as in the code. The lemmas characterise the three decisions and
  the edge a refusal names.
\<close>

record ModuleDependency =
  dep_name :: string
  versionRange :: string
  signer :: string
  malformedConstraint :: bool

datatype DependencyGateDecision = DgAllow | DgUnconstrained | DgRefuse

record DependencyGateResult =
  dgDecision :: DependencyGateDecision
  dgDependency :: string
  dgRange :: string
  installedVersion :: string
  dgReason :: string

definition emptyGateResult :: DependencyGateResult where
  "emptyGateResult = \<lparr>dgDecision = DgUnconstrained, dgDependency = [], dgRange = [],
     installedVersion = [], dgReason = []\<rparr>"

text \<open>The \<open>problem\<close> of one constrained edge, \<open>None\<close> for the null pointer.\<close>

definition edgeProblem ::
  "(string \<Rightarrow> bool) \<Rightarrow> (string \<Rightarrow> string \<Rightarrow> bool) \<Rightarrow> string \<Rightarrow> string \<Rightarrow> string option" where
  "edgeProblem validRange satisfies rng installed =
     (if \<not> validRange rng then Some ''declares an unparseable version range''
      else if installed = [] then Some ''has no readable installed version''
      else if \<not> satisfies installed rng then Some ''is out of range''
      else None)"

fun gateLoop ::
  "(string \<Rightarrow> bool) \<Rightarrow> (string \<Rightarrow> string \<Rightarrow> bool) \<Rightarrow> (string \<Rightarrow> string) \<Rightarrow>
   DependencyGateResult \<Rightarrow> ModuleDependency list \<Rightarrow> DependencyGateResult" where
  "gateLoop validRange satisfies installedVersionOf out [] = out"
| "gateLoop validRange satisfies installedVersionOf out (dep # deps) =
     (if malformedConstraint dep then
        out\<lparr>dgDecision := DgRefuse, dgDependency := dep_name dep,
            dgReason := ''dependency '' @ dep_name dep @
                        '' declares a constraint that is not a string''\<rparr>
      else if versionRange dep = [] then
        gateLoop validRange satisfies installedVersionOf out deps
      else let installed = installedVersionOf (dep_name dep) in
        case edgeProblem validRange satisfies (versionRange dep) installed of
          Some problem \<Rightarrow>
            out\<lparr>dgDecision := DgRefuse, dgDependency := dep_name dep,
                dgRange := versionRange dep, installedVersion := installed,
                dgReason := ''dependency '' @ dep_name dep @ '' '' @ problem @ '': requires '' @
                            versionRange dep @ '', installed '' @
                            (if installed = [] then ''(unknown)'' else installed)\<rparr>
        | None \<Rightarrow>
            gateLoop validRange satisfies installedVersionOf (out\<lparr>dgDecision := DgAllow\<rparr>) deps)"

definition evaluateDependencyGate ::
  "(string \<Rightarrow> bool) \<Rightarrow> (string \<Rightarrow> string \<Rightarrow> bool) \<Rightarrow> ModuleDependency list \<Rightarrow>
   (string \<Rightarrow> string) \<Rightarrow> DependencyGateResult" where
  "evaluateDependencyGate validRange satisfies dependencies installedVersionOf =
     gateLoop validRange satisfies installedVersionOf emptyGateResult dependencies"

section \<open>What one edge may do\<close>

text \<open>The abstract reading of an edge: it blocks, it is satisfied, or it constrains nothing.\<close>

definition edge_blocks ::
  "(string \<Rightarrow> bool) \<Rightarrow> (string \<Rightarrow> string \<Rightarrow> bool) \<Rightarrow> (string \<Rightarrow> string) \<Rightarrow> ModuleDependency \<Rightarrow> bool" where
  "edge_blocks validRange satisfies ver d \<longleftrightarrow>
     malformedConstraint d \<or>
     versionRange d \<noteq> [] \<and>
       \<not> (validRange (versionRange d) \<and> ver (dep_name d) \<noteq> [] \<and>
          satisfies (ver (dep_name d)) (versionRange d))"

lemma edgeProblem_None:
  "edgeProblem vr sat rng installed = None \<longleftrightarrow> vr rng \<and> installed \<noteq> [] \<and> sat installed rng"
  by (simp add: edgeProblem_def)

lemma gateLoop_passes:
  "\<forall>d \<in> set deps. \<not> edge_blocks vr sat ver d \<Longrightarrow>
   gateLoop vr sat ver out deps =
     (if \<exists>d \<in> set deps. versionRange d \<noteq> [] then out\<lparr>dgDecision := DgAllow\<rparr> else out)"
proof (induction deps arbitrary: out)
  case Nil
  then show ?case by simp
next
  case (Cons d ds)
  then have d: "\<not> malformedConstraint d"
    "versionRange d \<noteq> [] \<Longrightarrow> edgeProblem vr sat (versionRange d) (ver (dep_name d)) = None"
    by (auto simp: edge_blocks_def edgeProblem_None)
  have rest: "\<forall>d \<in> set ds. \<not> edge_blocks vr sat ver d" using Cons.prems by simp
  show ?case
    using d Cons.IH [OF rest] by (auto simp: Let_def)
qed

lemma gateLoop_blocked:
  assumes "\<forall>d \<in> set pre. \<not> edge_blocks vr sat ver d" and "edge_blocks vr sat ver d"
  shows "dgDecision (gateLoop vr sat ver out (pre @ d # post)) = DgRefuse
    \<and> dgDependency (gateLoop vr sat ver out (pre @ d # post)) = dep_name d"
  using assms(1)
proof (induction pre arbitrary: out)
  case Nil
  show ?case
  proof (cases "malformedConstraint d")
    case False
    then have "edgeProblem vr sat (versionRange d) (ver (dep_name d)) \<noteq> None" "versionRange d \<noteq> []"
      using assms(2) by (auto simp: edge_blocks_def edgeProblem_None)
    with False show ?thesis by (auto simp: Let_def)
  qed simp
next
  case (Cons e pre)
  then have e: "\<not> malformedConstraint e"
    "versionRange e \<noteq> [] \<Longrightarrow> edgeProblem vr sat (versionRange e) (ver (dep_name e)) = None"
    by (auto simp: edge_blocks_def edgeProblem_None)
  show ?case using e Cons.IH Cons.prems by (auto simp: Let_def)
qed

text \<open>
  The dependency gate fails closed, on every input: it refuses exactly when some entry is
  malformed or declares a range that does not parse, whose dependency has no readable version, or
  that the installed version does not satisfy; it allows exactly when no entry blocks and some
  entry declares a range; and a list that constrains nothing is reported as unconstrained.
\<close>

theorem dependency_gate_decides:
  "dgDecision (evaluateDependencyGate vr sat deps ver) =
     (if \<exists>d \<in> set deps. edge_blocks vr sat ver d then DgRefuse
      else if \<exists>d \<in> set deps. versionRange d \<noteq> [] then DgAllow
      else DgUnconstrained)"
proof (cases "\<exists>d \<in> set deps. edge_blocks vr sat ver d")
  case True
  then obtain pre d post where "deps = pre @ d # post" "edge_blocks vr sat ver d"
      "\<forall>x \<in> set pre. \<not> edge_blocks vr sat ver x"
    by (metis split_list_first_prop)
  with True show ?thesis
    by (simp add: evaluateDependencyGate_def gateLoop_blocked del: gateLoop.simps)
next
  case False
  then show ?thesis
    by (simp add: evaluateDependencyGate_def gateLoop_passes emptyGateResult_def)
qed

text \<open>
  The edge a refusal names is the first one that blocks, in declaration order: the entries
  before it are ignored and the entries after it are never looked at.
\<close>

theorem dependency_gate_names_first:
  assumes "\<forall>d \<in> set pre. \<not> edge_blocks vr sat ver d" and "edge_blocks vr sat ver d"
  shows "dgDependency (evaluateDependencyGate vr sat (pre @ d # post) ver) = dep_name d"
  using gateLoop_blocked [OF assms] by (simp add: evaluateDependencyGate_def)

theorem dependency_gate_names_first_witness:
  "dgDependency (evaluateDependencyGate (\<lambda>r. r = ''^1'') (\<lambda>v r. v = ''1.2'')
     ([\<lparr>dep_name = ''a'', versionRange = ''^1'', signer = [], malformedConstraint = False\<rparr>] @
      \<lparr>dep_name = ''b'', versionRange = ''^1'', signer = [], malformedConstraint = False\<rparr> #
      [\<lparr>dep_name = ''c'', versionRange = [], signer = [], malformedConstraint = True\<rparr>])
     (\<lambda>n. if n = ''a'' then ''1.2'' else ''2.0'')) = ''b''"
  by (rule dependency_gate_names_first [THEN trans]) (auto simp: edge_blocks_def)

end
