(* ===== verification/GraphSearch.thy ===== *)
theory GraphSearch
  imports Prelude
begin

text \<open>
  The breadth-first worklist all the graph walks of the code share: the closure, probe and
  required-only walks of \<open>dependency_resolver.cpp\<close> and the recursive accessors of
  \<open>module_registry.cpp\<close>. A walk takes a name off the front of its queue, skips it when it was
  visited (or belongs to a \<open>base\<close> set the walk must not enter), sets it aside when it is not
  acceptable, and otherwise visits it and queues the successors that were not visited. The lemmas
  give termination, and what was visited and set aside when the queue ran empty.
\<close>

record search =
  sq :: "string list"
  svis :: "string list"
  srej :: "string list"

definition search_step ::
  "string list \<Rightarrow> (string \<Rightarrow> bool) \<Rightarrow> (string \<Rightarrow> string list) \<Rightarrow> search \<Rightarrow> search" where
  "search_step base ok succ s =
     (case sq s of [] \<Rightarrow> s
      | n # q \<Rightarrow>
          if n \<in> set (svis s) \<or> n \<in> set base then s\<lparr>sq := q\<rparr>
          else if \<not> ok n then s\<lparr>sq := q, srej := srej s @ [n]\<rparr>
          else s\<lparr>sq := q @ filter (\<lambda>d. d \<notin> set (svis s @ [n]) \<and> d \<notin> set base) (succ n),
                 svis := svis s @ [n]\<rparr>)"

definition search_start :: "string list \<Rightarrow> search" where
  "search_start q = \<lparr>sq = q, svis = [], srej = []\<rparr>"

definition search_loop ::
  "string list \<Rightarrow> (string \<Rightarrow> bool) \<Rightarrow> (string \<Rightarrow> string list) \<Rightarrow> string list \<Rightarrow> search option" where
  "search_loop base ok succ q =
     while_option (\<lambda>s. sq s \<noteq> []) (search_step base ok succ) (search_start q)"

text \<open>The same walk, given up at the first name that is set aside.\<close>

definition probe_loop ::
  "string list \<Rightarrow> (string \<Rightarrow> bool) \<Rightarrow> (string \<Rightarrow> string list) \<Rightarrow> string list \<Rightarrow> search option" where
  "probe_loop base ok succ q =
     while_option (\<lambda>s. sq s \<noteq> [] \<and> srej s = []) (search_step base ok succ) (search_start q)"

section \<open>What a walk reaches\<close>

inductive reaches :: "(string \<Rightarrow> bool) \<Rightarrow> (string \<Rightarrow> string list) \<Rightarrow> string set \<Rightarrow> string \<Rightarrow> bool"
  for ok succ R where
  root: "n \<in> R \<Longrightarrow> ok n \<Longrightarrow> reaches ok succ R n"
| edge: "reaches ok succ R m \<Longrightarrow> n \<in> set (succ m) \<Longrightarrow> ok n \<Longrightarrow> reaches ok succ R n"

inductive_cases reaches_elim: "reaches ok succ R n"

text \<open>A name that is a root or a successor of a name reached.\<close>

definition touched :: "(string \<Rightarrow> bool) \<Rightarrow> (string \<Rightarrow> string list) \<Rightarrow> string set \<Rightarrow> string \<Rightarrow> bool" where
  "touched ok succ R n \<longleftrightarrow> n \<in> R \<or> (\<exists>m. reaches ok succ R m \<and> n \<in> set (succ m))"

lemma reaches_ok: "reaches ok succ R n \<Longrightarrow> ok n"
  by (induction rule: reaches.induct)

lemma reaches_touched: "reaches ok succ R n \<Longrightarrow> touched ok succ R n"
  by (auto simp: touched_def elim: reaches_elim)

lemma touched_reaches: "touched ok succ R n \<Longrightarrow> ok n \<Longrightarrow> reaches ok succ R n"
  by (auto simp: touched_def intro: reaches.intros)

lemma reaches_mono_roots: "reaches ok succ R n \<Longrightarrow> R \<subseteq> R' \<Longrightarrow> reaches ok succ R' n"
  by (induction rule: reaches.induct) (auto intro: reaches.intros)

lemma reaches_closed:
  assumes "reaches ok succ R n" and "\<And>x. x \<in> R \<Longrightarrow> ok x \<Longrightarrow> x \<in> C"
    and "\<And>m x. m \<in> C \<Longrightarrow> x \<in> set (succ m) \<Longrightarrow> ok x \<Longrightarrow> x \<in> C"
  shows "n \<in> C"
  using assms(1) by (induction rule: reaches.induct) (auto intro: assms(2,3))

section \<open>Invariant\<close>

definition search_inv ::
  "string list \<Rightarrow> (string \<Rightarrow> bool) \<Rightarrow> (string \<Rightarrow> string list) \<Rightarrow> string set \<Rightarrow> search \<Rightarrow> bool" where
  "search_inv base ok succ R s \<longleftrightarrow>
     (let ok' = (\<lambda>n. ok n \<and> n \<notin> set base);
          seen = set (sq s) \<union> set (svis s) \<union> set base \<union> set (srej s)
      in distinct (svis s)
       \<and> (\<forall>n \<in> set (svis s). reaches ok' succ R n)
       \<and> (\<forall>n \<in> set (sq s). touched ok' succ R n)
       \<and> (\<forall>n \<in> set (srej s). \<not> ok n \<and> n \<notin> set base \<and> touched ok' succ R n)
       \<and> R \<subseteq> seen
       \<and> (\<forall>n \<in> set (svis s). set (succ n) \<subseteq> seen))"

lemma search_inv_start: "search_inv base ok succ (set q) (search_start q)"
  by (auto simp: search_inv_def search_start_def touched_def)

lemma search_inv_step:
  assumes inv: "search_inv base ok succ R s" and q: "sq s \<noteq> []"
  shows "search_inv base ok succ R (search_step base ok succ s)"
proof -
  obtain n q where sq: "sq s = n # q" using q by (cases "sq s") auto
  let ?ok = "\<lambda>n. ok n \<and> n \<notin> set base"
  have touch: "touched ?ok succ R n"
    using inv sq by (simp add: search_inv_def Let_def)
  show ?thesis
  proof (cases "n \<in> set (svis s) \<or> n \<in> set base")
    case True
    then show ?thesis
      using inv sq by (auto simp: search_inv_def search_step_def Let_def)
  next
    case new: False
    show ?thesis
    proof (cases "ok n")
      case False
      then show ?thesis
        using inv sq new touch by (auto simp: search_inv_def search_step_def Let_def)
    next
      case True
      with new touch have n: "reaches ?ok succ R n" by (auto intro: touched_reaches)
      then have "\<forall>d \<in> set (succ n). touched ?ok succ R d" by (auto simp: touched_def)
      then show ?thesis
        using inv sq new True n by (auto simp: search_inv_def search_step_def Let_def)
    qed
  qed
qed

lemma search_loop_inv:
  assumes "search_loop base ok succ q = Some t"
  shows "search_inv base ok succ (set q) t" and "sq t = []"
proof -
  note w = assms [unfolded search_loop_def]
  show "search_inv base ok succ (set q) t"
    by (rule while_option_rule [where P = "search_inv base ok succ (set q)", OF _ w search_inv_start])
       (rule search_inv_step)
  show "sq t = []" using while_option_stop [OF w] by simp
qed

lemma probe_loop_inv:
  assumes "probe_loop base ok succ q = Some t"
  shows "search_inv base ok succ (set q) t" and "sq t = [] \<or> srej t \<noteq> []"
proof -
  note w = assms [unfolded probe_loop_def]
  show "search_inv base ok succ (set q) t"
    by (rule while_option_rule [where P = "search_inv base ok succ (set q)", OF _ w search_inv_start])
       (simp add: search_inv_step)
  show "sq t = [] \<or> srej t \<noteq> []" using while_option_stop [OF w] by simp
qed

section \<open>Result of a finished walk\<close>

lemma search_inv_done:
  assumes inv: "search_inv base ok succ R t" and q: "sq t = []"
  defines "ok' \<equiv> \<lambda>n. ok n \<and> n \<notin> set base"
  shows "distinct (svis t)" and "set (svis t) = {n. reaches ok' succ R n}"
    and "set (srej t) = {n. \<not> ok n \<and> n \<notin> set base \<and> touched ok' succ R n}"
proof -
  show "distinct (svis t)" using inv by (simp add: search_inv_def Let_def)
  have sub: "\<And>n. n \<in> set (svis t) \<Longrightarrow> reaches ok' succ R n"
    using inv by (simp add: search_inv_def Let_def ok'_def)
  have rej: "\<And>n. n \<in> set (srej t) \<Longrightarrow> \<not> ok n \<and> n \<notin> set base \<and> touched ok' succ R n"
    using inv by (simp add: search_inv_def Let_def ok'_def)
  have seen: "\<And>n. touched ok' succ R n \<Longrightarrow> \<forall>m. reaches ok' succ R m \<longrightarrow> m \<in> set (svis t) \<Longrightarrow>
      n \<in> set (svis t) \<union> set base \<union> set (srej t)"
    using inv q by (auto simp: search_inv_def Let_def touched_def ok'_def)
  have sup: "reaches ok' succ R n \<Longrightarrow> n \<in> set (svis t)" for n
  proof (induction rule: reaches.induct)
    case (root n)
    then show ?case using inv q rej by (auto simp: search_inv_def Let_def ok'_def)
  next
    case (edge m n)
    then have "n \<in> set (svis t) \<union> set base \<union> set (srej t)"
      using inv q by (auto simp: search_inv_def Let_def)
    with edge.hyps(3) rej show ?case by (auto simp: ok'_def)
  qed
  show "set (svis t) = {n. reaches ok' succ R n}" using sub sup by auto
  show "set (srej t) = {n. \<not> ok n \<and> n \<notin> set base \<and> touched ok' succ R n}"
  proof (intro equalityI subsetI CollectI)
    fix n assume "n \<in> {n. \<not> ok n \<and> n \<notin> set base \<and> touched ok' succ R n}"
    then have n: "\<not> ok n" "n \<notin> set base" "touched ok' succ R n" by auto
    then have "n \<notin> set (svis t)" using sub reaches_ok [of ok' succ R n] by (auto simp: ok'_def)
    with seen [OF n(3)] sup n(2) show "n \<in> set (srej t)" by auto
  qed (rule rej)
qed

lemmas search_loop_result = search_inv_done [OF search_loop_inv]

lemma search_loop_visited:
  "search_loop [] ok succ q = Some t \<Longrightarrow> set (svis t) = {n. reaches ok succ (set q) n}"
  using search_loop_result(2) [of "[]" ok succ q t] by simp

lemma search_loop_rejected:
  "search_loop [] ok succ q = Some t \<Longrightarrow>
   set (srej t) = {n. \<not> ok n \<and> touched ok succ (set q) n}"
  using search_loop_result(3) [of "[]" ok succ q t] by simp

section \<open>Termination\<close>

text \<open>A walk ends when the names that can ever be queued form a finite set.\<close>

lemma search_step_decreases:
  assumes "finite F" and "set (sq s) \<subseteq> F" and "sq s \<noteq> []"
  shows "(search_step base ok succ s, s) \<in>
    measures [\<lambda>s. card (F - set (svis s)), \<lambda>s. length (sq s)]"
proof -
  obtain n q where sq: "sq s = n # q" using assms(3) by (cases "sq s") auto
  have "card (F - insert n (set (svis s))) < card (F - set (svis s))" if "n \<notin> set (svis s)"
    using assms(1,2) sq that by (intro psubset_card_mono) auto
  then show ?thesis by (auto simp: search_step_def sq)
qed

lemma search_step_within:
  assumes "\<And>n. ok n \<Longrightarrow> set (succ n) \<subseteq> F" and "set (sq s) \<subseteq> F"
  shows "set (sq (search_step base ok succ s)) \<subseteq> F"
  using assms by (cases "sq s") (auto simp: search_step_def)

lemma search_loops_total:
  assumes "finite F" and "\<And>n. ok n \<Longrightarrow> set (succ n) \<subseteq> F" and "set q \<subseteq> F"
  shows "\<exists>t. search_loop base ok succ q = Some t" "\<exists>t. probe_loop base ok succ q = Some t"
proof -
  let ?R = "measures [\<lambda>s. card (F - set (svis s)), \<lambda>s. length (sq s)]"
  have start: "set (sq (search_start q)) \<subseteq> F" using assms(3) by (simp add: search_start_def)
  have dec: "set (sq s) \<subseteq> F \<Longrightarrow> sq s \<noteq> [] \<Longrightarrow> (search_step base ok succ s, s) \<in> ?R" for s
    by (rule search_step_decreases [OF assms(1)])
  have step: "set (sq s) \<subseteq> F \<Longrightarrow> set (sq (search_step base ok succ s)) \<subseteq> F" for s
    by (rule search_step_within [OF assms(2)])
  show "\<exists>t. search_loop base ok succ q = Some t"
    unfolding search_loop_def
    by (rule wf_rel_while_option_Some [where P = "\<lambda>s. set (sq s) \<subseteq> F" and R = ?R])
       (simp_all add: start dec step del: in_measures)
  show "\<exists>t. probe_loop base ok succ q = Some t"
    unfolding probe_loop_def
    by (rule wf_rel_while_option_Some [where P = "\<lambda>s. set (sq s) \<subseteq> F" and R = ?R])
       (simp_all add: start dec step del: in_measures)
qed

lemma finite_known_frontier:
  "finite {n. ok n} \<Longrightarrow> finite (set q \<union> (\<Union>n \<in> {n. ok n}. set (succ n)))"
  by simp

lemma search_loop_total:
  assumes "finite {n. ok n}"
  shows "\<exists>t. search_loop base ok succ q = Some t"
  by (rule search_loops_total(1) [OF finite_known_frontier [OF assms, of q succ]]) auto

lemma probe_loop_total:
  assumes "finite {n. ok n}"
  shows "\<exists>t. probe_loop base ok succ q = Some t"
  by (rule search_loops_total(2) [OF finite_known_frontier [OF assms, of q succ]]) auto

end
