(* ===== verification/TopoSort.thy ===== *)
theory TopoSort
  imports Prelude
begin

text \<open>
  \<open>topoSort\<close> of \<open>src/logos_core/dependency_resolver.cpp\<close>: Kahn's algorithm over a set of modules,
  with \<open>edgesOf\<close> as the source of forward edges. The set arrives as the distinct list \<open>mods\<close> and is
  iterated in the hash order \<open>ho mods\<close>. The lemmas show that it always ends, that what it returns is a
  topological order of the edges inside the set, and that it covers the set exactly when those edges
  have no cycle.
\<close>

text \<open>\<open>inDegree\<close> and \<open>dependents\<close>; a missing key reads as the value \<open>operator[]\<close> creates.\<close>

type_synonym degrees = "string \<Rightarrow> int"
type_synonym adjacency = "string \<Rightarrow> string list"

definition countEdge ::
  "string list \<Rightarrow> string \<Rightarrow> string \<Rightarrow> degrees \<times> adjacency \<Rightarrow> degrees \<times> adjacency" where
  "countEdge mods moduleName depName = (\<lambda>(inDegree, dependents).
     if depName \<noteq> [] \<and> depName \<in> set mods
     then (inDegree(moduleName := inDegree moduleName + 1),
           dependents(depName := dependents depName @ [moduleName]))
     else (inDegree, dependents))"

definition countEdges ::
  "hash_iter \<Rightarrow> string list \<Rightarrow> (string \<Rightarrow> string list) \<Rightarrow> degrees \<times> adjacency" where
  "countEdges ho mods edgesOf =
     fold (\<lambda>moduleName. fold (countEdge mods moduleName) (edgesOf moduleName))
       (ho mods) (\<lambda>_. 0, \<lambda>_. [])"

record kahn =
  zeroInDegree :: "string list"
  inDegree :: degrees
  korder :: "string list"

definition releaseDependent :: "string \<Rightarrow> string list \<times> degrees \<Rightarrow> string list \<times> degrees" where
  "releaseDependent depender = (\<lambda>(q, deg).
     let deg' = deg(depender := deg depender - 1)
     in (if deg' depender = 0 then q @ [depender] else q, deg'))"

definition kahnStep :: "adjacency \<Rightarrow> kahn \<Rightarrow> kahn" where
  "kahnStep dependents k =
     (case zeroInDegree k of [] \<Rightarrow> k
      | moduleName # q \<Rightarrow>
          let (q', deg) = fold releaseDependent (dependents moduleName) (q, inDegree k)
          in \<lparr>zeroInDegree = q', inDegree = deg, korder = korder k @ [moduleName]\<rparr>)"

definition topoSort ::
  "hash_iter \<Rightarrow> string list \<Rightarrow> (string \<Rightarrow> string list) \<Rightarrow> string list option" where
  "topoSort ho mods edgesOf =
     (let (deg, dependents) = countEdges ho mods edgesOf;
          start = filter (\<lambda>m. deg m = 0) (ho mods)
      in map_option korder
           (while_option (\<lambda>k. zeroInDegree k \<noteq> []) (kahnStep dependents)
              \<lparr>zeroInDegree = start, inDegree = deg, korder = []\<rparr>))"

section \<open>The tables\<close>

text \<open>The edges that count: a nonempty name inside the set, with multiplicity.\<close>

definition inner_edges :: "string list \<Rightarrow> (string \<Rightarrow> string list) \<Rightarrow> string \<Rightarrow> string list" where
  "inner_edges mods edgesOf m = filter (\<lambda>d. d \<noteq> [] \<and> d \<in> set mods) (edgesOf m)"

lemma count_list_filter: "count_list (filter P xs) x = (if P x then count_list xs x else 0)"
  by (induction xs) auto

lemma countEdge_pair:
  "countEdge mods m d (deg, adj) =
     (if d \<noteq> [] \<and> d \<in> set mods then (deg(m := deg m + 1), adj(d := adj d @ [m])) else (deg, adj))"
  by (simp add: countEdge_def)

lemma fold_countEdge:
  "fold (countEdge mods m) es (deg, adj) =
     (deg(m := deg m + int (length (filter (\<lambda>d. d \<noteq> [] \<and> d \<in> set mods) es))),
      \<lambda>d. adj d @ (if d \<noteq> [] \<and> d \<in> set mods then replicate (count_list es d) m else []))"
proof (induction es arbitrary: deg adj)
  case Nil
  then show ?case by (simp add: fun_eq_iff)
next
  case (Cons e es)
  show ?case
  proof (cases "e \<noteq> [] \<and> e \<in> set mods")
    case True
    then have step: "countEdge mods m e (deg, adj) = (deg(m := deg m + 1), adj(e := adj e @ [m]))"
      by (simp add: countEdge_pair)
    show ?thesis
      unfolding fold.simps comp_def step Cons.IH using True by (auto simp: fun_eq_iff)
  next
    case False
    have step: "countEdge mods m e (deg, adj) = (deg, adj)"
      unfolding countEdge_pair using False by (rule if_not_P)
    show ?thesis
      unfolding fold.simps comp_def step Cons.IH using False by (auto simp: fun_eq_iff)
  qed
qed

lemma fold_countEdges:
  "fold (\<lambda>m. fold (countEdge mods m) (edgesOf m)) ms (deg, adj) =
     (\<lambda>x. deg x + int (sum_list (map (\<lambda>m. if m = x then length (inner_edges mods edgesOf m) else 0) ms)),
      \<lambda>d. adj d @ concat (map (\<lambda>m. replicate (count_list (inner_edges mods edgesOf m) d) m) ms))"
proof (induction ms arbitrary: deg adj)
  case Nil
  then show ?case by simp
next
  case (Cons m ms)
  have "count_list (inner_edges mods edgesOf m) d =
      (if d \<noteq> [] \<and> d \<in> set mods then count_list (edgesOf m) d else 0)" for d
    by (simp add: inner_edges_def count_list_filter)
  then show ?case
    by (simp add: fold_countEdge Cons.IH fun_eq_iff inner_edges_def)
qed

lemma sum_list_single:
  "distinct ms \<Longrightarrow> sum_list (map (\<lambda>m. if m = x then f m else 0) ms) = (if x \<in> set ms then f x else (0::nat))"
  by (induction ms) auto

lemma countEdges_tables:
  assumes "hash_order ho" and "distinct mods" and "countEdges ho mods edgesOf = (deg, adj)"
  shows "x \<in> set mods \<Longrightarrow> deg x = int (length (inner_edges mods edgesOf x))"
    and "set (adj d) \<subseteq> set mods"
    and "x \<in> set mods \<Longrightarrow> count_list (adj d) x = count_list (inner_edges mods edgesOf x) d"
proof -
  have h: "distinct (ho mods)" "set (ho mods) = set mods"
    using assms(1,2) by (auto dest: hash_orderD)
  let ?deg = "\<lambda>x. int (sum_list (map (\<lambda>m. if m = x then length (inner_edges mods edgesOf m) else 0) (ho mods)))"
  let ?adj = "\<lambda>d. concat (map (\<lambda>m. replicate (count_list (inner_edges mods edgesOf m) d) m) (ho mods))"
  have "(deg, adj) = (?deg, ?adj)"
    unfolding assms(3) [symmetric] countEdges_def fold_countEdges by simp
  then have t: "deg = ?deg" "adj = ?adj" by (simp_all only: prod.inject)
  show "x \<in> set mods \<Longrightarrow> deg x = int (length (inner_edges mods edgesOf x))"
    using h sum_list_single [of "ho mods" x "\<lambda>m. length (inner_edges mods edgesOf m)"]
    unfolding t by simp
  show "set (adj d) \<subseteq> set mods" by (auto simp: t h)
  show "x \<in> set mods \<Longrightarrow> count_list (adj d) x = count_list (inner_edges mods edgesOf x) d"
    by (simp add: t h count_list_concat_replicate)
qed

section \<open>Releasing the dependents of one module\<close>

lemma releaseDependent_pair:
  "releaseDependent y (q, deg) = (if deg y = 1 then q @ [y] else q, deg(y := deg y - 1))"
  by (simp add: releaseDependent_def Let_def)

lemma fold_releaseDependent:
  assumes "\<forall>x. int (count_list xs x) \<le> deg x \<or> x \<notin> set xs" and "fold releaseDependent xs (q, deg) = (q', deg')"
  shows "deg' = (\<lambda>x. deg x - int (count_list xs x))"
    and "\<exists>new. q' = q @ new \<and> distinct new \<and> set new = {x \<in> set xs. deg x = int (count_list xs x)}"
proof -
  have "deg' = (\<lambda>x. deg x - int (count_list xs x)) \<and>
    (\<exists>new. q' = q @ new \<and> distinct new \<and> set new = {x \<in> set xs. deg x = int (count_list xs x)})"
    using assms
  proof (induction xs arbitrary: q deg)
    case Nil
    then show ?case by simp
  next
    case (Cons y ys)
    let ?deg = "deg(y := deg y - 1)"
    let ?q = "if deg y = 1 then q @ [y] else q"
    have fold: "fold releaseDependent ys (?q, ?deg) = (q', deg')"
      using Cons.prems(2) by (simp add: releaseDependent_pair)
    have y: "int (count_list ys y) + 1 \<le> deg y" using Cons.prems(1)[rule_format, of y] by simp
    have "\<forall>x. int (count_list ys x) \<le> ?deg x \<or> x \<notin> set ys"
    proof
      fix x show "int (count_list ys x) \<le> ?deg x \<or> x \<notin> set ys"
        using y Cons.prems(1)[rule_format, of x] by (cases "x = y") auto
    qed
    from Cons.IH [OF this fold] obtain new where
      deg': "deg' = (\<lambda>x. ?deg x - int (count_list ys x))" and
      new: "q' = ?q @ new" "distinct new" "set new = {x \<in> set ys. ?deg x = int (count_list ys x)}"
      by blast
    have d: "deg' = (\<lambda>x. deg x - int (count_list (y # ys) x))"
      by (auto simp: deg' fun_eq_iff)
    show ?case
    proof (cases "deg y = 1")
      case True
      then have "count_list ys y = 0" using y by simp
      then have "y \<notin> set ys" by (simp add: count_list_0_iff)
      then have "set (y # new) = {x \<in> set (y # ys). deg x = int (count_list (y # ys) x)}"
        using True by (auto simp: new(3) count_notin)
      moreover have "q' = q @ y # new" "distinct (y # new)"
        using new(1,2) True \<open>y \<notin> set ys\<close> by (simp_all add: new(3))
      ultimately show ?thesis using d by blast
    next
      case False
      have "y \<in> set ys" if "deg y = 1 + int (count_list ys y)"
      proof -
        from False that have "count_list ys y \<noteq> 0" by auto
        then show ?thesis by (metis count_notin)
      qed
      have "x \<in> set new \<longleftrightarrow> x \<in> set (y # ys) \<and> deg x = int (count_list (y # ys) x)" for x
        using \<open>deg y = 1 + int (count_list ys y) \<Longrightarrow> y \<in> set ys\<close>
        by (cases "x = y") (auto simp: new(3))
      then have "set new = {x \<in> set (y # ys). deg x = int (count_list (y # ys) x)}" by blast
      moreover have "q' = q @ new" using new(1) False by simp
      ultimately show ?thesis using d new(2) by blast
    qed
  qed
  then show "deg' = (\<lambda>x. deg x - int (count_list xs x))"
    and "\<exists>new. q' = q @ new \<and> distinct new \<and> set new = {x \<in> set xs. deg x = int (count_list xs x)}"
    by blast+
qed

section \<open>The loop\<close>

definition topological :: "(string \<Rightarrow> string list) \<Rightarrow> string list \<Rightarrow> bool" where
  "topological E xs \<longleftrightarrow> (\<forall>pre m post. xs = pre @ m # post \<longrightarrow> set (E m) \<subseteq> set pre)"

lemma topological_Nil [simp]: "topological E []"
  by (simp add: topological_def)

lemma topological_snoc:
  assumes "topological E xs" and "set (E m) \<subseteq> set xs"
  shows "topological E (xs @ [m])"
  unfolding topological_def
proof (intro allI impI)
  fix pre n post assume eq: "xs @ [m] = pre @ n # post"
  show "set (E n) \<subseteq> set pre"
  proof (cases post rule: rev_cases)
    case Nil
    with eq assms(2) show ?thesis by simp
  next
    case (snoc ys y)
    with eq have "xs = pre @ n # ys" by simp
    with assms(1) show ?thesis by (auto simp: topological_def)
  qed
qed

definition kahn_inv :: "string list \<Rightarrow> (string \<Rightarrow> string list) \<Rightarrow> kahn \<Rightarrow> bool" where
  "kahn_inv mods E k \<longleftrightarrow>
     distinct (korder k @ zeroInDegree k)
   \<and> set (korder k @ zeroInDegree k) \<subseteq> set mods
   \<and> (\<forall>m \<in> set mods. inDegree k m = int (length (filter (\<lambda>d. d \<notin> set (korder k)) (E m))))
   \<and> (\<forall>m \<in> set mods. inDegree k m = 0 \<longleftrightarrow> m \<in> set (korder k @ zeroInDegree k))
   \<and> topological E (korder k)"

lemma length_filter_remove:
  "m \<notin> S \<Longrightarrow> length (filter (\<lambda>d. d \<notin> S) es) =
     count_list es m + length (filter (\<lambda>d. d \<notin> insert m S) es)"
  by (induction es) auto

lemma kahn_inv_step:
  assumes inv: "kahn_inv mods E k" and ne: "zeroInDegree k \<noteq> []"
    and adj: "\<And>d. set (adj d) \<subseteq> set mods"
      "\<And>d x. x \<in> set mods \<Longrightarrow> count_list (adj d) x = count_list (E x) d"
  shows "kahn_inv mods E (kahnStep adj k)"
proof -
  obtain m q where zero: "zeroInDegree k = m # q" using ne by (cases "zeroInDegree k") auto
  let ?ord = "korder k" and ?deg = "inDegree k"
  obtain q' deg' where f: "fold releaseDependent (adj m) (q, ?deg) = (q', deg')"
    by (cases "fold releaseDependent (adj m) (q, ?deg)")
  have m: "m \<in> set mods" "m \<notin> set ?ord" "distinct (?ord @ m # q)" "set q \<subseteq> set mods" "set ?ord \<subseteq> set mods"
    using inv zero by (auto simp: kahn_inv_def)
  have deg: "x \<in> set mods \<Longrightarrow> ?deg x = int (count_list (E x) m) +
      int (length (filter (\<lambda>d. d \<notin> set (?ord @ [m])) (E x)))" for x
    using inv length_filter_remove [OF m(2), of "E x"] by (simp add: kahn_inv_def)
  have "\<forall>x \<in> set mods. ?deg x = 0 \<longleftrightarrow> x \<in> set (?ord @ zeroInDegree k)"
    using inv unfolding kahn_inv_def by blast
  then have zeros: "x \<in> set mods \<Longrightarrow> ?deg x = 0 \<longleftrightarrow> x \<in> set (?ord @ m # q)" for x
    unfolding zero by blast
  have cnt: "x \<in> set mods \<Longrightarrow> count_list (adj m) x = count_list (E x) m" for x by (rule adj(2))
  have "\<forall>x. int (count_list (adj m) x) \<le> ?deg x \<or> x \<notin> set (adj m)"
    using deg cnt adj(1) [of m] by (auto simp: subset_iff)
  note rel = fold_releaseDependent [OF this f]
  from rel(2) obtain new where new: "q' = q @ new" "distinct new"
    "\<And>x. x \<in> set new \<longleftrightarrow> x \<in> set (adj m) \<and> ?deg x = int (count_list (adj m) x)" by blast
  have new_mods: "x \<in> set new \<Longrightarrow> x \<in> set mods" for x using new(3) adj(1) by auto
  have new_pos: "x \<in> set new \<Longrightarrow> ?deg x \<noteq> 0" for x using new(3) [of x] by (auto simp: count_list_0_iff)
  have deg': "x \<in> set mods \<Longrightarrow> deg' x = int (length (filter (\<lambda>d. d \<notin> set (?ord @ [m])) (E x)))" for x
    using deg cnt rel(1) by simp
  have "set (E m) \<subseteq> set ?ord"
  proof -
    have "filter (\<lambda>d. d \<notin> set ?ord) (E m) = []"
      using inv zero m(1) by (auto simp: kahn_inv_def)
    then show ?thesis by (auto simp: filter_empty_conv)
  qed
  then have topo: "topological E (?ord @ [m])"
    using inv by (intro topological_snoc) (auto simp: kahn_inv_def)
  have zeros': "deg' x = 0 \<longleftrightarrow> x \<in> set (?ord @ [m] @ q @ new)" if x: "x \<in> set mods" for x
  proof (cases "?deg x = 0")
    case True
    then have "deg' x = 0" using deg [OF x] deg' [OF x] by linarith
    then show ?thesis using zeros [OF x] True by auto
  next
    case False
    have "deg' x = 0 \<longleftrightarrow> ?deg x = int (count_list (adj m) x)" using rel(1) by auto
    also have "\<dots> \<longleftrightarrow> x \<in> set new" using False new(3) [of x] by (auto simp: count_list_0_iff count_notin)
    finally show ?thesis using False zeros [OF x] by auto
  qed
  have "distinct (?ord @ [m] @ q @ new)"
    using m(3) new(2) new_mods new_pos zeros by (auto simp: disjoint_iff)
  moreover have "kahnStep adj k = \<lparr>zeroInDegree = q @ new, inDegree = deg', korder = ?ord @ [m]\<rparr>"
    by (simp add: kahnStep_def zero f new(1))
  ultimately show ?thesis
    unfolding kahn_inv_def using m new_mods deg' zeros' topo by auto
qed

lemma topoSort_total:
  fixes edgesOf :: "string \<Rightarrow> string list"
  assumes "hash_order ho" and "distinct mods"
  defines "E \<equiv> inner_edges mods edgesOf"
  obtains ord where "topoSort ho mods edgesOf = Some ord" "distinct ord" "set ord \<subseteq> set mods"
    "topological E ord" "\<And>m. m \<in> set mods \<Longrightarrow> m \<notin> set ord \<Longrightarrow> \<exists>d \<in> set (E m). d \<notin> set ord"
proof -
  obtain deg adj where t: "countEdges ho mods edgesOf = (deg, adj)"
    by (cases "countEdges ho mods edgesOf")
  note tab = countEdges_tables [OF assms(1,2) t, folded E_def]
  let ?k0 = "\<lparr>zeroInDegree = filter (\<lambda>m. deg m = 0) (ho mods), inDegree = deg, korder = []\<rparr>"
  let ?inv = "kahn_inv mods E"
  have h: "distinct (ho mods)" "\<And>x. x \<in> set (ho mods) \<longleftrightarrow> x \<in> set mods"
    using assms(1,2) by (auto dest: hash_orderD)
  have init: "?inv ?k0"
    using tab(1) by (simp add: kahn_inv_def h subset_iff)
  have step: "?inv k \<Longrightarrow> zeroInDegree k \<noteq> [] \<Longrightarrow> ?inv (kahnStep adj k)" for k
    by (rule kahn_inv_step) (use tab in auto)
  have dec: "length mods - length (korder (kahnStep adj k)) < length mods - length (korder k)"
    if inv: "?inv k" and ne: "zeroInDegree k \<noteq> []" for k
  proof -
    have "length (korder (kahnStep adj k)) = Suc (length (korder k))"
      using ne by (auto simp: kahnStep_def split: list.splits prod.splits)
    moreover have "length (korder (kahnStep adj k)) \<le> length mods"
      using step [OF inv ne] assms(2)
      by (auto simp: kahn_inv_def distinct_card [symmetric] intro!: card_mono)
    ultimately show ?thesis by simp
  qed
  have "\<exists>k. while_option (\<lambda>k. zeroInDegree k \<noteq> []) (kahnStep adj) ?k0 = Some k"
    by (rule measure_while_option_Some [where P = ?inv and f = "\<lambda>k. length mods - length (korder k)", OF _ init])
       (use step dec in blast)
  then obtain k where k: "while_option (\<lambda>k. zeroInDegree k \<noteq> []) (kahnStep adj) ?k0 = Some k" ..
  have inv: "?inv k"
    by (rule while_option_rule [where P = ?inv, OF _ k init]) (rule step)
  have emp: "zeroInDegree k = []" using while_option_stop [OF k] by simp
  show thesis
  proof (rule that)
    show "topoSort ho mods edgesOf = Some (korder k)"
      using k by (simp add: topoSort_def t)
    show "distinct (korder k)" "set (korder k) \<subseteq> set mods" "topological E (korder k)"
      using inv by (simp_all add: kahn_inv_def)
    fix m assume m: "m \<in> set mods" "m \<notin> set (korder k)"
    then have "filter (\<lambda>d. d \<notin> set (korder k)) (E m) \<noteq> []"
      using inv emp by (auto simp: kahn_inv_def)
    then show "\<exists>d \<in> set (E m). d \<notin> set (korder k)" by (auto simp: filter_empty_conv)
  qed
qed

section \<open>Cycles\<close>

definition edge_rel :: "string list \<Rightarrow> (string \<Rightarrow> string list) \<Rightarrow> (string \<times> string) set" where
  "edge_rel mods edgesOf = {(d, m). m \<in> set mods \<and> d \<in> set (inner_edges mods edgesOf m)}"

lemma finite_edge_rel: "finite (edge_rel mods edgesOf)"
  by (rule finite_subset [of _ "set mods \<times> set mods"]) (auto simp: edge_rel_def inner_edges_def)

lemma edge_rel_cong: "set mods = set mods' \<Longrightarrow> edge_rel mods edgesOf = edge_rel mods' edgesOf"
  by (simp add: edge_rel_def inner_edges_def)

definition position :: "string list \<Rightarrow> string \<Rightarrow> nat" where
  "position xs x = length (takeWhile (\<lambda>y. y \<noteq> x) xs)"

lemma position_first: "m \<notin> set pre \<Longrightarrow> position (pre @ m # post) m = length pre"
  by (simp add: position_def takeWhile_append)

lemma position_before: "d \<in> set pre \<Longrightarrow> position (pre @ post) d < length pre"
  by (induction pre) (auto simp: position_def)

lemma topological_acyclic:
  assumes "topological (inner_edges mods edgesOf) ord" and "set ord = set mods"
  shows "acyclic (edge_rel mods edgesOf)"
proof -
  have "edge_rel mods edgesOf \<subseteq> measure (position ord)"
  proof (clarify)
    fix d m assume "(d, m) \<in> edge_rel mods edgesOf"
    then have m: "m \<in> set ord" "d \<in> set (inner_edges mods edgesOf m)"
      by (simp_all add: edge_rel_def assms(2))
    from m(1) obtain pre post where ord: "ord = pre @ m # post" "m \<notin> set pre"
      by (metis split_list_first)
    with assms(1) m(2) have "d \<in> set pre" by (auto simp: topological_def)
    with ord show "(d, m) \<in> measure (position ord)"
      by (simp add: position_first position_before)
  qed
  then show ?thesis by (metis wf_acyclic wf_measure wf_subset)
qed

lemma topoSort_covers_iff:
  assumes "hash_order ho" and "distinct mods" and "topoSort ho mods edgesOf = Some ord"
  shows "length ord = length mods \<longleftrightarrow> acyclic (edge_rel mods edgesOf)"
    and "length ord \<le> length mods"
proof -
  let ?E = "inner_edges mods edgesOf"
  from topoSort_total [OF assms(1,2), of edgesOf] assms(3)
  have ord: "distinct ord" "set ord \<subseteq> set mods" "topological ?E ord"
    and stuck: "\<And>m. m \<in> set mods \<Longrightarrow> m \<notin> set ord \<Longrightarrow> \<exists>d \<in> set (?E m). d \<notin> set ord"
    by (metis option.inject)+
  have len: "length ord = length mods \<longleftrightarrow> set ord = set mods"
    by (rule distinct_set_eq_length [OF ord(1) assms(2) ord(2)])
  show "length ord = length mods \<longleftrightarrow> acyclic (edge_rel mods edgesOf)"
  proof
    assume "length ord = length mods"
    with ord(3) len show "acyclic (edge_rel mods edgesOf)" by (simp add: topological_acyclic)
  next
    assume "acyclic (edge_rel mods edgesOf)"
    then have wf: "wf (edge_rel mods edgesOf)" using finite_edge_rel by (rule finite_acyclic_wf [rotated])
    have "m \<in> set mods \<longrightarrow> m \<in> set ord" for m
      using wf
    proof (induction m rule: wf_induct_rule)
      case (less m)
      show ?case
      proof (intro impI, rule ccontr)
        assume m: "m \<in> set mods" "m \<notin> set ord"
        then obtain d where d: "d \<in> set (?E m)" "d \<notin> set ord" using stuck by blast
        with m have "(d, m) \<in> edge_rel mods edgesOf" "d \<in> set mods"
          by (auto simp: edge_rel_def inner_edges_def)
        with less d(2) show False by blast
      qed
    qed
    with ord(2) len show "length ord = length mods" by blast
  qed
  show "length ord \<le> length mods"
    using ord(1,2) assms(2) by (metis card_mono distinct_card finite_set)
qed

lemma topoSort_members:
  assumes "hash_order ho" and "distinct mods" and "topoSort ho mods edgesOf = Some ord"
  shows "distinct ord" "set ord \<subseteq> set mods" "topological (inner_edges mods edgesOf) ord"
  using topoSort_total [OF assms(1,2), of edgesOf] assms(3) by (metis option.inject)+

end
