(* ===== verification/DependencyResolver.thy ===== *)
theory DependencyResolver
  imports GraphSearch TopoSort
begin

text \<open>
  \<open>src/logos_core/dependency_resolver.{h,cpp}\<close>: which modules a request loads and in which order.
  \<open>resolve\<close> is the composition the code writes inline: the required closure of the request, the
  best-effort growth over optional dependencies, the names that are there only by best effort, and
  the topological order by required edges, refined by optional ones where they do not cycle.
  \<open>isKnown\<close>, the two edge functions and the iteration order \<open>ho\<close> of the unordered sets are the
  arguments; the locale \<open>known_modules\<close> is the contract the callers keep, a finite set of known
  modules. A loop that would not end gives \<open>None\<close>.
\<close>

section \<open>Results\<close>

record SkippedOptional =
  sk_module :: string
  namedBy :: string
  sk_reason :: string
  sk_detail :: string

record ResolveResult =
  rr_order :: "string list"
  missing :: "string list"
  hasCycle :: bool
  bestEffort :: "string list"
  skippedOptional :: "SkippedOptional list"

definition rr_ok :: "ResolveResult \<Rightarrow> bool" where
  "rr_ok r \<longleftrightarrow> missing r = [] \<and> \<not> hasCycle r"

definition isBestEffort :: "ResolveResult \<Rightarrow> string \<Rightarrow> bool" where
  "isBestEffort r name = list_ex (\<lambda>n. n = name) (bestEffort r)"

datatype OptionalLoad = OrderOnly | BestEffort

text \<open>The nonempty names of an edge list: all the walks skip an empty one.\<close>

definition hard :: "(string \<Rightarrow> string list) \<Rightarrow> string \<Rightarrow> string list" where
  "hard getDependencies n = filter (\<lambda>d. d \<noteq> []) (getDependencies n)"

section \<open>Best-effort growth\<close>

record growth =
  modulesToLoad :: "string list"
  reportedSkips :: "string list"
  skipped :: "SkippedOptional list"
  grew :: bool

definition skipKey :: "string \<Rightarrow> string \<Rightarrow> string" where
  "skipKey holder optName = holder @ CHR 0x00 # optName"

definition reportSkip :: "string \<Rightarrow> string \<Rightarrow> string \<Rightarrow> growth \<Rightarrow> growth" where
  "reportSkip holder optName blocker g =
     (let key = skipKey holder optName in
      if key \<in> set (reportedSkips g) then g
      else g\<lparr>reportedSkips := reportedSkips g @ [key],
             skipped := skipped g @
               [\<lparr>sk_module = optName, namedBy = holder,
                 sk_reason = (if blocker = optName then ''not_installed'' else ''unsatisfiable''),
                 sk_detail = (if blocker = optName then [] else blocker)\<rparr>]\<rparr>)"

definition growOptional ::
  "hash_iter \<Rightarrow> (string \<Rightarrow> bool) \<Rightarrow> (string \<Rightarrow> string list) \<Rightarrow> string \<Rightarrow> string \<Rightarrow> growth \<Rightarrow> growth option"
where
  "growOptional ho isKnown getDependencies holder optName g =
     (if optName = [] \<or> optName \<in> set (modulesToLoad g) then Some g
      else do {
        probe \<leftarrow> probe_loop (modulesToLoad g) isKnown (hard getDependencies) [optName];
        Some (case srej probe of
                blocker # _ \<Rightarrow> reportSkip holder optName blocker g
              | [] \<Rightarrow> g\<lparr>modulesToLoad := modulesToLoad g @ ho (svis probe),
                         grew := (grew g \<or> svis probe \<noteq> [])\<rparr>)
      })"

definition growRound ::
  "hash_iter \<Rightarrow> (string \<Rightarrow> bool) \<Rightarrow> (string \<Rightarrow> string list) \<Rightarrow> (string \<Rightarrow> string list) \<Rightarrow>
   growth \<Rightarrow> growth option" where
  "growRound ho isKnown getDependencies getOptional g =
     foldM (\<lambda>holder. foldM (growOptional ho isKnown getDependencies holder) (getOptional holder))
       (ho (modulesToLoad g)) (g\<lparr>grew := False\<rparr>)"

partial_function (option) growLoop ::
  "hash_iter \<Rightarrow> (string \<Rightarrow> bool) \<Rightarrow> (string \<Rightarrow> string list) \<Rightarrow> (string \<Rightarrow> string list) \<Rightarrow>
   growth \<Rightarrow> growth option" where
  "growLoop ho isKnown getDependencies getOptional g =
     (case growRound ho isKnown getDependencies getOptional g of
        None \<Rightarrow> None
      | Some g' \<Rightarrow> if grew g' then growLoop ho isKnown getDependencies getOptional g' else Some g')"

declare growLoop.simps [code]

definition growStart :: "string list \<Rightarrow> growth" where
  "growStart ms = \<lparr>modulesToLoad = ms, reportedSkips = [], skipped = [], grew = True\<rparr>"

section \<open>The resolver\<close>

definition refineOrder ::
  "hash_iter \<Rightarrow> (string \<Rightarrow> string list) \<Rightarrow> (string \<Rightarrow> string list) option \<Rightarrow> string list \<Rightarrow>
   string list \<Rightarrow> string list option" where
  "refineOrder ho getDependencies getOptional mods ord =
     (case getOptional of
        None \<Rightarrow> Some ord
      | Some soft \<Rightarrow>
          if length ord = length mods
          then map_option (\<lambda>refined. if length refined = length mods then refined else ord)
                 (topoSort ho mods (\<lambda>n. getDependencies n @ soft n))
          else Some ord)"

definition resolve ::
  "hash_iter \<Rightarrow> string list \<Rightarrow> (string \<Rightarrow> bool) \<Rightarrow> (string \<Rightarrow> string list) \<Rightarrow>
   (string \<Rightarrow> string list) option \<Rightarrow> OptionalLoad \<Rightarrow> ResolveResult option" where
  "resolve ho requested isKnown getDependencies getOptional optionalLoad = do {
     closure \<leftarrow> search_loop [] isKnown (hard getDependencies) requested;
     g \<leftarrow> (case (optionalLoad, getOptional) of
              (BestEffort, Some soft) \<Rightarrow>
                growLoop ho isKnown getDependencies soft (growStart (svis closure))
            | _ \<Rightarrow> Some (growStart (svis closure)));
     tolerable \<leftarrow> (case (optionalLoad, getOptional) of
              (BestEffort, Some soft) \<Rightarrow>
                map_option (\<lambda>w. sort (filter (\<lambda>n. n \<notin> set (svis w)) (ho (modulesToLoad g))))
                  (search_loop [] isKnown (hard getDependencies) requested)
            | _ \<Rightarrow> Some []);
     hardOrder \<leftarrow> topoSort ho (modulesToLoad g) getDependencies;
     finalOrder \<leftarrow> refineOrder ho getDependencies getOptional (modulesToLoad g) hardOrder;
     Some \<lparr>rr_order = finalOrder, missing = srej closure,
           hasCycle = (length finalOrder < length (modulesToLoad g)),
           bestEffort = tolerable, skippedOptional = skipped g\<rparr>
   }"

section \<open>Specification\<close>

text \<open>
  \<open>required\<close> is what the required edges reach from the request through known modules;
  \<open>satisfiable\<close> says that a module and everything it requires is known; \<open>wanted\<close> is what required
  edges and optional edges to satisfiable modules reach.
\<close>

definition required ::
  "(string \<Rightarrow> bool) \<Rightarrow> (string \<Rightarrow> string list) \<Rightarrow> string list \<Rightarrow> string set" where
  "required isKnown deps requested = {n. reaches isKnown (hard deps) (set requested) n}"

definition satisfiable :: "(string \<Rightarrow> bool) \<Rightarrow> (string \<Rightarrow> string list) \<Rightarrow> string \<Rightarrow> bool" where
  "satisfiable isKnown deps n \<longleftrightarrow> (\<forall>x. touched isKnown (hard deps) {n} x \<longrightarrow> isKnown x)"

definition wanted ::
  "(string \<Rightarrow> bool) \<Rightarrow> (string \<Rightarrow> string list) \<Rightarrow> (string \<Rightarrow> string list) \<Rightarrow> string list \<Rightarrow> string set"
where
  "wanted isKnown deps soft requested =
     {n. reaches (satisfiable isKnown deps) (\<lambda>n. hard deps n @ hard soft n) (set requested) n}"

text \<open>The edges between the modules of a set, an edge from a module to what it requires.\<close>

definition edges_within :: "string set \<Rightarrow> (string \<Rightarrow> string list) \<Rightarrow> (string \<times> string) set" where
  "edges_within S deps = {(m, d). m \<in> S \<and> d \<in> S \<and> d \<in> set (hard deps m)}"

definition load_before :: "string list \<Rightarrow> string \<Rightarrow> string \<Rightarrow> bool" where
  "load_before ord d m \<longleftrightarrow> (\<exists>pre post. ord = pre @ m # post \<and> d \<in> set pre)"

lemma hard_simp [simp]: "d \<in> set (hard deps n) \<longleftrightarrow> d \<in> set (deps n) \<and> d \<noteq> []"
  by (auto simp: hard_def)

lemma edge_rel_within: "acyclic (edge_rel mods deps) \<longleftrightarrow> acyclic (edges_within (set mods) deps)"
proof -
  have "edges_within (set mods) deps = (edge_rel mods deps)\<inverse>"
    by (auto simp: edges_within_def edge_rel_def inner_edges_def)
  then show ?thesis by simp
qed

lemma topological_load_before:
  assumes "topological (inner_edges mods edgesOf) ord" and "set ord = set mods"
    and "m \<in> set mods" and "d \<in> set mods" and "d \<in> set (hard edgesOf m)"
  shows "load_before ord d m"
proof -
  obtain pre post where "ord = pre @ m # post" using assms(2,3) by (metis split_list)
  with assms show ?thesis
    unfolding load_before_def topological_def by (force simp: inner_edges_def)
qed

lemma hard_closed_touched:
  assumes "\<And>n d. n \<in> S \<Longrightarrow> d \<in> set (hard deps n) \<Longrightarrow> d \<in> S" and "n \<in> S"
    and "touched ok (hard deps) {n} x"
  shows "x \<in> S"
proof -
  have "m \<in> S" if "reaches ok (hard deps) {n} m" for m
    by (rule reaches_closed [OF that]) (use assms(1,2) in auto)
  then show ?thesis using assms unfolding touched_def by blast
qed

lemma reaches_mono_ok:
  "reaches ok succ R n \<Longrightarrow> (\<And>x. ok x \<Longrightarrow> ok' x) \<Longrightarrow> reaches ok' succ R n"
  by (induction rule: reaches.induct) (auto intro: reaches.intros)

lemma reaches_mono_succ:
  "reaches ok succ R n \<Longrightarrow> (\<And>x. set (succ x) \<subseteq> set (succ' x)) \<Longrightarrow> reaches ok succ' R n"
  by (induction rule: reaches.induct) (auto intro: reaches.intros)

lemma known_closed_satisfiable:
  assumes "\<And>n d. n \<in> S \<Longrightarrow> d \<in> set (hard deps n) \<Longrightarrow> d \<in> S" and "\<And>n. n \<in> S \<Longrightarrow> isKnown n"
    and "n \<in> S"
  shows "satisfiable isKnown deps n"
  unfolding satisfiable_def
proof (intro allI impI)
  fix x assume t: "touched isKnown (hard deps) {n} x"
  have "x \<in> S"
    by (rule hard_closed_touched [of S deps, OF _ assms(3) t]) (rule assms(1))
  then show "isKnown x" by (rule assms(2))
qed

lemma satisfiable_known: "satisfiable isKnown deps n \<Longrightarrow> isKnown n"
  by (auto simp: satisfiable_def touched_def)

lemma reaches_trans:
  assumes "reaches ok succ {n} m" and "touched ok succ R n"
  shows "reaches ok succ R m"
  using assms(1)
proof (induction rule: reaches.induct)
  case (root x)
  then show ?case using assms(2) by (auto intro: touched_reaches)
next
  case (edge m x)
  then show ?case by (auto intro: reaches.edge)
qed

lemma reaches_single_ok: "reaches ok succ {n} m \<Longrightarrow> ok n"
  by (induction rule: reaches.induct) auto

lemma satisfiable_hard:
  assumes "satisfiable isKnown deps n" and "d \<in> set (hard deps n)"
  shows "satisfiable isKnown deps d"
proof -
  have n: "reaches isKnown (hard deps) {n} n"
    using satisfiable_known [OF assms(1)] by (auto intro: reaches.root)
  have d: "touched isKnown (hard deps) {n} d" using n assms(2) by (auto simp: touched_def)
  show ?thesis
    unfolding satisfiable_def
  proof (intro allI impI)
    fix x assume x: "touched isKnown (hard deps) {d} x"
    have "touched isKnown (hard deps) {n} x"
      using x d by (auto simp: touched_def dest!: reaches_trans [OF _ d])
    with assms(1) show "isKnown x" by (simp add: satisfiable_def)
  qed
qed

text \<open>Where nothing is missing, what is required is closed and satisfiable.\<close>

lemma required_closed:
  assumes "\<forall>n. touched isKnown (hard deps) (set req) n \<longrightarrow> isKnown n"
    and "n \<in> required isKnown deps req" and "d \<in> set (hard deps n)"
  shows "d \<in> required isKnown deps req"
proof -
  have "touched isKnown (hard deps) (set req) d"
    using assms(2,3) by (auto simp: required_def touched_def)
  with assms(1) show ?thesis by (auto simp: required_def intro: touched_reaches)
qed

section \<open>Growth\<close>

definition skip_sound ::
  "(string \<Rightarrow> bool) \<Rightarrow> (string \<Rightarrow> string list) \<Rightarrow> (string \<Rightarrow> string list) \<Rightarrow> string set \<Rightarrow>
   SkippedOptional \<Rightarrow> bool" where
  "skip_sound isKnown deps soft S sk \<longleftrightarrow>
     namedBy sk \<in> S \<and> sk_module sk \<in> set (hard soft (namedBy sk))
   \<and> (sk_reason sk = ''not_installed'' \<and> \<not> isKnown (sk_module sk) \<and> sk_detail sk = []
      \<or> sk_reason sk = ''unsatisfiable'' \<and> isKnown (sk_module sk) \<and> \<not> isKnown (sk_detail sk)
         \<and> touched isKnown (hard deps) {sk_module sk} (sk_detail sk))"

definition growth_inv ::
  "(string \<Rightarrow> bool) \<Rightarrow> (string \<Rightarrow> string list) \<Rightarrow> (string \<Rightarrow> string list) \<Rightarrow> string list \<Rightarrow>
   growth \<Rightarrow> bool" where
  "growth_inv isKnown deps soft base g \<longleftrightarrow>
     distinct (modulesToLoad g) \<and> set base \<subseteq> set (modulesToLoad g)
   \<and> (\<forall>n \<in> set (modulesToLoad g). isKnown n)
   \<and> (\<forall>n \<in> set (modulesToLoad g) - set base. set (hard deps n) \<subseteq> set (modulesToLoad g))
   \<and> (\<forall>n \<in> set (modulesToLoad g).
        reaches (\<lambda>x. x \<in> set (modulesToLoad g)) (\<lambda>n. hard deps n @ hard soft n) (set base) n)
   \<and> (\<forall>sk \<in> set (skipped g). skip_sound isKnown deps soft (set (modulesToLoad g)) sk)
   \<and> reportedSkips g = map (\<lambda>sk. skipKey (namedBy sk) (sk_module sk)) (skipped g)
   \<and> distinct (reportedSkips g)"

text \<open>What a visit of one optional edge settles.\<close>

definition settled :: "string \<Rightarrow> string \<Rightarrow> growth \<Rightarrow> bool" where
  "settled holder optName g \<longleftrightarrow>
     optName = [] \<or> optName \<in> set (modulesToLoad g) \<or> skipKey holder optName \<in> set (reportedSkips g)"

text \<open>\<open>g'\<close> extends \<open>g\<close>, and says so in \<open>grew\<close>.\<close>

definition extends :: "growth \<Rightarrow> growth \<Rightarrow> bool" where
  "extends g g' \<longleftrightarrow> set (modulesToLoad g) \<subseteq> set (modulesToLoad g')
     \<and> set (reportedSkips g) \<subseteq> set (reportedSkips g')
     \<and> (grew g \<longrightarrow> grew g')
     \<and> (grew g' \<longrightarrow> grew g \<or> set (modulesToLoad g) \<subset> set (modulesToLoad g'))
     \<and> (\<not> grew g' \<longrightarrow> modulesToLoad g' = modulesToLoad g)"

lemma extends_refl: "extends g g"
  by (simp add: extends_def)

lemma extends_trans:
  assumes gh: "extends g h" and hk: "extends h k"
  shows "extends g k"
proof -
  have "grew k \<Longrightarrow> grew g \<or> set (modulesToLoad g) \<subset> set (modulesToLoad k)"
    using gh hk unfolding extends_def by (meson psubset_subset_trans subset_psubset_trans)
  moreover have "\<not> grew k \<Longrightarrow> modulesToLoad k = modulesToLoad g"
    using gh hk unfolding extends_def by metis
  ultimately show ?thesis
    using gh hk unfolding extends_def by (meson subset_trans)
qed

lemma settled_mono: "extends g g' \<Longrightarrow> settled h x g \<Longrightarrow> settled h x g'"
  by (auto simp: extends_def settled_def)

lemma growth_inv_start:
  assumes "distinct base" and "\<And>n. n \<in> set base \<Longrightarrow> isKnown n"
  shows "growth_inv isKnown deps soft base (growStart base)"
  using assms by (auto simp: growth_inv_def growStart_def intro: reaches.root)

lemma skip_sound_mono: "skip_sound isKnown deps soft S sk \<Longrightarrow> S \<subseteq> T \<Longrightarrow> skip_sound isKnown deps soft T sk"
  by (auto simp: skip_sound_def)

lemma reportSkip_inv:
  assumes "growth_inv isKnown deps soft base g" and "holder \<in> set (modulesToLoad g)"
    and "optName \<in> set (hard soft holder)" and "\<not> isKnown blocker"
    and "touched isKnown (hard deps) {optName} blocker"
  shows "growth_inv isKnown deps soft base (reportSkip holder optName blocker g)"
    and "settled holder optName (reportSkip holder optName blocker g)"
    and "extends g (reportSkip holder optName blocker g)"
proof -
  have "isKnown optName" if "blocker \<noteq> optName"
    using assms(5) that by (auto simp: touched_def dest: reaches_single_ok)
  then have "skip_sound isKnown deps soft (set (modulesToLoad g))
      \<lparr>sk_module = optName, namedBy = holder,
       sk_reason = (if blocker = optName then ''not_installed'' else ''unsatisfiable''),
       sk_detail = (if blocker = optName then [] else blocker)\<rparr>"
    using assms(2-5) by (auto simp: skip_sound_def)
  then show "growth_inv isKnown deps soft base (reportSkip holder optName blocker g)"
    using assms(1) by (auto simp: growth_inv_def reportSkip_def Let_def)
qed (auto simp: reportSkip_def Let_def settled_def extends_def)

text \<open>An optional branch is admitted whole, or reported.\<close>

lemma growOptional_step:
  assumes ho: "hash_order ho" and fin: "finite {n. isKnown n}"
    and inv: "growth_inv isKnown deps soft base g"
    and holder: "holder \<in> set (modulesToLoad g)" and optName: "optName \<in> set (soft holder)"
  shows "\<exists>g'. growOptional ho isKnown deps holder optName g = Some g'
     \<and> growth_inv isKnown deps soft base g' \<and> settled holder optName g' \<and> extends g g'"
proof (cases "optName = [] \<or> optName \<in> set (modulesToLoad g)")
  case True
  then show ?thesis
    using inv by (auto simp: growOptional_def settled_def extends_refl)
next
  case new: False
  let ?all = "\<lambda>n. hard deps n @ hard soft n"
  obtain p where p: "probe_loop (modulesToLoad g) isKnown (hard deps) [optName] = Some p"
    using probe_loop_total [OF fin] by blast
  note pinv = probe_loop_inv [OF p]
  show ?thesis
  proof (cases "srej p")
    case (Cons blocker rest)
    then have "\<not> isKnown blocker" "touched (\<lambda>n. isKnown n \<and> n \<notin> set (modulesToLoad g)) (hard deps) {optName} blocker"
      using pinv(1) by (auto simp: search_inv_def Let_def)
    then have "touched isKnown (hard deps) {optName} blocker"
      by (auto simp: touched_def intro: reaches_mono_ok)
    with reportSkip_inv [OF inv holder _ \<open>\<not> isKnown blocker\<close>] new optName
    show ?thesis by (auto simp: growOptional_def p Cons)
  next
    case Nil
    with pinv(2) have "sq p = []" by simp
    note branch = search_inv_done [OF pinv(1) this]
    let ?ok = "\<lambda>n. isKnown n \<and> n \<notin> set (modulesToLoad g)"
    let ?g = "g\<lparr>modulesToLoad := modulesToLoad g @ ho (svis p), grew := True\<rparr>"
    have ho_vis: "distinct (ho (svis p))" "set (ho (svis p)) = set (svis p)"
      using branch(1) ho by (auto dest: hash_orderD)
    have vis: "n \<in> set (svis p) \<longleftrightarrow> reaches ?ok (hard deps) {optName} n" for n
      using branch(2) by auto
    have vis_ok: "n \<in> set (svis p) \<Longrightarrow> isKnown n \<and> n \<notin> set (modulesToLoad g)" for n
      using vis reaches_ok by fastforce
    have rej: "\<not> (\<not> isKnown n \<and> n \<notin> set (modulesToLoad g) \<and> touched ?ok (hard deps) {optName} n)" for n
      using branch(3) Nil by auto
    have opt: "optName \<in> set (svis p)"
      using rej [of optName] new by (auto simp: vis touched_def intro: reaches.root)
    have closed: "set (hard deps n) \<subseteq> set (modulesToLoad g) \<union> set (svis p)" if "n \<in> set (svis p)" for n
    proof
      fix d assume "d \<in> set (hard deps n)"
      with that have "touched ?ok (hard deps) {optName} d" by (auto simp: vis touched_def)
      with rej [of d] show "d \<in> set (modulesToLoad g) \<union> set (svis p)" by (auto simp: vis intro: touched_reaches)
    qed
    let ?M = "set (modulesToLoad ?g)"
    have M: "?M = set (modulesToLoad g) \<union> set (svis p)" using ho_vis by simp
    have old: "reaches (\<lambda>x. x \<in> ?M) ?all (set base) n" if "n \<in> set (modulesToLoad g)" for n
      using inv that unfolding growth_inv_def M by (blast intro: reaches_mono_ok)
    have "touched (\<lambda>x. x \<in> ?M) ?all (set base) optName"
      using old [OF holder] optName new by (auto simp: touched_def)
    moreover have "reaches (\<lambda>x. x \<in> ?M) ?all {optName} n" if "n \<in> set (svis p)" for n
      using that unfolding vis
    proof (induction rule: reaches.induct)
      case (root n)
      then show ?case using opt ho_vis by (auto intro: reaches.root)
    next
      case (edge m n)
      then have "n \<in> set (svis p)" by (auto simp: vis intro: reaches.edge)
      with edge ho_vis show ?case by (auto intro: reaches.edge)
    qed
    ultimately have reach: "reaches (\<lambda>x. x \<in> ?M) ?all (set base) n" if "n \<in> ?M" for n
      using that old reaches_trans unfolding M by blast
    have skips: "\<forall>sk \<in> set (skipped g). skip_sound isKnown deps soft (set (modulesToLoad ?g)) sk"
      using inv by (auto simp: growth_inv_def elim: skip_sound_mono)
    have "growth_inv isKnown deps soft base ?g"
      using inv vis_ok ho_vis closed reach [unfolded M] skips unfolding growth_inv_def
      by (auto simp del: hard_simp)
    moreover have "growOptional ho isKnown deps holder optName g = Some ?g"
      using new opt by (cases "svis p") (auto simp: growOptional_def p Nil)
    moreover have "settled holder optName ?g" "extends g ?g"
      using opt vis_ok by (auto simp: settled_def extends_def ho_vis)
    ultimately show ?thesis by blast
  qed
qed

lemma growth_inv_grew: "growth_inv isKnown deps soft base (g\<lparr>grew := b\<rparr>) = growth_inv isKnown deps soft base g"
  unfolding growth_inv_def by simp

lemma growHolder_step:
  assumes "hash_order ho" and "finite {n. isKnown n}" and inv: "growth_inv isKnown deps soft base g"
    and holder: "holder \<in> set (modulesToLoad g)"
  shows "\<exists>g'. foldM (growOptional ho isKnown deps holder) (soft holder) g = Some g'
     \<and> (growth_inv isKnown deps soft base g' \<and> extends g g')
     \<and> (\<forall>x \<in> set (soft holder). settled holder x g')"
proof -
  let ?P = "\<lambda>h. growth_inv isKnown deps soft base h \<and> extends g h"
  have "\<exists>g'. foldM (growOptional ho isKnown deps holder) (soft holder) g = Some g' \<and> ?P g'
     \<and> (\<forall>x \<in> set (soft holder). settled holder x g') \<and> (\<forall>y. settled holder y g \<longrightarrow> settled holder y g')"
  proof (rule foldM_each)
    show "?P g" using inv by (simp add: extends_refl)
    fix x h assume x: "x \<in> set (soft holder)" and h: "?P h"
    then have "holder \<in> set (modulesToLoad h)" using holder by (auto simp: extends_def)
    from growOptional_step [OF assms(1,2) conjunct1 [OF h] this x] h
    show "\<exists>g'. growOptional ho isKnown deps holder x h = Some g' \<and> ?P g' \<and> settled holder x g'
       \<and> (\<forall>y. settled holder y h \<longrightarrow> settled holder y g')"
      by (blast intro: extends_trans settled_mono)
  qed
  then show ?thesis by blast
qed

lemma growRound_step:
  assumes ho: "hash_order ho" and "finite {n. isKnown n}" and inv: "growth_inv isKnown deps soft base g"
  shows "\<exists>g'. growRound ho isKnown deps soft g = Some g' \<and> growth_inv isKnown deps soft base g'
     \<and> extends (g\<lparr>grew := False\<rparr>) g' \<and> (\<forall>h \<in> set (modulesToLoad g). \<forall>x \<in> set (soft h). settled h x g')"
proof -
  let ?g = "g\<lparr>grew := False\<rparr>"
  let ?f = "\<lambda>holder. foldM (growOptional ho isKnown deps holder) (soft holder)"
  let ?P = "\<lambda>h. growth_inv isKnown deps soft base h \<and> extends ?g h"
  let ?Q = "\<lambda>h g'. \<forall>x \<in> set (soft h). settled h x g'"
  have frontier: "set (ho (modulesToLoad g)) = set (modulesToLoad g)"
    using inv ho by (simp add: growth_inv_def hash_orderD)
  have "\<exists>g'. foldM ?f (ho (modulesToLoad g)) ?g = Some g' \<and> ?P g'
     \<and> (\<forall>h \<in> set (ho (modulesToLoad g)). ?Q h g') \<and> (\<forall>y. ?Q y ?g \<longrightarrow> ?Q y g')"
  proof (rule foldM_each)
    show "?P ?g" using inv by (simp add: extends_refl growth_inv_grew)
    fix holder h assume holder: "holder \<in> set (ho (modulesToLoad g))" and h: "?P h"
    then have "holder \<in> set (modulesToLoad h)" using frontier by (auto simp: extends_def)
    from growHolder_step [OF assms(1,2) conjunct1 [OF h] this] h
    show "\<exists>g'. ?f holder h = Some g' \<and> ?P g' \<and> ?Q holder g' \<and> (\<forall>y. ?Q y h \<longrightarrow> ?Q y g')"
      by (blast intro: extends_trans settled_mono)
  qed
  then show ?thesis unfolding growRound_def frontier by blast
qed

text \<open>The fixed point ends: every round that goes on has admitted a known module.\<close>

lemma growLoop_total:
  assumes "hash_order ho" and fin: "finite {n. isKnown n}" and "growth_inv isKnown deps soft base g"
  shows "\<exists>g'. growLoop ho isKnown deps soft g = Some g' \<and> growth_inv isKnown deps soft base g'
     \<and> (\<forall>h \<in> set (modulesToLoad g'). \<forall>x \<in> set (soft h). settled h x g')"
  using assms(3)
proof (induction "card ({n. isKnown n} - set (modulesToLoad g))" arbitrary: g rule: less_induct)
  case less
  from growRound_step [OF assms(1,2) less.prems] obtain g' where
    g': "growRound ho isKnown deps soft g = Some g'" "growth_inv isKnown deps soft base g'"
      "extends (g\<lparr>grew := False\<rparr>) g'" "\<forall>h \<in> set (modulesToLoad g). \<forall>x \<in> set (soft h). settled h x g'"
    by blast
  show ?case
  proof (cases "grew g'")
    case True
    have "set (modulesToLoad g) \<subset> set (modulesToLoad g')" using g'(3) True by (simp add: extends_def)
    moreover have "set (modulesToLoad g') \<subseteq> {n. isKnown n}" using g'(2) by (auto simp: growth_inv_def)
    ultimately have "card ({n. isKnown n} - set (modulesToLoad g')) < card ({n. isKnown n} - set (modulesToLoad g))"
      by (intro psubset_card_mono finite_Diff fin) blast
    from less.hyps [OF this g'(2)] True g'(1) show ?thesis by (subst growLoop.simps) simp
  next
    case False
    then have "modulesToLoad g' = modulesToLoad g" using g'(3) by (simp add: extends_def)
    with False g' show ?thesis by (subst growLoop.simps) auto
  qed
qed

section \<open>The whole resolution\<close>

text \<open>The order computed over a set of modules.\<close>

definition orders ::
  "(string \<Rightarrow> string list) \<Rightarrow> (string \<Rightarrow> string list) option \<Rightarrow> string list \<Rightarrow> ResolveResult \<Rightarrow> bool"
where
  "orders deps opt mods r \<longleftrightarrow>
     distinct (rr_order r) \<and> set (rr_order r) \<subseteq> set mods
   \<and> hasCycle r = (\<not> acyclic (edge_rel mods deps))
   \<and> (\<not> hasCycle r \<longrightarrow> set (rr_order r) = set mods)
   \<and> topological (inner_edges mods deps) (rr_order r)
   \<and> (\<forall>soft. opt = Some soft \<longrightarrow> acyclic (edge_rel mods (\<lambda>n. deps n @ soft n)) \<longrightarrow>
        topological (inner_edges mods (\<lambda>n. deps n @ soft n)) (rr_order r))"

text \<open>What a caller grants the resolver: finitely many known modules.\<close>

locale known_modules =
  fixes isKnown :: "string \<Rightarrow> bool" and deps :: "string \<Rightarrow> string list"
  assumes finite_known: "finite {n. isKnown n}"
begin

lemma closure_total:
  obtains c where "search_loop [] isKnown (hard deps) req = Some c" "distinct (svis c)"
    "set (svis c) = required isKnown deps req"
    "set (srej c) = {n. \<not> isKnown n \<and> touched isKnown (hard deps) (set req) n}"
proof -
  obtain c where c: "search_loop [] isKnown (hard deps) req = Some c"
    using search_loop_total [OF finite_known] by blast
  show thesis
    by (rule that [OF c])
      (use search_loop_result(1) [OF c c] search_loop_visited [OF c] search_loop_rejected [OF c]
       in \<open>simp_all add: required_def\<close>)
qed

lemma refineOrder_total:
  assumes ho: "hash_order ho" and mods: "distinct mods" and ord0: "topoSort ho mods deps = Some ord"
  obtains ord' where "refineOrder ho deps opt mods ord = Some ord'" "distinct ord'"
    "set ord' \<subseteq> set mods" "length ord' = length ord"
    "topological (inner_edges mods deps) ord'"
    "\<And>soft. opt = Some soft \<Longrightarrow> acyclic (edge_rel mods (\<lambda>n. deps n @ soft n)) \<Longrightarrow>
       topological (inner_edges mods (\<lambda>n. deps n @ soft n)) ord'"
proof -
  note ord = topoSort_members [OF assms]
  note cov = topoSort_covers_iff [OF assms]
  show thesis
  proof (cases opt)
    case None
    then show ?thesis using that [of ord] ord by (simp add: refineOrder_def)
  next
    case (Some soft)
    let ?all = "\<lambda>n. deps n @ soft n"
    obtain ref where ref: "topoSort ho mods ?all = Some ref"
      using topoSort_total [OF ho mods] by metis
    note refm = topoSort_members [OF ho mods ref] and refc = topoSort_covers_iff [OF ho mods ref]
    have sub: "topological (inner_edges mods deps) ref"
      using refm(3) by (auto simp: topological_def inner_edges_def)
    have mono: "acyclic (edge_rel mods ?all) \<Longrightarrow> acyclic (edge_rel mods deps)"
      by (rule acyclic_subset) (auto simp: edge_rel_def inner_edges_def)
    show ?thesis
    proof (cases "length ord = length mods \<and> length ref = length mods")
      case True
      then have "refineOrder ho deps opt mods ord = Some ref"
        by (simp add: refineOrder_def Some ref)
      then show ?thesis
        by (rule that) (use refm sub True Some in auto)
    next
      case False
      then have no: "\<not> acyclic (edge_rel mods ?all)" using mono cov(1) refc(1) by blast
      have "refineOrder ho deps opt mods ord = Some ord"
        using False by (auto simp: refineOrder_def Some ref)
      then show ?thesis
        by (rule that) (use ord no Some in auto)
    qed
  qed
qed

lemma order_total:
  assumes ho: "hash_order ho" and mods: "distinct mods"
  obtains ord ord' where "topoSort ho mods deps = Some ord" "refineOrder ho deps opt mods ord = Some ord'"
    "\<forall>mi be sk. orders deps opt mods \<lparr>rr_order = ord', missing = mi,
       hasCycle = (length ord' < length mods), bestEffort = be, skippedOptional = sk\<rparr>"
proof -
  obtain ord where ord: "topoSort ho mods deps = Some ord"
    using topoSort_total [OF ho mods] by metis
  note cov = topoSort_covers_iff [OF ho mods ord]
  obtain ord' where ord': "refineOrder ho deps opt mods ord = Some ord'" "distinct ord'"
    "set ord' \<subseteq> set mods" "length ord' = length ord" "topological (inner_edges mods deps) ord'"
    "\<And>soft. opt = Some soft \<Longrightarrow> acyclic (edge_rel mods (\<lambda>n. deps n @ soft n)) \<Longrightarrow>
       topological (inner_edges mods (\<lambda>n. deps n @ soft n)) ord'"
    using refineOrder_total [OF ho mods ord, of opt] by metis
  have short: "length ord' < length mods \<longleftrightarrow> \<not> acyclic (edge_rel mods deps)"
    using cov ord'(4) by auto
  have full: "set ord' = set mods" if "\<not> length ord' < length mods"
    using that ord' cov(2) distinct_set_eq_length [OF ord'(2) mods ord'(3)] by simp
  show thesis
    by (rule that [OF ord ord'(1)]) (use ord' short full in \<open>auto simp: orders_def\<close>)
qed

text \<open>Without best effort the set is the required closure.\<close>

lemma resolve_plain:
  assumes ho: "hash_order ho" and mode: "optionalLoad = OrderOnly \<or> opt = None"
  obtains r mods where "resolve ho req isKnown deps opt optionalLoad = Some r"
    "set mods = required isKnown deps req" "orders deps opt mods r"
    "set (missing r) = {n. \<not> isKnown n \<and> touched isKnown (hard deps) (set req) n}"
    "bestEffort r = []" "skippedOptional r = []"
proof -
  obtain c where c: "search_loop [] isKnown (hard deps) req = Some c" "distinct (svis c)"
    "set (svis c) = required isKnown deps req"
    "set (srej c) = {n. \<not> isKnown n \<and> touched isKnown (hard deps) (set req) n}"
    by (rule closure_total)
  obtain ord ord' where o: "topoSort ho (svis c) deps = Some ord"
    "refineOrder ho deps opt (svis c) ord = Some ord'"
    "\<forall>mi be sk. orders deps opt (svis c) \<lparr>rr_order = ord', missing = mi,
       hasCycle = (length ord' < length (svis c)), bestEffort = be, skippedOptional = sk\<rparr>"
    by (rule order_total [OF ho c(2), where opt = opt])
  have "resolve ho req isKnown deps opt optionalLoad =
      Some \<lparr>rr_order = ord', missing = srej c, hasCycle = (length ord' < length (svis c)),
        bestEffort = [], skippedOptional = []\<rparr>"
    using mode c(1) o(1,2)
    by (cases optionalLoad; cases opt) (auto simp: resolve_def growStart_def)
  then show thesis
    by (rule that [OF _ c(3)]) (use o(3) c(4) in auto)
qed

lemma resolve_best:
  assumes ho: "hash_order ho"
  obtains r g base where "resolve ho req isKnown deps (Some soft) BestEffort = Some r"
    "set base = required isKnown deps req" "growth_inv isKnown deps soft base g"
    "\<forall>h \<in> set (modulesToLoad g). \<forall>x \<in> set (soft h). settled h x g"
    "orders deps (Some soft) (modulesToLoad g) r"
    "set (missing r) = {n. \<not> isKnown n \<and> touched isKnown (hard deps) (set req) n}"
    "sorted (bestEffort r)" "distinct (bestEffort r)"
    "set (bestEffort r) = set (modulesToLoad g) - required isKnown deps req"
    "skippedOptional r = skipped g"
proof -
  obtain c where c: "search_loop [] isKnown (hard deps) req = Some c" "distinct (svis c)"
    "set (svis c) = required isKnown deps req"
    "set (srej c) = {n. \<not> isKnown n \<and> touched isKnown (hard deps) (set req) n}"
    by (rule closure_total)
  have known: "n \<in> set (svis c) \<Longrightarrow> isKnown n" for n
    unfolding c(3) required_def by (auto dest: reaches_ok)
  from growLoop_total [OF ho finite_known growth_inv_start [OF c(2) known]] obtain g where
    g: "growLoop ho isKnown deps soft (growStart (svis c)) = Some g"
      "growth_inv isKnown deps soft (svis c) g"
      "\<forall>h \<in> set (modulesToLoad g). \<forall>x \<in> set (soft h). settled h x g"
    by blast
  have dist: "distinct (modulesToLoad g)" using g(2) by (simp add: growth_inv_def)
  obtain ord ord' where o: "topoSort ho (modulesToLoad g) deps = Some ord"
    "refineOrder ho deps (Some soft) (modulesToLoad g) ord = Some ord'"
    "\<forall>mi be sk. orders deps (Some soft) (modulesToLoad g) \<lparr>rr_order = ord', missing = mi,
       hasCycle = (length ord' < length (modulesToLoad g)), bestEffort = be, skippedOptional = sk\<rparr>"
    by (rule order_total [OF ho dist, where opt = "Some soft"])
  let ?be = "sort (filter (\<lambda>n. n \<notin> set (svis c)) (ho (modulesToLoad g)))"
  have "resolve ho req isKnown deps (Some soft) BestEffort =
      Some \<lparr>rr_order = ord', missing = srej c, hasCycle = (length ord' < length (modulesToLoad g)),
        bestEffort = ?be, skippedOptional = skipped g\<rparr>"
    using c(1) g(1) o(1,2) by (simp add: resolve_def)
  then show thesis
    by (rule that [OF _ c(3) g(2,3)])
       (use o(3) c(3,4) hash_orderD [OF ho dist] in auto)
qed

lemma skipKey_inject:
  assumes "skipKey h x = skipKey h' x'" and "CHR 0x00 \<notin> set h" and "CHR 0x00 \<notin> set h'"
  shows "h = h' \<and> x = x'"
proof -
  have "takeWhile (\<lambda>c. c \<noteq> CHR 0x00) (skipKey h x) = h" if "CHR 0x00 \<notin> set h" for h x :: string
    using that by (auto simp: skipKey_def takeWhile_append)
  from this [OF assms(2), of x] this [OF assms(3), of x'] assms(1) have "h = h'" by simp
  with assms(1) show ?thesis by (simp add: skipKey_def)
qed

lemma wanted_growth:
  assumes base: "set base = required isKnown deps req" and inv: "growth_inv isKnown deps soft base g"
    and none_missing: "\<forall>n. touched isKnown (hard deps) (set req) n \<longrightarrow> isKnown n"
    and clean: "\<And>n. isKnown n \<Longrightarrow> CHR 0x00 \<notin> set n"
    and all: "\<forall>h \<in> set (modulesToLoad g). \<forall>x \<in> set (soft h). settled h x g"
  shows "set (modulesToLoad g) = wanted isKnown deps soft req"
    and "h \<in> set (modulesToLoad g) \<Longrightarrow> x \<in> set (hard soft h) \<Longrightarrow>
      x \<in> set (modulesToLoad g) \<longleftrightarrow> satisfiable isKnown deps x"
    and "n \<in> set (modulesToLoad g) \<Longrightarrow> d \<in> set (hard deps n) \<Longrightarrow> d \<in> set (modulesToLoad g)"
proof -
  let ?M = "set (modulesToLoad g)" and ?sat = "satisfiable isKnown deps"
  let ?all = "\<lambda>n. hard deps n @ hard soft n"
  have closed: "d \<in> ?M" if "n \<in> ?M" "d \<in> set (hard deps n)" for n d
  proof (cases "n \<in> set base")
    case True
    then have "d \<in> required isKnown deps req"
      unfolding base by (intro required_closed [OF none_missing _ that(2)]) (simp add: base [symmetric])
    then show ?thesis using base inv by (auto simp: growth_inv_def)
  next
    case False
    then show ?thesis using inv that by (auto simp: growth_inv_def simp del: hard_simp)
  qed
  have known: "\<And>n. n \<in> ?M \<Longrightarrow> isKnown n" using inv by (simp add: growth_inv_def)
  have sat: "n \<in> ?M \<Longrightarrow> ?sat n" for n
    by (rule known_closed_satisfiable [OF closed known])
  have unsat: "\<not> ?sat x" if "x \<notin> ?M" "h \<in> ?M" "x \<in> set (hard soft h)" for h x
  proof -
    have "skipKey h x \<in> set (reportedSkips g)"
      using that all by (auto simp: settled_def)
    then obtain sk where sk: "sk \<in> set (skipped g)" "skipKey (namedBy sk) (sk_module sk) = skipKey h x"
      using inv by (auto simp: growth_inv_def)
    have "skip_sound isKnown deps soft ?M sk" using inv sk(1) by (simp add: growth_inv_def)
    then have "\<not> ?sat (sk_module sk)"
      by (auto simp: skip_sound_def satisfiable_def touched_def)
    moreover have "x = sk_module sk"
      using sk(2) skipKey_inject clean known that(2) \<open>skip_sound isKnown deps soft ?M sk\<close>
      by (metis skip_sound_def)
    ultimately show ?thesis by simp
  qed
  have "reaches ?sat ?all (set req) n" if "n \<in> ?M" for n
  proof -
    have base_sat: "reaches ?sat ?all (set req) b" if "b \<in> set base" for b
    proof -
      have "reaches isKnown (hard deps) (set req) b" using that base by (simp add: required_def)
      then have "reaches ?sat (hard deps) (set req) b"
      proof (induction rule: reaches.induct)
        case (root b)
        then have "b \<in> set base" by (auto simp: base required_def intro: reaches.root)
        then show ?case using root sat inv by (auto simp: growth_inv_def intro: reaches.root)
      next
        case (edge m b)
        then have "?sat b" using satisfiable_hard [OF reaches_ok [OF edge.IH]] by blast
        with edge show ?case by (auto intro: reaches.edge)
      qed
      then show ?thesis by (rule reaches_mono_succ) simp
    qed
    have "reaches (\<lambda>x. x \<in> ?M) ?all (set base) n" using inv that by (simp add: growth_inv_def)
    then show ?thesis
    proof (induction rule: reaches.induct)
      case (root b)
      then show ?case using base_sat by blast
    next
      case (edge m b)
      then show ?case using sat by (blast intro: reaches.edge)
    qed
  qed
  moreover have "n \<in> ?M" if "reaches ?sat ?all (set req) n" for n
  proof (rule reaches_closed [OF that])
    fix x assume "x \<in> set req" "?sat x"
    then have "x \<in> required isKnown deps req"
      using satisfiable_known by (auto simp: required_def intro: reaches.root)
    then show "x \<in> ?M" using base inv by (auto simp: growth_inv_def)
  next
    fix m x assume "m \<in> ?M" "x \<in> set (?all m)" "?sat x"
    then show "x \<in> ?M" using closed unsat by auto
  qed
  ultimately show "?M = wanted isKnown deps soft req" unfolding wanted_def by blast
  show "h \<in> ?M \<Longrightarrow> x \<in> set (hard soft h) \<Longrightarrow> x \<in> ?M \<longleftrightarrow> ?sat x"
    using sat unsat by blast
  show "n \<in> ?M \<Longrightarrow> d \<in> set (hard deps n) \<Longrightarrow> d \<in> ?M" by (rule closed)
qed

end

section \<open>Properties\<close>

lemma orders_before:
  assumes "orders deps opt mods r" and "\<not> hasCycle r"
    and "m \<in> set mods" and "d \<in> set mods" and "d \<in> set (hard deps m)"
  shows "load_before (rr_order r) d m"
  by (rule topological_load_before [of mods deps]) (use assms in \<open>auto simp: orders_def\<close>)

lemma orders_before_soft:
  assumes "orders deps (Some soft) mods r" and "acyclic (edges_within (set mods) (\<lambda>n. deps n @ soft n))"
    and "\<not> hasCycle r" and "m \<in> set mods" and "d \<in> set mods" and "d \<in> set (hard soft m)"
  shows "load_before (rr_order r) d m"
  by (rule topological_load_before [of mods "\<lambda>n. deps n @ soft n"])
     (use assms in \<open>auto simp: orders_def edge_rel_within\<close>)

lemma orders_cycle: "orders deps opt mods r \<Longrightarrow> hasCycle r \<longleftrightarrow> \<not> acyclic (edges_within (set mods) deps)"
  by (simp add: orders_def edge_rel_within)

lemma orders_full: "orders deps opt mods r \<Longrightarrow> \<not> hasCycle r \<Longrightarrow> distinct (rr_order r) \<and> set (rr_order r) = set mods"
  by (simp add: orders_def)

lemma none_missing_known:
  "set (missing r) = {n. \<not> isKnown n \<and> touched isKnown (hard deps) R n} \<Longrightarrow> missing r = [] \<Longrightarrow>
   \<forall>n. touched isKnown (hard deps) R n \<longrightarrow> isKnown n"
  by auto

text \<open>
  C5. Without best-effort loading the resolver always returns. When it reports no failure the order
  lists every module the required edges reach from the request exactly once, and nothing else, and
  every module comes after each of its required dependencies.
\<close>

theorem resolve_load_order:
  assumes "hash_order ho" and "finite {n. isKnown n}" and "optionalLoad = OrderOnly \<or> opt = None"
  shows "\<exists>r. resolve ho req isKnown deps opt optionalLoad = Some r \<and>
    (rr_ok r \<longrightarrow> distinct (rr_order r) \<and> set (rr_order r) = required isKnown deps req \<and>
       (\<forall>m \<in> required isKnown deps req. \<forall>d \<in> set (hard deps m). load_before (rr_order r) d m))"
proof -
  have K: "known_modules isKnown" using assms(2) by (rule known_modules.intro)
  obtain r mods where r: "resolve ho req isKnown deps opt optionalLoad = Some r"
    "set mods = required isKnown deps req" "orders deps opt mods r"
    "set (missing r) = {n. \<not> isKnown n \<and> touched isKnown (hard deps) (set req) n}"
    by (rule known_modules.resolve_plain [OF K assms(1,3), of req deps])
  have "load_before (rr_order r) d m"
    if "rr_ok r" "m \<in> required isKnown deps req" "d \<in> set (hard deps m)" for m d
  proof -
    have "d \<in> required isKnown deps req"
      by (rule required_closed [OF none_missing_known [OF r(4)] that(2,3)]) (use that in \<open>simp add: rr_ok_def\<close>)
    then show ?thesis using that r(2) by (intro orders_before [OF r(3)]) (auto simp: rr_ok_def)
  qed
  then show ?thesis using r(1) orders_full [OF r(3)] r(2) by (auto simp: rr_ok_def)
qed

theorem resolve_load_order_witness:
  "\<exists>r. resolve rev [''a''] (\<lambda>n. n \<in> {''a'', ''b''}) (\<lambda>n. if n = ''a'' then [''b''] else []) None OrderOnly = Some r \<and>
    (rr_ok r \<longrightarrow> distinct (rr_order r) \<and>
       set (rr_order r) = required (\<lambda>n. n \<in> {''a'', ''b''}) (\<lambda>n. if n = ''a'' then [''b''] else []) [''a''] \<and>
       (\<forall>m \<in> required (\<lambda>n. n \<in> {''a'', ''b''}) (\<lambda>n. if n = ''a'' then [''b''] else []) [''a''].
          \<forall>d \<in> set (hard (\<lambda>n. if n = ''a'' then [''b''] else []) m). load_before (rr_order r) d m))"
  by (rule resolve_load_order [OF hash_order_rev]) simp_all

text \<open>
  C17. Without best-effort loading the failures reported are exact: \<open>missing\<close> is the set of unknown
  names that were requested or are required by a module of the closure, and \<open>hasCycle\<close> says that
  the required edges inside the closure have a cycle.
\<close>

theorem resolve_failures:
  assumes "hash_order ho" and "finite {n. isKnown n}" and "optionalLoad = OrderOnly \<or> opt = None"
  shows "\<exists>r. resolve ho req isKnown deps opt optionalLoad = Some r \<and>
    set (missing r) = {n. \<not> isKnown n \<and>
      (n \<in> set req \<or> (\<exists>m \<in> required isKnown deps req. n \<in> set (hard deps m)))} \<and>
    (hasCycle r \<longleftrightarrow> \<not> acyclic (edges_within (required isKnown deps req) deps))"
proof -
  have K: "known_modules isKnown" using assms(2) by (rule known_modules.intro)
  obtain r mods where r: "resolve ho req isKnown deps opt optionalLoad = Some r"
    "set mods = required isKnown deps req" "orders deps opt mods r"
    "set (missing r) = {n. \<not> isKnown n \<and> touched isKnown (hard deps) (set req) n}"
    by (rule known_modules.resolve_plain [OF K assms(1,3), of req deps])
  then show ?thesis using orders_cycle [OF r(3)] by (auto simp: touched_def required_def)
qed

theorem resolve_failures_witness:
  "\<exists>r. resolve (\<lambda>xs. xs) [''a''] (\<lambda>n. n = ''a'') (\<lambda>n. [''a'', ''g'']) None BestEffort = Some r \<and>
    set (missing r) = {n. \<not> n = ''a'' \<and>
      (n \<in> set [''a''] \<or> (\<exists>m \<in> required (\<lambda>n. n = ''a'') (\<lambda>n. [''a'', ''g'']) [''a'']. n \<in> set (hard (\<lambda>n. [''a'', ''g'']) m)))} \<and>
    (hasCycle r \<longleftrightarrow> \<not> acyclic (edges_within (required (\<lambda>n. n = ''a'') (\<lambda>n. [''a'', ''g'']) [''a'']) (\<lambda>n. [''a'', ''g''])))"
  by (rule resolve_failures [OF hash_order_id]) simp_all

text \<open>
  Optional edges never change what is loaded, what is missing or whether there is a cycle unless
  best effort was asked for: they only order modules that are there anyway, and they do order them
  whenever required and optional edges together have no cycle.
\<close>

theorem optional_edges_only_order:
  assumes "hash_order ho" and "finite {n. isKnown n}"
  shows "\<exists>r r'. resolve ho req isKnown deps (Some soft) OrderOnly = Some r
    \<and> resolve ho req isKnown deps None OrderOnly = Some r'
    \<and> set (missing r) = set (missing r') \<and> hasCycle r = hasCycle r'
    \<and> (\<not> hasCycle r' \<longrightarrow> set (rr_order r) = set (rr_order r'))
    \<and> bestEffort r = [] \<and> skippedOptional r = []
    \<and> (acyclic (edges_within (required isKnown deps req) (\<lambda>n. deps n @ soft n)) \<and> \<not> hasCycle r \<longrightarrow>
         (\<forall>m \<in> required isKnown deps req. \<forall>d \<in> set (hard soft m) \<inter> required isKnown deps req.
            load_before (rr_order r) d m))"
proof -
  have K: "known_modules isKnown" using assms(2) by (rule known_modules.intro)
  obtain r mods where r: "resolve ho req isKnown deps (Some soft) OrderOnly = Some r"
    "set mods = required isKnown deps req" "orders deps (Some soft) mods r"
    "set (missing r) = {n. \<not> isKnown n \<and> touched isKnown (hard deps) (set req) n}"
    "bestEffort r = []" "skippedOptional r = []"
    by (rule known_modules.resolve_plain [OF K assms(1), of OrderOnly "Some soft" req deps]) simp_all
  obtain r' mods' where r': "resolve ho req isKnown deps None OrderOnly = Some r'"
    "set mods' = required isKnown deps req" "orders deps None mods' r'"
    "set (missing r') = {n. \<not> isKnown n \<and> touched isKnown (hard deps) (set req) n}"
    by (rule known_modules.resolve_plain [OF K assms(1), of OrderOnly None req deps]) simp_all
  have "hasCycle r = hasCycle r'"
    using orders_cycle [OF r(3)] orders_cycle [OF r'(3)] r(2) r'(2) by simp
  moreover have "\<not> hasCycle r' \<longrightarrow> set (rr_order r) = set (rr_order r')"
    using orders_full [OF r(3)] orders_full [OF r'(3)] r(2) r'(2) calculation by simp
  moreover have "load_before (rr_order r) d m"
    if "acyclic (edges_within (required isKnown deps req) (\<lambda>n. deps n @ soft n))" "\<not> hasCycle r"
      "m \<in> required isKnown deps req" "d \<in> set (hard soft m) \<inter> required isKnown deps req" for m d
    using that by (intro orders_before_soft [OF r(3)]) (simp_all add: r(2))
  ultimately show ?thesis
    using r r'(1,4) by (intro exI [of _ r] exI [of _ r']) blast
qed

theorem optional_edges_only_order_witness:
  "\<exists>r r'. resolve rev [''a'', ''b''] (\<lambda>n. n \<in> {''a'', ''b''}) (\<lambda>n. []) (Some (\<lambda>n. [''b''])) OrderOnly = Some r
    \<and> resolve rev [''a'', ''b''] (\<lambda>n. n \<in> {''a'', ''b''}) (\<lambda>n. []) None OrderOnly = Some r'
    \<and> set (missing r) = set (missing r') \<and> hasCycle r = hasCycle r'"
  using optional_edges_only_order [OF hash_order_rev, of "\<lambda>n. n \<in> {''a'', ''b''}" "[''a'', ''b'']" "\<lambda>n. []" "\<lambda>n. [''b'']"]
  by (simp del: ex_simps) blast

text \<open>
  C6. Best-effort loading is exact: the same names are missing as without it, and where none is, the
  set loaded is what the required edges and the optional edges to wholly satisfiable modules reach,
  whatever the iteration order of the sets; the order puts every required dependency first, and a
  cycle is reported exactly where the required edges inside that set have one.
\<close>

theorem best_effort_exact:
  assumes "hash_order ho" and "finite {n. isKnown n}" and "\<forall>n. isKnown n \<longrightarrow> CHR 0x00 \<notin> set n"
  shows "\<exists>r. resolve ho req isKnown deps (Some soft) BestEffort = Some r
    \<and> set (missing r) = {n. \<not> isKnown n \<and>
         (n \<in> set req \<or> (\<exists>m \<in> required isKnown deps req. n \<in> set (hard deps m)))}
    \<and> (missing r = [] \<longrightarrow>
         (hasCycle r \<longleftrightarrow> \<not> acyclic (edges_within (wanted isKnown deps soft req) deps))
       \<and> (\<not> hasCycle r \<longrightarrow> distinct (rr_order r) \<and> set (rr_order r) = wanted isKnown deps soft req
           \<and> (\<forall>m \<in> wanted isKnown deps soft req. \<forall>d \<in> set (hard deps m). load_before (rr_order r) d m)))"
proof -
  have K: "known_modules isKnown" using assms(2) by (rule known_modules.intro)
  obtain r g base where r: "resolve ho req isKnown deps (Some soft) BestEffort = Some r"
    "set base = required isKnown deps req" "growth_inv isKnown deps soft base g"
    "\<forall>h \<in> set (modulesToLoad g). \<forall>x \<in> set (soft h). settled h x g"
    "orders deps (Some soft) (modulesToLoad g) r"
    "set (missing r) = {n. \<not> isKnown n \<and> touched isKnown (hard deps) (set req) n}"
    by (rule known_modules.resolve_best [OF K assms(1), of req deps soft])
  show ?thesis
  proof (intro exI [of _ r] conjI impI)
    show "set (missing r) = {n. \<not> isKnown n \<and>
         (n \<in> set req \<or> (\<exists>m \<in> required isKnown deps req. n \<in> set (hard deps m)))}"
      using r(6) by (auto simp: touched_def required_def)
    assume ok: "missing r = []"
    note w = known_modules.wanted_growth [OF K r(2,3) none_missing_known [OF r(6) ok] _ r(4)]
    have set: "set (modulesToLoad g) = wanted isKnown deps soft req"
      by (rule w(1)) (use assms(3) in blast)
    show "hasCycle r \<longleftrightarrow> \<not> acyclic (edges_within (wanted isKnown deps soft req) deps)"
      using orders_cycle [OF r(5)] set by simp
    assume cyc: "\<not> hasCycle r"
    show "distinct (rr_order r)" "set (rr_order r) = wanted isKnown deps soft req"
      using orders_full [OF r(5) cyc] set by simp_all
    show "\<forall>m \<in> wanted isKnown deps soft req. \<forall>d \<in> set (hard deps m). load_before (rr_order r) d m"
    proof (intro ballI)
      fix m d assume m: "m \<in> wanted isKnown deps soft req" and d: "d \<in> set (hard deps m)"
      have "d \<in> set (modulesToLoad g)"
        by (rule w(3) [OF _ _ d]) (use assms(3) m set in blast)+
      then show "load_before (rr_order r) d m"
        using m d set by (intro orders_before [OF r(5) cyc]) simp_all
    qed
  qed (rule r(1))
qed

lemma two_known: "finite {n. n \<in> {''app'', ''extra''}}"
  "\<forall>n. n \<in> {''app'', ''extra''} \<longrightarrow> CHR 0x00 \<notin> set n"
  by simp_all

theorem best_effort_exact_witness:
  "\<exists>r. resolve rev [''app''] (\<lambda>n. n \<in> {''app'', ''extra''}) (\<lambda>n. []) (Some (\<lambda>n. [''extra''])) BestEffort = Some r
    \<and> set (missing r) = {n. n \<notin> {''app'', ''extra''} \<and> (n \<in> set [''app'']
        \<or> (\<exists>m \<in> required (\<lambda>n. n \<in> {''app'', ''extra''}) (\<lambda>n. []) [''app'']. n \<in> set (hard (\<lambda>n. []) m)))}"
  using best_effort_exact [OF hash_order_rev two_known, of "[''app'']" "\<lambda>n. []" "\<lambda>n. [''extra'']"]
  by (elim exE conjE) (intro exI conjI, assumption+)

text \<open>
  What best effort leaves out is reported exactly: where nothing required is missing, the
  tolerable names are, sorted, those that only an optional edge brought in, and the skip reports name
  exactly the optional dependencies of a loaded module that are not wholly satisfiable, with
  \<open>not_installed\<close> where the module itself is unknown and otherwise an unknown module it requires.
\<close>

theorem best_effort_reports:
  assumes "hash_order ho" and "finite {n. isKnown n}" and "\<forall>n. isKnown n \<longrightarrow> CHR 0x00 \<notin> set n"
  shows "\<exists>r. resolve ho req isKnown deps (Some soft) BestEffort = Some r
    \<and> (missing r = [] \<longrightarrow>
         sorted (bestEffort r) \<and> distinct (bestEffort r)
       \<and> set (bestEffort r) = wanted isKnown deps soft req - required isKnown deps req
       \<and> distinct (map (\<lambda>sk. (namedBy sk, sk_module sk)) (skippedOptional r))
       \<and> (\<lambda>sk. (namedBy sk, sk_module sk)) ` set (skippedOptional r) =
           {(h, x). h \<in> wanted isKnown deps soft req \<and> x \<in> set (hard soft h) \<and> \<not> satisfiable isKnown deps x}
       \<and> (\<forall>sk \<in> set (skippedOptional r).
            skip_sound isKnown deps soft (wanted isKnown deps soft req) sk))"
proof -
  have K: "known_modules isKnown" using assms(2) by (rule known_modules.intro)
  obtain r g base where r: "resolve ho req isKnown deps (Some soft) BestEffort = Some r"
    "set base = required isKnown deps req" "growth_inv isKnown deps soft base g"
    "\<forall>h \<in> set (modulesToLoad g). \<forall>x \<in> set (soft h). settled h x g"
    "orders deps (Some soft) (modulesToLoad g) r"
    "set (missing r) = {n. \<not> isKnown n \<and> touched isKnown (hard deps) (set req) n}"
    "sorted (bestEffort r)" "distinct (bestEffort r)"
    "set (bestEffort r) = set (modulesToLoad g) - required isKnown deps req"
    "skippedOptional r = skipped g"
    by (rule known_modules.resolve_best [OF K assms(1), of req deps soft])
  let ?M = "set (modulesToLoad g)" and ?pair = "\<lambda>sk. (namedBy sk, sk_module sk)"
  have sound: "skip_sound isKnown deps soft ?M sk" if "sk \<in> set (skipped g)" for sk
    using r(3) that by (simp add: growth_inv_def)
  have reported: "reportedSkips g = map (\<lambda>sk. skipKey (namedBy sk) (sk_module sk)) (skipped g)"
    "distinct (reportedSkips g)" "\<And>h. h \<in> ?M \<Longrightarrow> CHR 0x00 \<notin> set h"
    using r(3) assms(3) by (auto simp: growth_inv_def)
  have pairs: "distinct (map ?pair (skipped g))"
  proof (rule distinct_map [THEN iffD2], rule conjI)
    show "distinct (skipped g)" using reported(1,2) by (simp add: distinct_map)
    show "inj_on ?pair (set (skipped g))"
      using reported(1,2) by (auto simp: distinct_map inj_on_def)
  qed
  show ?thesis
  proof (intro exI [of _ r] conjI impI)
    assume ok: "missing r = []"
    note w = known_modules.wanted_growth [OF K r(2,3) none_missing_known [OF r(6) ok] _ r(4)]
    have M: "wanted isKnown deps soft req = ?M"
      by (rule w(1) [symmetric]) (use assms(3) in blast)
    have sat: "x \<in> ?M \<longleftrightarrow> satisfiable isKnown deps x" if "h \<in> ?M" "x \<in> set (hard soft h)" for h x
      by (rule w(2) [OF _ that]) (use assms(3) in blast)
    show "set (bestEffort r) = wanted isKnown deps soft req - required isKnown deps req"
      by (simp add: M r(9))
    show "\<forall>sk \<in> set (skippedOptional r). skip_sound isKnown deps soft (wanted isKnown deps soft req) sk"
      using sound by (simp add: M r(10))
    have "(h, x) \<in> ?pair ` set (skipped g)" if "h \<in> ?M" "x \<in> set (hard soft h)" "x \<notin> ?M" for h x
    proof -
      have "skipKey h x \<in> set (reportedSkips g)" using that r(4) by (auto simp: settled_def)
      then obtain sk where sk: "sk \<in> set (skipped g)" "skipKey (namedBy sk) (sk_module sk) = skipKey h x"
        by (auto simp: reported(1))
      have "namedBy sk \<in> ?M" using sound [OF sk(1)] by (simp add: skip_sound_def)
      then have "namedBy sk = h \<and> sk_module sk = x"
        by (rule known_modules.skipKey_inject [OF K sk(2) reported(3) reported(3) [OF that(1)]])
      with sk(1) show ?thesis by force
    qed
    moreover have "namedBy sk \<in> ?M \<and> sk_module sk \<in> set (hard soft (namedBy sk)) \<and>
        \<not> satisfiable isKnown deps (sk_module sk)" if "sk \<in> set (skipped g)" for sk
      using sound [OF that] by (auto simp: skip_sound_def satisfiable_def touched_def)
    ultimately show "?pair ` set (skippedOptional r) = {(h, x). h \<in> wanted isKnown deps soft req
        \<and> x \<in> set (hard soft h) \<and> \<not> satisfiable isKnown deps x}"
      unfolding M r(10) using sat by fastforce
  qed (use r pairs in simp_all)
qed

theorem best_effort_reports_witness:
  "\<exists>r. resolve rev [''app''] (\<lambda>n. n \<in> {''app'', ''extra''}) (\<lambda>n. []) (Some (\<lambda>n. [''ghost''])) BestEffort = Some r
    \<and> (missing r = [] \<longrightarrow> sorted (bestEffort r))"
  using best_effort_reports [OF hash_order_rev two_known, of "[''app'']" "\<lambda>n. []" "\<lambda>n. [''ghost'']"]
  by (elim exE conjE) (intro exI conjI impI, assumption, elim impE conjE)

definition optional_cycle_deps :: "string \<Rightarrow> string list" where
  "optional_cycle_deps n = (if n = ''x'' then [''y''] else if n = ''y'' then [''x''] else [])"

definition optional_cycle_soft :: "string \<Rightarrow> string list" where
  "optional_cycle_soft n = (if n = ''app'' then [''x''] else [])"

text \<open>
  An optional dependency can fail a best-effort load: \<open>app\<close> names \<open>x\<close> optionally, \<open>x\<close> and \<open>y\<close>
  require each other, and the request for \<open>app\<close>, which resolves without best effort, is refused
  with a cycle under it.
\<close>

theorem best_effort_cycle:
  "resolve (\<lambda>xs. xs) [''app''] (\<lambda>n. n \<in> set [''app'', ''x'', ''y'']) optional_cycle_deps
     (Some optional_cycle_soft) OrderOnly =
     Some \<lparr>rr_order = [''app''], missing = [], hasCycle = False, bestEffort = [], skippedOptional = []\<rparr>
   \<and> resolve (\<lambda>xs. xs) [''app''] (\<lambda>n. n \<in> set [''app'', ''x'', ''y'']) optional_cycle_deps
     (Some optional_cycle_soft) BestEffort =
     Some \<lparr>rr_order = [''app''], missing = [], hasCycle = True, bestEffort = [''x'', ''y''], skippedOptional = []\<rparr>"
  by code_simp

end
