(* ===== verification/StateObserver.thy ===== *)
theory StateObserver
  imports Prelude
begin

text \<open>
  \<open>src/logos_core/module_state_observer.{h,cpp}\<close>: the buffer of lifecycle transitions between the
  load paths and the one sink. The sink is an external callback; the model names it by a number and
  logs every call it gets in \<open>dispatched\<close>, which is the only field that is not in the class. The
  lemmas show the two rules of the header: one counter numbers transitions and snapshots, strictly
  increasing while it does not wrap, and a transition is delivered once, in the order recorded.
\<close>

section \<open>States of a module\<close>

definition kAbsent :: string where "kAbsent = ''absent''"
definition kUnloaded :: string where "kUnloaded = ''unloaded''"
definition kLoading :: string where "kLoading = ''loading''"
definition kLoaded :: string where "kLoaded = ''loaded''"
definition kReady :: string where "kReady = ''ready''"
definition kStopping :: string where "kStopping = ''stopping''"
definition kError :: string where "kError = ''error''"

lemmas module_states = kAbsent_def kUnloaded_def kLoading_def kLoaded_def kReady_def kStopping_def kError_def

record ModuleTransition =
  t_module :: string
  t_instance :: "string option"
  t_pid :: "int option"
  oldState :: string
  newState :: string
  t_reason :: "string option"
  t_seq :: "64 word"

record observer =
  m_pending :: "ModuleTransition list"
  m_sink :: "nat option"
  m_seq :: "64 word"
  dispatched :: "(nat \<times> ModuleTransition list) list"

section \<open>Operations\<close>

definition new_observer :: observer where
  "new_observer = \<lparr>m_pending = [], m_sink = None, m_seq = 0, dispatched = []\<rparr>"

definition setSink :: "nat option \<Rightarrow> observer \<Rightarrow> observer" where
  "setSink sink ob = ob\<lparr>m_sink := sink\<rparr>"

definition hasSink :: "observer \<Rightarrow> bool" where
  "hasSink ob \<longleftrightarrow> m_sink ob \<noteq> None"

definition nextSeq :: "observer \<Rightarrow> 64 word \<times> observer" where
  "nextSeq ob = (m_seq ob + 1, ob\<lparr>m_seq := m_seq ob + 1\<rparr>)"

definition record_transition ::
  "string \<Rightarrow> string \<Rightarrow> string \<Rightarrow> string option \<Rightarrow> int option \<Rightarrow> string option \<Rightarrow> observer \<Rightarrow> observer"
where
  "record_transition modul old new inst pid reason ob =
     (if modul = [] \<or> old = [] \<or> new = [] then ob
      else if old = new then ob
      else if m_sink ob = None then ob
      else ob\<lparr>m_seq := m_seq ob + 1,
              m_pending := m_pending ob @
                [\<lparr>t_module = modul, t_instance = inst, t_pid = pid, oldState = old, newState = new,
                  t_reason = reason, t_seq = m_seq ob + 1\<rparr>]\<rparr>)"

definition flush :: "observer \<Rightarrow> observer" where
  "flush ob =
     (case m_sink ob of
        None \<Rightarrow> ob
      | Some sink \<Rightarrow> if m_pending ob = [] then ob
          else ob\<lparr>m_pending := [], dispatched := dispatched ob @ [(sink, m_pending ob)]\<rparr>)"

definition clearPending :: "observer \<Rightarrow> observer" where
  "clearPending ob = ob\<lparr>m_pending := []\<rparr>"

section \<open>Runs\<close>

datatype observer_op =
    OpSetSink "nat option"
  | OpNextSeq
  | OpRecord string string string "string option" "int option" "string option"
  | OpFlush
  | OpClearPending

fun observer_step :: "observer_op \<Rightarrow> observer \<Rightarrow> observer" where
  "observer_step (OpSetSink s) ob = setSink s ob"
| "observer_step OpNextSeq ob = snd (nextSeq ob)"
| "observer_step (OpRecord m old new i p r) ob = record_transition m old new i p r ob"
| "observer_step OpFlush ob = flush ob"
| "observer_step OpClearPending ob = clearPending ob"

definition observer_run :: "observer_op list \<Rightarrow> observer" where
  "observer_run ops = fold observer_step ops new_observer"

text \<open>Everything handed out so far: what the sinks got, then what is still buffered.\<close>

definition feed :: "observer \<Rightarrow> ModuleTransition list" where
  "feed ob = concat (map snd (dispatched ob)) @ m_pending ob"

definition well_numbered :: "nat \<Rightarrow> observer \<Rightarrow> bool" where
  "well_numbered n ob \<longleftrightarrow>
     unat (m_seq ob) \<le> n
   \<and> sorted_wrt (\<lambda>a b. t_seq a < t_seq b) (feed ob)
   \<and> (\<forall>t \<in> set (feed ob). t_seq t \<le> m_seq ob \<and> t_module t \<noteq> [] \<and> oldState t \<noteq> newState t)"

lemma feed_frames [frame_simps]:
  "feed (setSink s ob) = feed ob"
  "feed (snd (nextSeq ob)) = feed ob"
  "feed (flush ob) = feed ob"
  by (auto simp: feed_def setSink_def nextSeq_def flush_def split: option.splits)

lemma feed_record:
  "feed (record_transition m old new i p r ob) = feed ob @
     (if m = [] \<or> old = [] \<or> new = [] \<or> old = new \<or> m_sink ob = None then []
      else [\<lparr>t_module = m, t_instance = i, t_pid = p, oldState = old, newState = new,
             t_reason = r, t_seq = m_seq ob + 1\<rparr>])"
  by (simp add: feed_def record_transition_def)

lemma seq_step:
  assumes "unat (s :: 64 word) \<le> n" and "Suc n < 2 ^ 64"
  shows "unat (s + 1) = Suc (unat s)" and "s < s + 1"
proof -
  show *: "unat (s + 1) = Suc (unat s)"
    using assms by (simp add: unat_word_ariths)
  then show "s < s + 1" by (simp add: word_less_nat_alt)
qed

lemma well_numbered_new: "well_numbered 0 new_observer"
  by (simp add: well_numbered_def new_observer_def feed_def)

lemma well_numbered_mono_seq:
  assumes "well_numbered n ob" and "Suc n < 2 ^ 64"
  shows "\<forall>t \<in> set (feed ob). t_seq t < m_seq ob + 1"
  using assms seq_step [of "m_seq ob" n] unfolding well_numbered_def by force

lemma well_numbered_step:
  assumes wn: "well_numbered n ob" and bound: "Suc n < 2 ^ 64"
  shows "well_numbered (Suc n) (observer_step op ob)"
proof -
  note seq = seq_step [of "m_seq ob" n]
  have le: "unat (m_seq ob) \<le> n" using wn by (simp add: well_numbered_def)
  have less: "\<forall>t \<in> set (feed ob). t_seq t < m_seq ob + 1"
    by (rule well_numbered_mono_seq [OF wn bound])
  show ?thesis
  proof (cases op)
    case (OpSetSink s)
    then show ?thesis using wn by (auto simp: well_numbered_def frame_simps) (auto simp: setSink_def)
  next
    case OpNextSeq
    have "\<forall>t \<in> set (feed ob). t_seq t \<le> m_seq ob + 1" using less by auto
    with OpNextSeq show ?thesis
      using wn seq(1) [OF le bound] by (auto simp: well_numbered_def frame_simps) (auto simp: nextSeq_def)
  next
    case (OpRecord m old new i p r)
    have "\<forall>t \<in> set (feed ob). t_seq t \<le> m_seq ob + 1" using less by auto
    then show ?thesis
      using wn less seq(1) [OF le bound] le OpRecord
      by (auto simp: well_numbered_def feed_record sorted_wrt_append)
         (auto simp: record_transition_def split: if_splits)
  next
    case OpFlush
    then show ?thesis
      using wn by (auto simp: well_numbered_def frame_simps) (auto simp: flush_def split: option.splits)
  next
    case OpClearPending
    then show ?thesis
      using wn by (auto simp: well_numbered_def feed_def clearPending_def sorted_wrt_append)
  qed
qed

lemma well_numbered_run:
  assumes "well_numbered n ob" and "n + length ops < 2 ^ 64"
  shows "well_numbered (n + length ops) (fold observer_step ops ob)"
  using assms
proof (induction ops arbitrary: n ob)
  case (Cons op ops)
  from Cons.IH [of "Suc n" "observer_step op ob"] well_numbered_step [OF Cons.prems(1)] Cons.prems(2)
  show ?case by simp
qed simp

text \<open>What a consumer is told, by specification: every real change recorded while it listened.\<close>

fun heard :: "nat option \<Rightarrow> observer_op list \<Rightarrow> ModuleTransition list" where
  "heard s [] = []"
| "heard s (OpSetSink s' # ops) = heard s' ops"
| "heard s (OpRecord m old new i p r # ops) =
     (if m = [] \<or> old = [] \<or> new = [] \<or> old = new \<or> s = None then []
      else [\<lparr>t_module = m, t_instance = i, t_pid = p, oldState = old, newState = new,
             t_reason = r, t_seq = 0\<rparr>]) @ heard s ops"
| "heard s (_ # ops) = heard s ops"

definition unnumbered :: "ModuleTransition \<Rightarrow> ModuleTransition" where
  "unnumbered t = t\<lparr>t_seq := 0\<rparr>"

lemma step_sink:
  "m_sink (setSink s ob) = s" "m_sink (snd (nextSeq ob)) = m_sink ob"
  "m_sink (record_transition m old new i p r ob) = m_sink ob" "m_sink (flush ob) = m_sink ob"
  by (auto simp: setSink_def nextSeq_def record_transition_def flush_def split: option.splits)

lemma run_feed:
  "OpClearPending \<notin> set ops \<Longrightarrow>
   map unnumbered (feed (fold observer_step ops ob)) = map unnumbered (feed ob) @ heard (m_sink ob) ops"
proof (induction ops arbitrary: ob)
  case (Cons op ops)
  then show ?case
    by (cases op) (auto simp: frame_simps step_sink feed_record unnumbered_def)
qed simp

lemma run_extends:
  assumes "OpClearPending \<notin> set ops" and "well_numbered n ob" and "n + length ops < 2 ^ 64"
  shows "\<exists>new. feed (fold observer_step ops ob) = feed ob @ new \<and> (\<forall>t \<in> set new. m_seq ob < t_seq t)"
  using assms
proof (induction ops arbitrary: n ob)
  case (Cons op ops)
  let ?ob = "observer_step op ob"
  have le: "unat (m_seq ob) \<le> n" "Suc n < 2 ^ 64" using Cons.prems by (auto simp: well_numbered_def)
  obtain new where new: "feed (fold observer_step ops ?ob) = feed ?ob @ new" "\<forall>t \<in> set new. m_seq ?ob < t_seq t"
    using Cons.IH [of "Suc n" ?ob] well_numbered_step [OF Cons.prems(2) le(2)] Cons.prems by auto
  note lt = seq_step(2) [OF le]
  have mono: "m_seq ob \<le> m_seq ?ob"
    using lt Cons.prems(1)
    by (cases op) (auto simp: setSink_def nextSeq_def record_transition_def flush_def clearPending_def split: option.splits)
  obtain here where here: "feed ?ob = feed ob @ here" "\<forall>t \<in> set here. m_seq ob < t_seq t"
    using Cons.prems(1) lt by (cases op) (auto simp: frame_simps feed_record split: if_splits)
  show ?case
    using new here mono by (intro exI [of _ "here @ new"]) auto
qed simp

text \<open>
  C15. Whatever the sequence of calls, what the sinks were handed together with what is still
  buffered is every real change recorded while a sink was installed: each once, in the order
  recorded, never from a state to itself, and with strictly increasing numbers as long as the
  64-bit counter has not wrapped.
\<close>

theorem observer_feed_exact:
  assumes "OpClearPending \<notin> set ops" and "length ops < 2 ^ 64"
  shows "map unnumbered (feed (observer_run ops)) = heard None ops
    \<and> sorted_wrt (\<lambda>a b. t_seq a < t_seq b) (feed (observer_run ops))"
  using run_feed [OF assms(1), of new_observer] well_numbered_run [OF well_numbered_new, of ops] assms(2)
  by (simp add: observer_run_def well_numbered_def) (simp add: new_observer_def feed_def)

theorem observer_feed_exact_witness:
  "map unnumbered (feed (observer_run [OpSetSink (Some 1), OpRecord ''m'' ''absent'' ''unloaded'' None None None, OpFlush]))
     = heard None [OpSetSink (Some 1), OpRecord ''m'' ''absent'' ''unloaded'' None None None, OpFlush]
   \<and> sorted_wrt (\<lambda>a b. t_seq a < t_seq b)
       (feed (observer_run [OpSetSink (Some 1), OpRecord ''m'' ''absent'' ''unloaded'' None None None, OpFlush]))"
  by (rule observer_feed_exact) simp_all

text \<open>
  One counter serves transitions and snapshots: the number a snapshot takes is above that of
  every transition handed out before it and below that of every transition recorded after it.
\<close>

theorem observer_one_counter:
  assumes "OpClearPending \<notin> set later" and "length before + length later + 1 < 2 ^ 64"
    and "ob = observer_run before" and "q = fst (nextSeq ob)"
  shows "(\<forall>t \<in> set (feed ob). t_seq t < q) \<and>
    (\<exists>new. feed (observer_run (before @ OpNextSeq # later)) = feed ob @ new \<and> (\<forall>t \<in> set new. q < t_seq t))"
proof -
  have wn: "well_numbered (length before) ob"
    using well_numbered_run [OF well_numbered_new, of before] assms(2,3) by (simp add: observer_run_def)
  have less: "\<forall>t \<in> set (feed ob). t_seq t < q"
    using well_numbered_mono_seq [OF wn] assms(2,4) by (simp add: nextSeq_def)
  have "well_numbered (Suc (length before)) (snd (nextSeq ob))"
    using well_numbered_step [OF wn, of OpNextSeq] assms(2) by simp
  from run_extends [OF assms(1) this] assms(2) obtain new where
    "feed (fold observer_step later (snd (nextSeq ob))) = feed ob @ new"
    "\<forall>t \<in> set new. m_seq (snd (nextSeq ob)) < t_seq t"
    by (auto simp: frame_simps)
  then show ?thesis using less assms(3,4) by (auto simp: observer_run_def nextSeq_def)
qed

theorem observer_one_counter_witness:
  "\<exists>new. feed (observer_run ([OpSetSink (Some 1), OpRecord ''m'' ''absent'' ''unloaded'' None None None] @
        OpNextSeq # [OpRecord ''m'' ''unloaded'' ''loading'' None None None])) =
      feed (observer_run [OpSetSink (Some 1), OpRecord ''m'' ''absent'' ''unloaded'' None None None]) @ new
    \<and> (\<forall>t \<in> set new. fst (nextSeq (observer_run [OpSetSink (Some 1), OpRecord ''m'' ''absent'' ''unloaded'' None None None])) < t_seq t)"
  by (rule observer_one_counter [THEN conjunct2]) simp_all

end
