(* ===== verification/ModuleRegistry.thy ===== *)
theory ModuleRegistry
  imports DependencyGate DependencyResolver StateObserver
begin

text \<open>
  \<open>src/logos_core/module_registry.{h,cpp}\<close>: the modules a host knows, their two edge sets with the
  reverse edges, and what is loaded. One definition per member function, over the state
  \<open>registry\<close> (\<open>m_modulesDirs\<close>, \<open>m_modules\<close>); a function that reports to the observer also
  takes and returns it. Parameters: the iteration order \<open>ho\<close> of the unordered containers, the
  clock, the package manager's scan, the plugin metadata reader of module_lib, the file system
  test and the JSON library. A shared pointer to a loader is the loader's number in the loader table.
  A member function runs under the registry's own mutex, so each is one step.
\<close>

section \<open>State\<close>

record LoadedModuleHandle =
  h_name :: string
  h_pid :: int
  h_endpoint :: string

definition emptyHandle :: LoadedModuleHandle where
  "emptyHandle = \<lparr>h_name = [], h_pid = -1, h_endpoint = []\<rparr>"

record ModuleInfo =
  path :: string
  metadataJson :: string
  version :: string
  dependencies :: "ModuleDependency list"
  dependents :: "string list"
  optionalDependencies :: "ModuleDependency list"
  optionalDependents :: "string list"
  format :: string
  embedded :: bool
  loaded :: bool
  loadedAt :: int
  published :: "bool option"
  publishedAt :: int
  epoch :: "64 word"
  loader :: "nat option"
  handle :: LoadedModuleHandle

text \<open>The value \<open>m_modules[name]\<close> creates.\<close>

definition newModuleInfo :: ModuleInfo where
  "newModuleInfo = \<lparr>path = [], metadataJson = [], version = [], dependencies = [], dependents = [],
     optionalDependencies = [], optionalDependents = [], format = [], embedded = False, loaded = False,
     loadedAt = 0, published = None, publishedAt = 0, epoch = 0, loader = None, handle = emptyHandle\<rparr>"

record registry =
  m_modulesDirs :: "string list"
  m_modules :: "ModuleInfo umap"

definition emptyRegistry :: registry where
  "emptyRegistry = \<lparr>m_modulesDirs = [], m_modules = []\<rparr>"

abbreviation find_module :: "registry \<Rightarrow> string \<Rightarrow> ModuleInfo option" where
  "find_module r name \<equiv> map_of (m_modules r) name"

text \<open>\<open>ModuleInfo& info = m_modules[name]\<close> followed by writes to \<open>info\<close>, and the same after a \<open>find\<close>.\<close>

definition upsert :: "string \<Rightarrow> (ModuleInfo \<Rightarrow> ModuleInfo) \<Rightarrow> registry \<Rightarrow> registry" where
  "upsert name f r = r\<lparr>m_modules := AList.update name
     (f (case find_module r name of None \<Rightarrow> newModuleInfo | Some i \<Rightarrow> i)) (m_modules r)\<rparr>"

definition adjust :: "string \<Rightarrow> (ModuleInfo \<Rightarrow> ModuleInfo) \<Rightarrow> registry \<Rightarrow> registry" where
  "adjust name f r = r\<lparr>m_modules := umap_adjust name f (m_modules r)\<rparr>"

section \<open>Names and shapes\<close>

definition nameChar :: "char \<Rightarrow> bool" where
  "nameChar c = (let n = of_char c :: nat in
     (97 \<le> n \<and> n \<le> 122) \<or> (65 \<le> n \<and> n \<le> 90) \<or> (48 \<le> n \<and> n \<le> 57) \<or> c = CHR ''_'' \<or> c = CHR ''-'')"

definition isValidModuleName :: "string \<Rightarrow> bool" where
  "isValidModuleName name =
     (if name = [] \<or> length name > 64 then False
      else if \<not> list_all nameChar name then False
      else if name = ''.'' \<or> name = ''..'' then False
      else True)"

definition dependencyNames :: "ModuleDependency list \<Rightarrow> string list" where
  "dependencyNames deps = map dep_name deps"

definition toGateDependencies :: "ModuleDependency list \<Rightarrow> ModuleDependency list" where
  "toGateDependencies entries =
     map (\<lambda>e. \<lparr>dep_name = dep_name e, versionRange = versionRange e, signer = signer e,
               malformedConstraint = malformedConstraint e\<rparr>) entries"

definition toDependencyEntries :: "string list \<Rightarrow> ModuleDependency list" where
  "toDependencyEntries names =
     map (\<lambda>n. \<lparr>dep_name = n, versionRange = [], signer = [], malformedConstraint = False\<rparr>) names"

definition looksLikeBareModule :: "string \<Rightarrow> bool" where
  "looksLikeBareModule mainFilePath =
     (let stem = path_stem mainFilePath in
      length stem > 5 \<and> drop (length stem - 5) stem = ''_bare'')"

definition looksLikeWebModule :: "string \<Rightarrow> bool" where
  "looksLikeWebModule mainFilePath =
     (let ext = map c_tolower (path_extension mainFilePath) in ext = ''.html'' \<or> ext = ''.htm'')"

section \<open>Directories\<close>

definition setModulesDir :: "string \<Rightarrow> registry \<Rightarrow> registry" where
  "setModulesDir dir r = r\<lparr>m_modulesDirs := [dir]\<rparr>"

definition addModulesDir :: "string \<Rightarrow> registry \<Rightarrow> registry" where
  "addModulesDir dir r =
     (if dir \<in> set (m_modulesDirs r) then r else r\<lparr>m_modulesDirs := m_modulesDirs r @ [dir]\<rparr>)"

definition modulesDirs :: "registry \<Rightarrow> string list" where
  "modulesDirs r = m_modulesDirs r"

section \<open>Reverse edges\<close>

text \<open>\<open>invert\<close> for one edge set: every known dependency of \<open>depender\<close> learns of it once. Field
  updates stand for the member pointer \<open>reverse\<close>.\<close>

definition addDependent :: "string \<Rightarrow> ModuleInfo \<Rightarrow> ModuleInfo" where
  "addDependent depender i =
     (if depender \<in> set (dependents i) then i else i\<lparr>dependents := dependents i @ [depender]\<rparr>)"

definition addOptionalDependent :: "string \<Rightarrow> ModuleInfo \<Rightarrow> ModuleInfo" where
  "addOptionalDependent depender i =
     (if depender \<in> set (optionalDependents i) then i
      else i\<lparr>optionalDependents := optionalDependents i @ [depender]\<rparr>)"

definition invert ::
  "(string \<Rightarrow> ModuleInfo \<Rightarrow> ModuleInfo) \<Rightarrow> string \<Rightarrow> ModuleDependency list \<Rightarrow> ModuleInfo umap \<Rightarrow> ModuleInfo umap"
where
  "invert add depender forward m = fold (\<lambda>entry. umap_adjust (dep_name entry) (add depender)) forward m"

definition invertModule :: "ModuleInfo umap \<Rightarrow> string \<Rightarrow> ModuleInfo umap \<Rightarrow> ModuleInfo umap" where
  "invertModule wiped depender m =
     (case map_of wiped depender of
        None \<Rightarrow> m
      | Some info \<Rightarrow>
          invert addOptionalDependent depender (optionalDependencies info)
            (invert addDependent depender (dependencies info) m))"

definition recomputeDependents :: "hash_iter \<Rightarrow> registry \<Rightarrow> registry" where
  "recomputeDependents ho r =
     (let wiped = umap_map (\<lambda>_ i. i\<lparr>dependents := [], optionalDependents := []\<rparr>) (m_modules r)
      in r\<lparr>m_modules := fold (invertModule wiped) (ho (keys wiped)) wiped\<rparr>)"

section \<open>Entering the registry\<close>

text \<open>What module_lib reads from a plugin, and the package manager's view of a package.\<close>

record PluginMetadata =
  md_valid :: bool
  md_name :: string
  md_version :: string
  rawMetadataJson :: string
  md_dependencies :: "ModuleDependency list"
  md_optionalDependencies :: "ModuleDependency list"

record PackageDependency =
  pd_name :: string
  pd_version :: "string option"
  pd_signer :: "string option"

record InstalledPackage =
  pkg_name :: string
  mainFilePath :: string
  pkg_type :: string
  pkg_version :: string
  description :: string
  author :: string
  category :: string
  pkg_dependencies :: "string list"
  dependencyConstraints :: "PackageDependency list"
  pkg_optionalDependencies :: "PackageDependency list"

text \<open>An empty result name is the refusal; the registry is then the one that was passed in.\<close>

definition processModuleInternal ::
  "(string \<Rightarrow> PluginMetadata option) \<Rightarrow> string \<Rightarrow> string \<Rightarrow> registry \<Rightarrow> string \<times> registry" where
  "processModuleInternal extractMetadata modulePath trustedName r =
     (case extractMetadata modulePath of
        None \<Rightarrow> ([], r)
      | Some md \<Rightarrow>
          if \<not> md_valid md then ([], r)
          else if trustedName \<noteq> [] \<and> md_name md \<noteq> trustedName then ([], r)
          else let name = (if trustedName = [] then md_name md else trustedName) in
            if \<not> isValidModuleName name then ([], r)
            else (name, upsert name (\<lambda>info. info\<lparr>path := modulePath, metadataJson := rawMetadataJson md,
                    version := md_version md, dependencies := toGateDependencies (md_dependencies md),
                    optionalDependencies := toGateDependencies (md_optionalDependencies md),
                    format := []\<rparr>) r))"

definition toGate :: "PackageDependency \<Rightarrow> ModuleDependency" where
  "toGate d = \<lparr>dep_name = pd_name d,
     versionRange = (case pd_version d of None \<Rightarrow> [] | Some v \<Rightarrow> v),
     signer = (case pd_signer d of None \<Rightarrow> [] | Some s \<Rightarrow> s), malformedConstraint = False\<rparr>"

definition manifestJson :: "InstalledPackage \<Rightarrow> string \<Rightarrow> json" where
  "manifestJson pkg fmt = JObject
     [(''author'', JString (author pkg)), (''category'', JString (category pkg)),
      (''dependencies'', JArray (map JString (pkg_dependencies pkg))),
      (''description'', JString (description pkg)), (''format'', JString fmt),
      (''name'', JString (pkg_name pkg)), (''type'', JString (pkg_type pkg)),
      (''version'', JString (pkg_version pkg))]"

definition constrainedEdges :: "InstalledPackage \<Rightarrow> ModuleDependency list" where
  "constrainedEdges pkg =
     (let constrained = fold (\<lambda>c. AList.update (pd_name c) (toGate c)) (dependencyConstraints pkg) []
      in map (\<lambda>dep. case map_of constrained (dep_name dep) of None \<Rightarrow> dep | Some c \<Rightarrow> c)
           (toDependencyEntries (pkg_dependencies pkg)))"

definition processManifestModuleInternal ::
  "(json \<Rightarrow> string) \<Rightarrow> InstalledPackage \<Rightarrow> string \<Rightarrow> registry \<Rightarrow> string \<times> registry" where
  "processManifestModuleInternal dump pkg fmt r =
     (let name = pkg_name pkg in
      if \<not> isValidModuleName name then ([], r)
      else (name, upsert name (\<lambda>info. info\<lparr>path := mainFilePath pkg, version := pkg_version pkg,
              format := fmt, metadataJson := dump (manifestJson pkg fmt),
              dependencies := constrainedEdges pkg,
              optionalDependencies := map toGate (pkg_optionalDependencies pkg)\<rparr>) r))"

text \<open>One package of a scan: the name it registers under, or the empty name.\<close>

definition scanPackage ::
  "(string \<Rightarrow> PluginMetadata option) \<Rightarrow> (json \<Rightarrow> string) \<Rightarrow> InstalledPackage \<Rightarrow> registry \<Rightarrow> string \<times> registry"
where
  "scanPackage extractMetadata dump pkg r =
     (if pkg_name pkg = [] \<or> mainFilePath pkg = [] then ([], r)
      else let isCore = (pkg_type pkg = [] \<or> pkg_type pkg = ''core'') in
        if \<not> isCore \<and> \<not> looksLikeWebModule (mainFilePath pkg) then ([], r)
        else if looksLikeBareModule (mainFilePath pkg) then processManifestModuleInternal dump pkg ''bare'' r
        else if looksLikeWebModule (mainFilePath pkg) then processManifestModuleInternal dump pkg ''web'' r
        else processModuleInternal extractMetadata (mainFilePath pkg) (pkg_name pkg) r)"

fun scanPackages ::
  "(string \<Rightarrow> PluginMetadata option) \<Rightarrow> (json \<Rightarrow> string) \<Rightarrow> InstalledPackage list \<Rightarrow>
   string list \<times> registry \<Rightarrow> string list \<times> registry" where
  "scanPackages extractMetadata dump [] st = st"
| "scanPackages extractMetadata dump (pkg # pkgs) (scannedNames, r) =
     (let (moduleName, r') = scanPackage extractMetadata dump pkg r
      in scanPackages extractMetadata dump pkgs
           (if moduleName = [] then (scannedNames, r') else (uset_insert moduleName scannedNames, r')))"

definition toRemove :: "hash_iter \<Rightarrow> string list \<Rightarrow> registry \<Rightarrow> string list" where
  "toRemove ho scannedNames r =
     filter (\<lambda>name. case find_module r name of None \<Rightarrow> False
        | Some info \<Rightarrow> name \<notin> set scannedNames \<and> \<not> loaded info \<and> \<not> embedded info)
       (ho (keys (m_modules r)))"

definition pruneModule :: "string \<Rightarrow> registry \<times> observer \<Rightarrow> registry \<times> observer" where
  "pruneModule name = (\<lambda>(r, ob). (r\<lparr>m_modules := AList.delete name (m_modules r)\<rparr>,
     record_transition name kUnloaded kAbsent None None (Some ''module files are no longer on disk'') ob))"

definition discoverInstalledModules ::
  "hash_iter \<Rightarrow> (string \<Rightarrow> PluginMetadata option) \<Rightarrow> (json \<Rightarrow> string) \<Rightarrow>
   (string list \<Rightarrow> InstalledPackage list) \<Rightarrow> registry \<times> observer \<Rightarrow> registry \<times> observer" where
  "discoverInstalledModules ho extractMetadata dump getInstalledPackages = (\<lambda>(r, ob).
     let knownBefore = (if hasSink ob then keys (m_modules r) else []);
         (scannedNames, r1) = scanPackages extractMetadata dump (getInstalledPackages (m_modulesDirs r)) ([], r);
         (r2, ob2) = fold pruneModule (toRemove ho scannedNames r1) (r1, ob);
         ob3 = fold (\<lambda>name ob. if name \<in> set knownBefore then ob
                     else record_transition name kAbsent kUnloaded None None None ob) (ho scannedNames) ob2
     in (recomputeDependents ho r2, flush ob3))"

definition processModule ::
  "hash_iter \<Rightarrow> (string \<Rightarrow> PluginMetadata option) \<Rightarrow> string \<Rightarrow> registry \<times> observer \<Rightarrow>
   string \<times> registry \<times> observer" where
  "processModule ho extractMetadata modulePath = (\<lambda>(r, ob).
     let observing = hasSink ob;
         knownBefore = (if observing then keys (m_modules r) else []);
         (name, r1) = processModuleInternal extractMetadata modulePath [] r;
         r2 = recomputeDependents ho r1;
         ob2 = (if observing \<and> name \<noteq> [] \<and> name \<notin> set knownBefore
                then record_transition name kAbsent kUnloaded None None None ob else ob)
     in (name, r2, flush ob2))"

text \<open>
  The dependency entries of a manifest handed over as JSON. The accessors for \<open>version\<close> and
  \<open>signer\<close> throw where the member is not a string; the entries before it are kept.
\<close>

fun manifestEdges :: "json list \<Rightarrow> ModuleDependency list \<times> exn option" where
  "manifestEdges [] = ([], None)"
| "manifestEdges (d # ds) =
     (case d of
        JString n \<Rightarrow>
          (let (es, e) = manifestEdges ds
           in (\<lparr>dep_name = n, versionRange = [], signer = [], malformedConstraint = False\<rparr> # es, e))
      | JObject ms \<Rightarrow>
          (case map_of ms ''name'' of
             Some (JString n) \<Rightarrow>
               (case (jvalue_string d ''version'' [], jvalue_string d ''signer'' []) of
                  (Inr v, Inr s) \<Rightarrow>
                    (let (es, e) = manifestEdges ds
                     in (\<lparr>dep_name = n, versionRange = v, signer = s, malformedConstraint = False\<rparr> # es, e))
                | _ \<Rightarrow> ([], Some TypeError))
           | _ \<Rightarrow> manifestEdges ds)
      | _ \<Rightarrow> manifestEdges ds)"

definition addEmbeddedBareModule ::
  "hash_iter \<Rightarrow> (string \<Rightarrow> json option) \<Rightarrow> (json \<Rightarrow> string) \<Rightarrow> (string \<Rightarrow> bool) \<Rightarrow> string \<Rightarrow> string \<Rightarrow>
   registry \<times> observer \<Rightarrow> (exn + string) \<times> registry \<times> observer" where
  "addEmbeddedBareModule ho parse dump isRegularFile metadata imagePath = (\<lambda>(r, ob).
     case parse metadata of
       None \<Rightarrow> (Inr [], r, ob)
     | Some manifest \<Rightarrow>
         if \<not> is_object manifest then (Inr [], r, ob)
         else case jvalue_string manifest ''name'' [] of
           Inl e \<Rightarrow> (Inl e, r, ob)
         | Inr name \<Rightarrow>
             if \<not> isValidModuleName name then (Inr [], r, ob)
             else if \<not> isRegularFile imagePath then (Inr [], r, ob)
             else
               let wasKnown = (name \<in> set (keys (m_modules r)));
                   r1 = upsert name (\<lambda>info. info\<lparr>path := imagePath\<rparr>) r
               in case jvalue_string manifest ''version'' [] of
                    Inl e \<Rightarrow> (Inl e, r1, flush ob)
                  | Inr v \<Rightarrow>
                      let (edges, err) = (case jfind manifest ''dependencies'' of
                              Some (JArray ds) \<Rightarrow> manifestEdges ds
                            | _ \<Rightarrow> ([], None));
                          r2 = upsert name (\<lambda>info. info\<lparr>version := v, format := ''bare'', embedded := True,
                                 metadataJson := dump manifest, dependencies := edges\<rparr>) r1
                      in case err of
                           Some e \<Rightarrow> (Inl e, r2, flush ob)
                         | None \<Rightarrow>
                             let r3 = recomputeDependents ho
                                        (upsert name (\<lambda>info. info\<lparr>optionalDependencies := []\<rparr>) r2);
                                 ob2 = (if wasKnown then ob
                                        else record_transition name kAbsent kUnloaded None None None ob)
                             in (Inr name, r3, flush ob2))"

section \<open>Queries\<close>

definition isKnown :: "registry \<Rightarrow> string \<Rightarrow> bool" where
  "isKnown r name \<longleftrightarrow> name \<in> set (keys (m_modules r))"

definition modulePath :: "registry \<Rightarrow> string \<Rightarrow> string" where
  "modulePath r name = (case find_module r name of None \<Rightarrow> [] | Some i \<Rightarrow> path i)"

definition moduleVersion :: "registry \<Rightarrow> string \<Rightarrow> string" where
  "moduleVersion r name = (case find_module r name of None \<Rightarrow> [] | Some i \<Rightarrow> version i)"

definition moduleFormat :: "registry \<Rightarrow> string \<Rightarrow> string" where
  "moduleFormat r name = (case find_module r name of None \<Rightarrow> [] | Some i \<Rightarrow> format i)"

definition moduleDependencyEntries :: "registry \<Rightarrow> string \<Rightarrow> ModuleDependency list" where
  "moduleDependencyEntries r name = (case find_module r name of None \<Rightarrow> [] | Some i \<Rightarrow> dependencies i)"

definition moduleOptionalDependencyEntries :: "registry \<Rightarrow> string \<Rightarrow> ModuleDependency list" where
  "moduleOptionalDependencyEntries r name =
     (case find_module r name of None \<Rightarrow> [] | Some i \<Rightarrow> optionalDependencies i)"

definition moduleOptionalDependencies :: "registry \<Rightarrow> string \<Rightarrow> string list" where
  "moduleOptionalDependencies r name = dependencyNames (moduleOptionalDependencyEntries r name)"

definition moduleOptionalDependents :: "registry \<Rightarrow> string \<Rightarrow> string list" where
  "moduleOptionalDependents r name =
     (case find_module r name of None \<Rightarrow> [] | Some i \<Rightarrow> optionalDependents i)"

text \<open>The direct arm of the two accessors, and the breadth-first walk of the recursive arm, whose
  \<open>seen\<close> set starts out with \<open>name\<close>. \<open>None\<close> is a walk that does not end.\<close>

definition directDependencies :: "registry \<Rightarrow> string \<Rightarrow> string list" where
  "directDependencies r name = dependencyNames (moduleDependencyEntries r name)"

definition directDependents :: "registry \<Rightarrow> string \<Rightarrow> string list" where
  "directDependents r name = (case find_module r name of None \<Rightarrow> [] | Some i \<Rightarrow> dependents i)"

definition walk :: "(string \<Rightarrow> string list) \<Rightarrow> string \<Rightarrow> string list option" where
  "walk succ name = map_option svis (search_loop [name] (\<lambda>_. True) succ (succ name))"

definition moduleDependencies :: "registry \<Rightarrow> string \<Rightarrow> bool \<Rightarrow> string list option" where
  "moduleDependencies r name recursive =
     (if name \<notin> set (keys (m_modules r)) then Some []
      else if \<not> recursive then Some (directDependencies r name)
      else walk (directDependencies r) name)"

definition moduleDependents :: "registry \<Rightarrow> string \<Rightarrow> bool \<Rightarrow> string list option" where
  "moduleDependents r name recursive =
     (if name \<notin> set (keys (m_modules r)) then Some []
      else if \<not> recursive then Some (directDependents r name)
      else walk (directDependents r) name)"

definition knownModuleNames :: "hash_iter \<Rightarrow> registry \<Rightarrow> string list" where
  "knownModuleNames ho r = ho (keys (m_modules r))"

definition isLoaded :: "registry \<Rightarrow> string \<Rightarrow> bool" where
  "isLoaded r name = (case find_module r name of None \<Rightarrow> False | Some i \<Rightarrow> loaded i)"

definition loadedModuleNames :: "hash_iter \<Rightarrow> registry \<Rightarrow> string list" where
  "loadedModuleNames ho r = filter (isLoaded r) (ho (keys (m_modules r)))"

definition loadEpoch :: "registry \<Rightarrow> string \<Rightarrow> 64 word" where
  "loadEpoch r name = (case find_module r name of None \<Rightarrow> 0 | Some i \<Rightarrow> epoch i)"

definition loaderFor :: "registry \<Rightarrow> string \<Rightarrow> nat option" where
  "loaderFor r name = (case find_module r name of None \<Rightarrow> None | Some i \<Rightarrow> loader i)"

definition moduleEntryJson :: "(string \<Rightarrow> json option) \<Rightarrow> string \<Rightarrow> ModuleInfo \<Rightarrow> json" where
  "moduleEntryJson parse name info = JObject
     [(''dependencies'', JArray (map JString (dependencyNames (dependencies info)))),
      (''dependents'', JArray (map JString (dependents info))),
      (''format'', JString (format info)),
      (''loaded'', JBool (loaded info)),
      (''loaded_at'', JInt (loadedAt info)),
      (''metadata'', if metadataJson info = [] then JNull
                     else case parse (metadataJson info) of None \<Rightarrow> JNull | Some m \<Rightarrow> m),
      (''name'', JString name),
      (''optional_dependencies'', JArray (map JString (dependencyNames (optionalDependencies info)))),
      (''optional_dependents'', JArray (map JString (optionalDependents info))),
      (''path'', JString (path info)),
      (''pid'', if loaded info then JInt (h_pid (handle info)) else JNull),
      (''published'', case published info of None \<Rightarrow> JNull | Some b \<Rightarrow> JBool b),
      (''published_at'', JInt (publishedAt info))]"

definition allModulesInfo :: "hash_iter \<Rightarrow> (string \<Rightarrow> json option) \<Rightarrow> registry \<Rightarrow> json" where
  "allModulesInfo ho parse r = JArray (map (\<lambda>name. case find_module r name of
       None \<Rightarrow> JNull | Some info \<Rightarrow> moduleEntryJson parse name info) (ho (keys (m_modules r))))"

section \<open>Mutators\<close>

definition registerModule :: "hash_iter \<Rightarrow> string \<Rightarrow> string \<Rightarrow> string list \<Rightarrow> registry \<Rightarrow> registry" where
  "registerModule ho name p deps r =
     recomputeDependents ho (upsert name (\<lambda>i. i\<lparr>path := p, dependencies := toDependencyEntries deps\<rparr>) r)"

definition registerDependencyEntries ::
  "hash_iter \<Rightarrow> string \<Rightarrow> ModuleDependency list \<Rightarrow> registry \<Rightarrow> registry" where
  "registerDependencyEntries ho name deps r =
     recomputeDependents ho (upsert name (\<lambda>i. i\<lparr>dependencies := deps\<rparr>) r)"

definition registerDependencies :: "hash_iter \<Rightarrow> string \<Rightarrow> string list \<Rightarrow> registry \<Rightarrow> registry" where
  "registerDependencies ho name deps r =
     recomputeDependents ho (upsert name (\<lambda>i. i\<lparr>dependencies := toDependencyEntries deps\<rparr>) r)"

definition registerOptionalDependencies :: "hash_iter \<Rightarrow> string \<Rightarrow> string list \<Rightarrow> registry \<Rightarrow> registry" where
  "registerOptionalDependencies ho name deps r =
     recomputeDependents ho (upsert name (\<lambda>i. i\<lparr>optionalDependencies := toDependencyEntries deps\<rparr>) r)"

definition registerModuleVersion :: "string \<Rightarrow> string \<Rightarrow> registry \<Rightarrow> registry" where
  "registerModuleVersion name v r = upsert name (\<lambda>i. i\<lparr>version := v\<rparr>) r"

definition stampLoaded :: "int \<Rightarrow> ModuleInfo \<Rightarrow> ModuleInfo" where
  "stampLoaded now i = i\<lparr>loaded := True, loadedAt := now, published := None, publishedAt := 0,
     epoch := epoch i + 1\<rparr>"

definition markLoaded :: "int \<Rightarrow> string \<Rightarrow> registry \<Rightarrow> registry" where
  "markLoaded now name r = upsert name (stampLoaded now) r"

definition markLoadedBy :: "int \<Rightarrow> string \<Rightarrow> nat option \<Rightarrow> LoadedModuleHandle \<Rightarrow> registry \<Rightarrow> registry" where
  "markLoadedBy now name ld h r =
     upsert name (\<lambda>i. (stampLoaded now i)\<lparr>loader := ld, handle := h\<rparr>) r"

definition markUnloaded :: "string \<Rightarrow> registry \<Rightarrow> registry" where
  "markUnloaded name r =
     adjust name (\<lambda>i. i\<lparr>loaded := False, loadedAt := 0, published := None, publishedAt := 0\<rparr>) r"

definition beginPublishWatch :: "string \<Rightarrow> registry \<Rightarrow> registry" where
  "beginPublishWatch name r =
     adjust name (\<lambda>i. if published i = None then i\<lparr>published := Some False\<rparr> else i) r"

definition markPublished :: "int \<Rightarrow> string \<Rightarrow> 64 word \<Rightarrow> registry \<Rightarrow> bool \<times> registry" where
  "markPublished now name e r =
     (case find_module r name of
        None \<Rightarrow> (False, r)
      | Some i \<Rightarrow>
          if epoch i \<noteq> e \<or> \<not> loaded i then (False, r)
          else if published i = Some True then (False, r)
          else (True, adjust name (\<lambda>i. i\<lparr>published := Some True, publishedAt := now\<rparr>) r))"

definition clearLoaded :: "registry \<Rightarrow> registry" where
  "clearLoaded r = r\<lparr>m_modules := umap_map (\<lambda>_ i. i\<lparr>loaded := False\<rparr>) (m_modules r)\<rparr>"

definition clearRegistry :: "registry \<Rightarrow> registry" where
  "clearRegistry r = r\<lparr>m_modulesDirs := [], m_modules := []\<rparr>"

end
