(* ===== verification/RegistryGraph.thy ===== *)
theory RegistryGraph
  imports ModuleRegistry
begin

text \<open>
  The dependency graph inside the registry: what a lookup returns after each operation, that
  \<open>recomputeDependentsLocked\<close> inverts the two edge sets exactly, that every graph mutator that runs it
  leaves the reverse edges consistent, and that the recursive accessors compute the transitive closure
  of the edges. The registry provides the finite set of known modules that the resolver asks for.
\<close>

section \<open>Lookups\<close>

lemma find_upsert [lookup_simps]:
  "find_module (upsert name f r) n = (if n = name
     then Some (f (case find_module r name of None \<Rightarrow> newModuleInfo | Some i \<Rightarrow> i)) else find_module r n)"
  by (simp add: upsert_def)

lemma find_adjust [lookup_simps]:
  "find_module (adjust name f r) n = (if n = name then map_option f (find_module r name) else find_module r n)"
  by (simp add: adjust_def)

lemma keys_upsert [lookup_simps]: "set (keys (m_modules (upsert name f r))) = insert name (set (keys (m_modules r)))"
  by (simp add: upsert_def del: set_map)

lemma keys_adjust [lookup_simps]: "keys (m_modules (adjust name f r)) = keys (m_modules r)"
  by (simp add: adjust_def)

definition registry_ok :: "registry \<Rightarrow> bool" where
  "registry_ok r \<longleftrightarrow> umap_ok (m_modules r)"

lemma registry_ok_upsert [simp]: "registry_ok r \<Longrightarrow> registry_ok (upsert name f r)"
  by (simp add: registry_ok_def upsert_def)

lemma registry_ok_adjust [simp]: "registry_ok (adjust name f r) = registry_ok r"
  by (simp add: registry_ok_def adjust_def)

lemma isKnown_find: "isKnown r n \<longleftrightarrow> find_module r n \<noteq> None"
  by (simp add: isKnown_def map_of_None_keys)

lemma finite_isKnown: "finite {n. isKnown r n}"
  by (simp add: isKnown_def)

section \<open>Reverse edges\<close>

lemma map_of_invert:
  assumes "\<And>d i. add d (add d i) = add d i"
  shows "map_of (invert add d forward m) n =
    map_option (if n \<in> set (dependencyNames forward) then add d else (\<lambda>i. i)) (map_of m n)"
proof (induction forward arbitrary: m)
  case Nil
  then show ?case by (simp add: invert_def dependencyNames_def option.map_ident)
next
  case (Cons e es)
  have "map_of (invert add d (e # es) m) n =
      map_option (if n \<in> set (dependencyNames es) then add d else (\<lambda>i. i))
        (map_of (umap_adjust (dep_name e) (add d) m) n)"
    using Cons.IH [of "umap_adjust (dep_name e) (add d) m"] by (simp add: invert_def)
  then show ?case
    using assms by (auto simp: dependencyNames_def option.map_comp comp_def)
qed

lemma keys_invert [simp]: "keys (invert add d forward m) = keys m"
  by (induction forward arbitrary: m) (simp_all add: invert_def)

lemma keys_invertModule [simp]: "keys (invertModule w d m) = keys m"
  by (simp add: invertModule_def split: option.split)

lemma add_idem:
  "addDependent d (addDependent d i) = addDependent d i"
  "addOptionalDependent d (addOptionalDependent d i) = addOptionalDependent d i"
  by (auto simp: addDependent_def addOptionalDependent_def)

definition names_dep :: "ModuleInfo umap \<Rightarrow> string \<Rightarrow> string \<Rightarrow> bool" where
  "names_dep m n d \<longleftrightarrow> (case map_of m d of None \<Rightarrow> False | Some i \<Rightarrow> n \<in> set (dependencyNames (dependencies i)))"

definition names_optional :: "ModuleInfo umap \<Rightarrow> string \<Rightarrow> string \<Rightarrow> bool" where
  "names_optional m n d \<longleftrightarrow>
     (case map_of m d of None \<Rightarrow> False | Some i \<Rightarrow> n \<in> set (dependencyNames (optionalDependencies i)))"

definition extend_reverse :: "string list \<Rightarrow> string list \<Rightarrow> ModuleInfo \<Rightarrow> ModuleInfo" where
  "extend_reverse ds os i = i\<lparr>dependents := dependents i @ ds, optionalDependents := optionalDependents i @ os\<rparr>"

lemma map_of_invertModule:
  assumes "map_of m n = Some i" and "d \<notin> set (dependents i)" and "d \<notin> set (optionalDependents i)"
  shows "map_of (invertModule w d m) n =
    Some (extend_reverse (filter (names_dep w n) [d]) (filter (names_optional w n) [d]) i)"
  using assms
  by (auto simp: invertModule_def map_of_invert add_idem names_dep_def names_optional_def
      addDependent_def addOptionalDependent_def extend_reverse_def split: option.split)

lemma fold_invertModule:
  assumes "map_of m n = Some i" and "distinct ds"
    and "set ds \<inter> set (dependents i) = {}" and "set ds \<inter> set (optionalDependents i) = {}"
  shows "map_of (fold (invertModule w) ds m) n =
    Some (extend_reverse (filter (names_dep w n) ds) (filter (names_optional w n) ds) i)"
  using assms
proof (induction ds arbitrary: m i)
  case Nil
  then show ?case by (simp add: extend_reverse_def)
next
  case (Cons d ds)
  let ?i = "extend_reverse (filter (names_dep w n) [d]) (filter (names_optional w n) [d]) i"
  have step: "map_of (invertModule w d m) n = Some ?i"
    by (rule map_of_invertModule) (use Cons.prems in auto)
  have disj: "set ds \<inter> set (dependents ?i) = {}" "set ds \<inter> set (optionalDependents ?i) = {}"
    using Cons.prems by (auto simp: extend_reverse_def)
  have "distinct ds" using Cons.prems by simp
  from Cons.IH [OF step this disj] show ?case by (simp add: extend_reverse_def)
qed

lemma keys_recompute [simp]: "keys (m_modules (recomputeDependents ho r)) = keys (m_modules r)"
proof -
  have "keys (fold (invertModule w) ds m) = keys m" for w ds m
    by (induction ds arbitrary: m) simp_all
  then show ?thesis by (simp add: recomputeDependents_def Let_def)
qed

text \<open>The exact result of \<open>recomputeDependentsLocked\<close>.\<close>

lemma find_recompute:
  assumes "hash_order ho" and "registry_ok r"
  shows "find_module (recomputeDependents ho r) n =
    map_option (\<lambda>i. i\<lparr>dependents := filter (\<lambda>d. n \<in> set (directDependencies r d)) (ho (keys (m_modules r))),
                      optionalDependents := filter (\<lambda>d. n \<in> set (moduleOptionalDependencies r d)) (ho (keys (m_modules r)))\<rparr>)
      (find_module r n)"
proof (cases "find_module r n")
  case None
  then have "find_module (recomputeDependents ho r) n = None"
    by (simp add: map_of_None_keys del: set_map)
  with None show ?thesis by simp
next
  case (Some i)
  let ?w = "umap_map (\<lambda>_ i. i\<lparr>dependents := [], optionalDependents := []\<rparr>) (m_modules r)"
  have w: "map_of ?w n = Some (i\<lparr>dependents := [], optionalDependents := []\<rparr>)" using Some by simp
  have dist: "distinct (ho (keys ?w))"
    using assms by (simp add: hash_orderD registry_ok_def umap_ok_def)
  have names: "names_dep ?w n = (\<lambda>d. n \<in> set (directDependencies r d))"
    "names_optional ?w n = (\<lambda>d. n \<in> set (moduleOptionalDependencies r d))"
    by (auto simp: fun_eq_iff names_dep_def names_optional_def directDependencies_def moduleDependencyEntries_def
        moduleOptionalDependencies_def moduleOptionalDependencyEntries_def dependencyNames_def split: option.split)
  from fold_invertModule [OF w dist] have
    "map_of (fold (invertModule ?w) (ho (keys ?w)) ?w) n = Some (extend_reverse
       (filter (names_dep ?w n) (ho (keys ?w))) (filter (names_optional ?w n) (ho (keys ?w)))
       (i\<lparr>dependents := [], optionalDependents := []\<rparr>))" by simp
  then show ?thesis
    using Some by (simp add: recomputeDependents_def Let_def extend_reverse_def names)
qed

lemma registry_ok_recompute [simp]: "registry_ok (recomputeDependents ho r) = registry_ok r"
  by (simp add: registry_ok_def umap_ok_def)

text \<open>What the recompute leaves alone.\<close>

lemma recompute_frames [frame_simps]:
  assumes "hash_order ho" and "registry_ok r"
  shows "isLoaded (recomputeDependents ho r) n = isLoaded r n"
    and "directDependencies (recomputeDependents ho r) n = directDependencies r n"
    and "moduleOptionalDependencies (recomputeDependents ho r) n = moduleOptionalDependencies r n"
    and "isKnown (recomputeDependents ho r) n = isKnown r n"
  by (auto simp: isLoaded_def directDependencies_def moduleDependencyEntries_def moduleOptionalDependencies_def
      moduleOptionalDependencyEntries_def isKnown_find find_recompute [OF assms] split: option.splits)

text \<open>The invariant: reverse edges are exactly the inverted forward edges, each once.\<close>

definition reverse_ok :: "registry \<Rightarrow> bool" where
  "reverse_ok r \<longleftrightarrow> registry_ok r \<and>
     (\<forall>n. isKnown r n \<longrightarrow>
        distinct (directDependents r n) \<and>
        set (directDependents r n) = {d. isKnown r d \<and> n \<in> set (directDependencies r d)} \<and>
        distinct (moduleOptionalDependents r n) \<and>
        set (moduleOptionalDependents r n) = {d. isKnown r d \<and> n \<in> set (moduleOptionalDependencies r d)})"

lemma reverse_ok_recompute:
  assumes "hash_order ho" and "registry_ok r"
  shows "reverse_ok (recomputeDependents ho r)"
proof -
  have ho: "distinct (ho (keys (m_modules r)))" "set (ho (keys (m_modules r))) = {d. isKnown r d}"
    using hash_orderD [OF assms(1)] assms(2) by (auto simp: registry_ok_def umap_ok_def isKnown_def)
  show ?thesis
    unfolding reverse_ok_def
  proof (intro conjI allI impI)
    fix n assume "isKnown (recomputeDependents ho r) n"
    then have "isKnown r n" by (simp only: recompute_frames(4) [OF assms])
    then obtain i where i: "find_module r n = Some i" by (auto simp: isKnown_find)
    show "distinct (directDependents (recomputeDependents ho r) n)"
      "set (directDependents (recomputeDependents ho r) n) =
        {d. isKnown (recomputeDependents ho r) d \<and> n \<in> set (directDependencies (recomputeDependents ho r) d)}"
      "distinct (moduleOptionalDependents (recomputeDependents ho r) n)"
      "set (moduleOptionalDependents (recomputeDependents ho r) n) =
        {d. isKnown (recomputeDependents ho r) d \<and> n \<in> set (moduleOptionalDependencies (recomputeDependents ho r) d)}"
      using ho by (auto simp: directDependents_def moduleOptionalDependents_def find_recompute [OF assms] i
          recompute_frames [OF assms])
  qed (use assms in simp)
qed

section \<open>Operations and the reverse edges\<close>

definition keeps_edges :: "(ModuleInfo \<Rightarrow> ModuleInfo) \<Rightarrow> bool" where
  "keeps_edges f \<longleftrightarrow> (\<forall>i. dependencies (f i) = dependencies i \<and> dependents (f i) = dependents i
     \<and> optionalDependencies (f i) = optionalDependencies i \<and> optionalDependents (f i) = optionalDependents i)"

lemma reverse_ok_cong:
  assumes "reverse_ok r" and "registry_ok r'" and "\<And>n. isKnown r' n = isKnown r n"
    and "\<And>n. directDependencies r' n = directDependencies r n"
    and "\<And>n. moduleOptionalDependencies r' n = moduleOptionalDependencies r n"
    and "\<And>n. directDependents r' n = directDependents r n"
    and "\<And>n. moduleOptionalDependents r' n = moduleOptionalDependents r n"
  shows "reverse_ok r'"
  using assms unfolding reverse_ok_def by simp

lemma edges_adjust:
  assumes "keeps_edges f"
  shows "directDependencies (adjust name f r) n = directDependencies r n"
    "moduleOptionalDependencies (adjust name f r) n = moduleOptionalDependencies r n"
    "directDependents (adjust name f r) n = directDependents r n"
    "moduleOptionalDependents (adjust name f r) n = moduleOptionalDependents r n"
  using assms
  by (auto simp: keeps_edges_def directDependencies_def moduleDependencyEntries_def moduleOptionalDependencies_def
      moduleOptionalDependencyEntries_def directDependents_def moduleOptionalDependents_def lookup_simps
      split: option.split)

lemma reverse_ok_adjust: "reverse_ok r \<Longrightarrow> keeps_edges f \<Longrightarrow> reverse_ok (adjust name f r)"
  by (rule reverse_ok_cong)
     (auto simp: edges_adjust isKnown_def keys_adjust reverse_ok_def simp del: set_map)

lemma edges_upsert:
  assumes "keeps_edges f" and "isKnown r name"
  shows "directDependencies (upsert name f r) n = directDependencies r n"
    "moduleOptionalDependencies (upsert name f r) n = moduleOptionalDependencies r n"
    "directDependents (upsert name f r) n = directDependents r n"
    "moduleOptionalDependents (upsert name f r) n = moduleOptionalDependents r n"
  using assms
  by (auto simp: isKnown_find keeps_edges_def directDependencies_def moduleDependencyEntries_def
      moduleOptionalDependencies_def moduleOptionalDependencyEntries_def directDependents_def
      moduleOptionalDependents_def lookup_simps split: option.split)

lemma reverse_ok_upsert:
  assumes "reverse_ok r" and "keeps_edges f" and "isKnown r name"
  shows "reverse_ok (upsert name f r)"
proof (rule reverse_ok_cong [OF assms(1)])
  show "isKnown (upsert name f r) n = isKnown r n" for n
    using assms(3) by (auto simp: isKnown_find lookup_simps)
qed (use assms in \<open>simp_all add: edges_upsert reverse_ok_def\<close>)

lemma reverse_ok_clearLoaded: "reverse_ok r \<Longrightarrow> reverse_ok (clearLoaded r)"
  by (rule reverse_ok_cong)
     (auto simp: clearLoaded_def isKnown_find registry_ok_def reverse_ok_def directDependencies_def
      moduleDependencyEntries_def moduleOptionalDependencies_def moduleOptionalDependencyEntries_def
      directDependents_def moduleOptionalDependents_def split: option.split)

lemma registry_ok_processModuleInternal:
  "registry_ok r \<Longrightarrow> registry_ok (snd (processModuleInternal meta p t r))"
  by (auto simp: processModuleInternal_def Let_def split: option.split)

lemma registry_ok_scanPackage:
  "registry_ok r \<Longrightarrow> registry_ok (snd (scanPackage meta dump pkg r))"
  by (auto simp: scanPackage_def processManifestModuleInternal_def Let_def registry_ok_processModuleInternal)

lemma registry_ok_scanPackages:
  "registry_ok (snd st) \<Longrightarrow> registry_ok (snd (scanPackages meta dump pkgs st))"
proof (induction pkgs arbitrary: st)
  case (Cons pkg pkgs)
  obtain ns r where st: "st = (ns, r)" by (cases st)
  show ?case
    using Cons registry_ok_scanPackage [of r meta dump pkg] by (auto simp: st split: prod.split)
qed (cases st, simp)

lemma registry_ok_prune:
  "registry_ok (fst st) \<Longrightarrow> registry_ok (fst (fold pruneModule names st))"
  by (rule fold_invariant [where P = "\<lambda>st. registry_ok (fst st)"])
     (auto simp: pruneModule_def registry_ok_def split: prod.split)

lemma reverse_ok_discover:
  assumes "hash_order ho" and "registry_ok r"
  shows "reverse_ok (fst (discoverInstalledModules ho meta dump scan (r, ob)))"
proof -
  obtain names r1 where s: "scanPackages meta dump (scan (m_modulesDirs r)) ([], r) = (names, r1)"
    by (cases "scanPackages meta dump (scan (m_modulesDirs r)) ([], r)")
  have "registry_ok r1"
    using registry_ok_scanPackages [of "([], r)" meta dump "scan (m_modulesDirs r)"] assms(2) s by simp
  obtain r2 ob2 where f: "fold pruneModule (toRemove ho names r1) (r1, ob) = (r2, ob2)"
    by (cases "fold pruneModule (toRemove ho names r1) (r1, ob)")
  have "registry_ok r2"
    using registry_ok_prune [of "(r1, ob)" "toRemove ho names r1"] \<open>registry_ok r1\<close> f by simp
  then show ?thesis
    using reverse_ok_recompute [OF assms(1)] by (simp add: discoverInstalledModules_def Let_def s f)
qed

text \<open>The member functions as steps, with the outside world of one call as their arguments.\<close>

datatype registry_op =
    Discover "string \<Rightarrow> PluginMetadata option" "json \<Rightarrow> string" "string list \<Rightarrow> InstalledPackage list"
  | ProcessModule "string \<Rightarrow> PluginMetadata option" string
  | AddEmbedded "string \<Rightarrow> json option" "json \<Rightarrow> string" "string \<Rightarrow> bool" string string
  | RegisterModule string string "string list"
  | RegisterDependencyEntries string "ModuleDependency list"
  | RegisterDependencies string "string list"
  | RegisterOptionalDependencies string "string list"
  | RegisterModuleVersion string string
  | MarkLoaded int string
  | MarkLoadedBy int string "nat option" LoadedModuleHandle
  | MarkUnloaded string
  | BeginPublishWatch string
  | MarkPublished int string "64 word"
  | ClearLoaded
  | Clear

fun registry_step :: "hash_iter \<Rightarrow> registry_op \<Rightarrow> registry \<times> observer \<Rightarrow> registry \<times> observer" where
  "registry_step ho (Discover meta dump scan) st = discoverInstalledModules ho meta dump scan st"
| "registry_step ho (ProcessModule meta p) st = snd (processModule ho meta p st)"
| "registry_step ho (AddEmbedded parse dump isFile m p) st = snd (addEmbeddedBareModule ho parse dump isFile m p st)"
| "registry_step ho (RegisterModule n p ds) (r, ob) = (registerModule ho n p ds r, ob)"
| "registry_step ho (RegisterDependencyEntries n ds) (r, ob) = (registerDependencyEntries ho n ds r, ob)"
| "registry_step ho (RegisterDependencies n ds) (r, ob) = (registerDependencies ho n ds r, ob)"
| "registry_step ho (RegisterOptionalDependencies n ds) (r, ob) = (registerOptionalDependencies ho n ds r, ob)"
| "registry_step ho (RegisterModuleVersion n v) (r, ob) = (registerModuleVersion n v r, ob)"
| "registry_step ho (MarkLoaded t n) (r, ob) = (markLoaded t n r, ob)"
| "registry_step ho (MarkLoadedBy t n l h) (r, ob) = (markLoadedBy t n l h r, ob)"
| "registry_step ho (MarkUnloaded n) (r, ob) = (markUnloaded n r, ob)"
| "registry_step ho (BeginPublishWatch n) (r, ob) = (beginPublishWatch n r, ob)"
| "registry_step ho (MarkPublished t n e) (r, ob) = (snd (markPublished t n e r), ob)"
| "registry_step ho ClearLoaded (r, ob) = (clearLoaded r, ob)"
| "registry_step ho Clear (r, ob) = (clearRegistry r, ob)"

text \<open>The calls that may leave the reverse edges behind: a version or load mark that creates its
  entry, and a manifest whose accessors throw halfway.\<close>

fun edges_followed :: "hash_iter \<Rightarrow> registry_op \<Rightarrow> registry \<times> observer \<Rightarrow> bool" where
  "edges_followed ho (RegisterModuleVersion n v) (r, ob) = isKnown r n"
| "edges_followed ho (MarkLoaded t n) (r, ob) = isKnown r n"
| "edges_followed ho (MarkLoadedBy t n l h) (r, ob) = isKnown r n"
| "edges_followed ho (AddEmbedded parse dump isFile m p) st =
     (case fst (addEmbeddedBareModule ho parse dump isFile m p st) of Inl _ \<Rightarrow> False | Inr _ \<Rightarrow> True)"
| "edges_followed ho op st = True"

lemma reverse_ok_addEmbedded:
  assumes "hash_order ho" and "reverse_ok r"
    and "fst (addEmbeddedBareModule ho parse dump isFile m p (r, ob)) = Inr name"
  shows "reverse_ok (fst (snd (addEmbeddedBareModule ho parse dump isFile m p (r, ob))))"
proof -
  have "registry_ok r" using assms(2) by (simp add: reverse_ok_def)
  then show ?thesis
    using assms(2,3) reverse_ok_recompute [OF assms(1)]
    by (auto simp: addEmbeddedBareModule_def Let_def split: option.splits sum.splits if_splits prod.splits)
qed

lemma keeps_edges_simps:
  "keeps_edges (\<lambda>i. i\<lparr>version := v\<rparr>)"
  "keeps_edges (stampLoaded t)"
  "keeps_edges (\<lambda>i. (stampLoaded t i)\<lparr>loader := l, handle := h\<rparr>)"
  "keeps_edges (\<lambda>i. i\<lparr>loaded := False, loadedAt := 0, published := None, publishedAt := 0\<rparr>)"
  "keeps_edges (\<lambda>i. if published i = None then i\<lparr>published := Some False\<rparr> else i)"
  "keeps_edges (\<lambda>i. i\<lparr>published := Some True, publishedAt := t\<rparr>)"
  by (simp_all add: keeps_edges_def stampLoaded_def)

text \<open>
  C34. The reverse edges stay exactly the inverted forward edges, required and optional, under every
  member function of the registry, except for a version or load mark on a name that is not
  registered and a manifest that throws.
\<close>

theorem reverse_edges_consistent:
  assumes "hash_order ho" and "reverse_ok (fst st)" and "edges_followed ho op st"
  shows "reverse_ok (fst (registry_step ho op st))"
proof -
  obtain r ob where st: "st = (r, ob)" by (cases st)
  have r: "reverse_ok r" "registry_ok r" using assms(2) by (simp_all add: st reverse_ok_def)
  note rec = reverse_ok_recompute [OF assms(1)]
  note edge = reverse_ok_upsert [OF r(1)] reverse_ok_adjust [OF r(1)] keeps_edges_simps
  show ?thesis
  proof (cases op)
    case (Discover meta dump scan)
    then show ?thesis using reverse_ok_discover [OF assms(1) r(2)] by (simp add: st)
  next
    case (ProcessModule meta p)
    obtain name r1 where p: "processModuleInternal meta p [] r = (name, r1)"
      by (cases "processModuleInternal meta p [] r")
    have "registry_ok r1" using registry_ok_processModuleInternal [OF r(2), of meta p "[]"] p by simp
    then show ?thesis using rec by (simp add: ProcessModule st processModule_def Let_def p)
  next
    case (AddEmbedded parse dump isFile m p)
    show ?thesis
      using reverse_ok_addEmbedded [OF assms(1) r(1)] assms(3) by (auto simp: AddEmbedded st split: sum.splits)
  next
    case Clear
    then show ?thesis
      by (simp add: st clearRegistry_def reverse_ok_def registry_ok_def isKnown_def)
  next
    case (MarkPublished t n e)
    then show ?thesis using edge r by (auto simp: st markPublished_def split: option.split)
  qed (use assms(3) rec edge r in \<open>auto simp: st registerModule_def registerDependencyEntries_def
      registerDependencies_def registerOptionalDependencies_def registerModuleVersion_def markLoaded_def
      markLoadedBy_def markUnloaded_def beginPublishWatch_def reverse_ok_clearLoaded\<close>)
qed

theorem reverse_edges_consistent_witness:
  "reverse_ok (fst (registry_step rev (RegisterModule ''a'' ''/a.so'' [''b'']) (emptyRegistry, new_observer)))"
  by (rule reverse_edges_consistent [OF hash_order_rev])
     (simp_all add: reverse_ok_def registry_ok_def emptyRegistry_def isKnown_def)

lemma missing_reverse_edge:
  "isKnown r a \<Longrightarrow> isKnown r b \<Longrightarrow> b \<in> set (directDependencies r a) \<Longrightarrow> a \<notin> set (directDependents r b) \<Longrightarrow>
   \<not> reverse_ok r"
  by (auto simp: reverse_ok_def)

text \<open>
  The two entry points outside the invariant break it: after \<open>a\<close> is registered as depending on \<open>b\<close>,
  marking the unknown \<open>b\<close> loaded makes it known without the reverse edge, and so does giving it a
  version.
\<close>

theorem reverse_edges_gap:
  "\<not> reverse_ok (markLoaded 7 ''b'' (registerDependencies (\<lambda>xs. xs) ''a'' [''b''] emptyRegistry))
   \<and> \<not> reverse_ok (registerModuleVersion ''b'' ''1.0'' (registerDependencies (\<lambda>xs. xs) ''a'' [''b''] emptyRegistry))
   \<and> reverse_ok (registerDependencies (\<lambda>xs. xs) ''a'' [''b''] emptyRegistry)"
proof (intro conjI)
  let ?r = "registerDependencies (\<lambda>xs. xs) ''a'' [''b''] emptyRegistry"
  show "\<not> reverse_ok (markLoaded 7 ''b'' ?r)"
    by (rule missing_reverse_edge [of _ "''a''" "''b''"]) code_simp+
  show "\<not> reverse_ok (registerModuleVersion ''b'' ''1.0'' ?r)"
    by (rule missing_reverse_edge [of _ "''a''" "''b''"]) code_simp+
  show "reverse_ok ?r"
    unfolding registerDependencies_def
    by (rule reverse_ok_recompute [OF hash_order_id]) (simp add: registry_ok_def emptyRegistry_def upsert_def umap_ok_def)
qed

section \<open>Transitive accessors\<close>

definition succ_rel :: "(string \<Rightarrow> string list) \<Rightarrow> (string \<times> string) set" where
  "succ_rel succ = {(m, d). d \<in> set (succ m)}"

lemma reaches_trancl:
  "reaches (\<lambda>n. n \<noteq> name) succ (set (succ name)) n \<longleftrightarrow> n \<noteq> name \<and> (name, n) \<in> (succ_rel succ)\<^sup>+"
proof
  assume "reaches (\<lambda>n. n \<noteq> name) succ (set (succ name)) n"
  then show "n \<noteq> name \<and> (name, n) \<in> (succ_rel succ)\<^sup>+"
  proof (induction rule: reaches.induct)
    case (root n)
    then show ?case by (auto simp: succ_rel_def)
  next
    case (edge m n)
    then have "(m, n) \<in> succ_rel succ" by (simp add: succ_rel_def)
    with edge show ?case by (metis trancl.trancl_into_trancl)
  qed
next
  assume n: "n \<noteq> name \<and> (name, n) \<in> (succ_rel succ)\<^sup>+"
  have "n = name \<or> reaches (\<lambda>n. n \<noteq> name) succ (set (succ name)) n"
    using conjunct2 [OF n]
  proof (induction rule: trancl_induct)
    case (base y)
    then show ?case by (auto simp: succ_rel_def intro: reaches.root)
  next
    case (step y z)
    then show ?case by (auto simp: succ_rel_def intro: reaches.intros)
  qed
  with n show "reaches (\<lambda>n. n \<noteq> name) succ (set (succ name)) n" by simp
qed

lemma walk_closure:
  assumes "finite (\<Union>m. set (succ m))"
  shows "\<exists>out. walk succ name = Some out \<and> distinct out \<and> set out = {n. n \<noteq> name \<and> (name, n) \<in> (succ_rel succ)\<^sup>+}"
proof -
  have "\<exists>t. search_loop [name] (\<lambda>_. True) succ (succ name) = Some t"
    by (rule search_loops_total(1) [OF assms]) auto
  then obtain t where t: "search_loop [name] (\<lambda>_. True) succ (succ name) = Some t" by blast
  from search_loop_result [OF t t] show ?thesis
    by (auto simp: walk_def t reaches_trancl [symmetric])
qed

lemma edge_source_known:
  "d \<in> set (directDependencies r n) \<Longrightarrow> isKnown r n"
  "d \<in> set (directDependents r n) \<Longrightarrow> isKnown r n"
  by (cases "find_module r n";
      simp add: isKnown_find directDependencies_def moduleDependencyEntries_def dependencyNames_def directDependents_def)+

lemma finite_edges:
  "finite (\<Union>m. set (directDependencies r m))" "finite (\<Union>m. set (directDependents r m))"
proof -
  have "(\<Union>m. set (directDependencies r m)) \<subseteq> (\<Union>m \<in> {n. isKnown r n}. set (directDependencies r m))"
    using edge_source_known(1) by fastforce
  then show "finite (\<Union>m. set (directDependencies r m))"
    by (rule finite_subset) (simp add: finite_isKnown)
  have "(\<Union>m. set (directDependents r m)) \<subseteq> (\<Union>m \<in> {n. isKnown r n}. set (directDependents r m))"
    using edge_source_known(2) by fastforce
  then show "finite (\<Union>m. set (directDependents r m))"
    by (rule finite_subset) (simp add: finite_isKnown)
qed

text \<open>
  The recursive accessors always return, and what they return is the transitive closure of the
  edges from the module, each name once and the module itself never, cycles and diamonds included.
\<close>

theorem recursive_accessors_closure:
  "(\<exists>out. moduleDependencies r name True = Some out \<and> distinct out \<and>
      set out = {n. isKnown r name \<and> n \<noteq> name \<and> (name, n) \<in> (succ_rel (directDependencies r))\<^sup>+})
   \<and> (\<exists>out. moduleDependents r name True = Some out \<and> distinct out \<and>
      set out = {n. isKnown r name \<and> n \<noteq> name \<and> (name, n) \<in> (succ_rel (directDependents r))\<^sup>+})"
  using walk_closure [OF finite_edges(1), of r name] walk_closure [OF finite_edges(2), of r name]
  by (auto simp: moduleDependencies_def moduleDependents_def isKnown_def simp del: set_map)

lemma succ_rel_mono_known:
  assumes "reverse_ok r" and "(n, d) \<in> (succ_rel (directDependencies r))\<^sup>+" and "isKnown r d"
  shows "isKnown r n \<and> (d, n) \<in> (succ_rel (directDependents r))\<^sup>+"
  using assms(2,3)
proof (induction rule: converse_trancl_induct)
  case (base y)
  then have "isKnown r y" using edge_source_known by (auto simp: succ_rel_def)
  with base assms(1) show ?case by (auto simp: reverse_ok_def succ_rel_def)
next
  case (step y z)
  then have "isKnown r y" using edge_source_known by (auto simp: succ_rel_def)
  with step assms(1) have "(z, y) \<in> succ_rel (directDependents r)" by (auto simp: reverse_ok_def succ_rel_def)
  with step \<open>isKnown r y\<close> show ?case by (metis trancl.trancl_into_trancl)
qed

lemma succ_rel_converse:
  assumes "reverse_ok r" and "(d, n) \<in> (succ_rel (directDependents r))\<^sup>+"
  shows "(n, d) \<in> (succ_rel (directDependencies r))\<^sup>+"
  using assms(2)
proof (induction rule: trancl_induct)
  case (base y)
  then have "isKnown r d" using edge_source_known by (auto simp: succ_rel_def)
  with base assms(1) show ?case by (auto simp: reverse_ok_def succ_rel_def)
next
  case (step y z)
  then have "isKnown r y" using edge_source_known by (auto simp: succ_rel_def)
  with step assms(1) have "(z, y) \<in> succ_rel (directDependencies r)" by (auto simp: reverse_ok_def succ_rel_def)
  with step show ?case by (metis trancl_into_trancl2)
qed

text \<open>
  Teardown and loading look at the same graph: where the reverse edges are consistent, a known
  module is among the transitive dependencies of another exactly when the other is among its
  transitive dependents.
\<close>

theorem dependents_dual:
  assumes "reverse_ok r" and "isKnown r a" and "isKnown r b"
  shows "\<exists>deps rdeps. moduleDependencies r a True = Some deps \<and> moduleDependents r b True = Some rdeps
    \<and> (b \<in> set deps \<longleftrightarrow> a \<in> set rdeps)"
proof -
  obtain deps where deps: "moduleDependencies r a True = Some deps"
    "set deps = {n. n \<noteq> a \<and> (a, n) \<in> (succ_rel (directDependencies r))\<^sup>+}"
    using walk_closure [OF finite_edges(1), of r a] assms(2)
    by (auto simp: moduleDependencies_def isKnown_def simp del: set_map)
  obtain rdeps where rdeps: "moduleDependents r b True = Some rdeps"
    "set rdeps = {n. n \<noteq> b \<and> (b, n) \<in> (succ_rel (directDependents r))\<^sup>+}"
    using walk_closure [OF finite_edges(2), of r b] assms(3)
    by (auto simp: moduleDependents_def isKnown_def simp del: set_map)
  have "b \<in> set deps \<longleftrightarrow> a \<in> set rdeps"
    using succ_rel_mono_known [OF assms(1)] succ_rel_converse [OF assms(1)] assms(3)
    by (auto simp: deps(2) rdeps(2))
  with deps(1) rdeps(1) show ?thesis by blast
qed

theorem dependents_dual_witness:
  "\<exists>deps rdeps. moduleDependencies (registerDependencies rev ''b'' [] (registerDependencies rev ''a'' [''b''] emptyRegistry)) ''a'' True = Some deps
    \<and> moduleDependents (registerDependencies rev ''b'' [] (registerDependencies rev ''a'' [''b''] emptyRegistry)) ''b'' True = Some rdeps
    \<and> (''b'' \<in> set deps \<longleftrightarrow> ''a'' \<in> set rdeps)"
proof (rule dependents_dual)
  let ?r = "registerDependencies rev ''a'' [''b''] emptyRegistry"
  have "registry_ok ?r" by (simp add: registerDependencies_def) (simp add: registry_ok_def emptyRegistry_def upsert_def umap_ok_def)
  then show "reverse_ok (registerDependencies rev ''b'' [] ?r)"
    unfolding registerDependencies_def [of _ "''b''"]
    by (intro reverse_ok_recompute [OF hash_order_rev]) simp
qed (simp_all add: isKnown_def registerDependencies_def lookup_simps del: set_map)

section \<open>The graph the resolver walks\<close>

interpretation known: known_modules "isKnown r" "directDependencies r" for r
  by unfold_locales (rule finite_isKnown)

end
