(* ===== verification/RegistryLifecycle.thy ===== *)
theory RegistryLifecycle
  imports RegistryGraph
begin

text \<open>
  What the registry promises about membership, identity, load state and readiness: which modules are
  known after a scan and what the scan reports, that every name that enters through a scan, a plugin
  path or a manifest is a safe path segment, when the load stamp and the readiness flag are valid.
\<close>

section \<open>One package\<close>

text \<open>The packages a scan admits, by specification: they register under the package's own name, and
  a Qt plugin only where the name embedded in it agrees.\<close>

definition admitted :: "(string \<Rightarrow> PluginMetadata option) \<Rightarrow> InstalledPackage \<Rightarrow> bool" where
  "admitted meta pkg \<longleftrightarrow>
     isValidModuleName (pkg_name pkg) \<and> mainFilePath pkg \<noteq> []
   \<and> (looksLikeWebModule (mainFilePath pkg)
      \<or> (pkg_type pkg = [] \<or> pkg_type pkg = ''core'')
        \<and> (looksLikeBareModule (mainFilePath pkg)
           \<or> (case meta (mainFilePath pkg) of None \<Rightarrow> False | Some md \<Rightarrow> md_valid md \<and> md_name md = pkg_name pkg)))"

lemma valid_not_Nil [simp]: "\<not> isValidModuleName []"
  by (simp add: isValidModuleName_def)

lemma scanPackage_name:
  "fst (scanPackage meta dump pkg r) = (if admitted meta pkg then pkg_name pkg else [])"
  by (auto simp: scanPackage_def admitted_def processManifestModuleInternal_def processModuleInternal_def
      Let_def split: option.splits)

lemma find_scanPackage:
  "find_module (snd (scanPackage meta dump pkg r)) n =
     (if admitted meta pkg \<and> n = pkg_name pkg then find_module (snd (scanPackage meta dump pkg r)) n
      else find_module r n)"
  by (auto simp: scanPackage_def admitted_def processManifestModuleInternal_def processModuleInternal_def
      Let_def lookup_simps split: option.splits)

text \<open>What an upsert keeps of an entry: the load state and the embedded mark.\<close>

definition life :: "ModuleInfo \<Rightarrow> bool \<times> int \<times> bool option \<times> 64 word \<times> bool \<times> nat option \<times> LoadedModuleHandle" where
  "life i = (loaded i, loadedAt i, published i, epoch i, embedded i, loader i, handle i)"

definition life_of :: "registry \<Rightarrow> string \<Rightarrow> bool \<times> int \<times> bool option \<times> 64 word \<times> bool \<times> nat option \<times> LoadedModuleHandle" where
  "life_of r n = (case find_module r n of None \<Rightarrow> life newModuleInfo | Some i \<Rightarrow> life i)"

lemma life_scanPackage: "life_of (snd (scanPackage meta dump pkg r)) n = life_of r n"
  by (auto simp: life_of_def life_def scanPackage_def processManifestModuleInternal_def processModuleInternal_def
      Let_def lookup_simps split: option.splits)

lemma known_scanPackage:
  "isKnown (snd (scanPackage meta dump pkg r)) n \<longleftrightarrow> isKnown r n \<or> admitted meta pkg \<and> n = pkg_name pkg"
  by (auto simp: isKnown_find scanPackage_def admitted_def processManifestModuleInternal_def
      processModuleInternal_def Let_def lookup_simps split: option.splits)

lemma scanPackages_result:
  assumes "scanPackages meta dump pkgs (names, r) = (names', r')" and "distinct names"
  shows "distinct names' \<and> set names' = set names \<union> {pkg_name p | p. p \<in> set pkgs \<and> admitted meta p}
    \<and> (\<forall>n. isKnown r' n \<longleftrightarrow> isKnown r n \<or> (\<exists>p \<in> set pkgs. admitted meta p \<and> pkg_name p = n))
    \<and> (\<forall>n. life_of r' n = life_of r n)"
  using assms
proof (induction pkgs arbitrary: names r)
  case Nil
  then show ?case by auto
next
  case (Cons p pkgs)
  let ?s = "scanPackage meta dump p r"
  let ?names = "if fst ?s = [] then names else uset_insert (fst ?s) names"
  have rest: "scanPackages meta dump pkgs (?names, snd ?s) = (names', r')"
    using Cons.prems(1) by (auto simp: Let_def split: prod.splits if_splits)
  have "distinct ?names" using Cons.prems(2) by simp
  note IH = Cons.IH [OF rest this]
  have ne: "admitted meta p \<Longrightarrow> pkg_name p \<noteq> []"
    by (auto simp: admitted_def)
  have names: "set ?names = set names \<union> (if admitted meta p then {pkg_name p} else {})"
    using ne by (auto simp: scanPackage_name)
  show ?case
    using IH unfolding names known_scanPackage life_scanPackage by auto
qed

section \<open>A scan\<close>

lemma fold_prune:
  "fold pruneModule names (r, ob) =
     (r\<lparr>m_modules := fold AList.delete names (m_modules r)\<rparr>,
      fold (\<lambda>n. record_transition n kUnloaded kAbsent None None (Some ''module files are no longer on disk'')) names ob)"
  by (induction names arbitrary: r ob) (simp_all add: pruneModule_def)

lemma map_of_fold_delete: "map_of (fold AList.delete names m) n = (if n \<in> set names then None else map_of m n)"
  by (induction names arbitrary: m) auto

lemma recompute_life: "hash_order ho \<Longrightarrow> registry_ok r \<Longrightarrow> life_of (recomputeDependents ho r) n = life_of r n"
  by (simp add: life_of_def find_recompute life_def split: option.split)

text \<open>The registry a scan leaves, in terms of what it admitted.\<close>

lemma discover_registry:
  assumes "hash_order ho" and "registry_ok r" and "discoverInstalledModules ho meta dump scan (r, ob) = (r', ob')"
  shows "isKnown r' n \<longleftrightarrow> (\<exists>p \<in> set (scan (m_modulesDirs r)). admitted meta p \<and> pkg_name p = n)
      \<or> (\<exists>i. find_module r n = Some i \<and> (loaded i \<or> embedded i))"
    and "isKnown r' n \<Longrightarrow> life_of r' n = life_of r n"
    and "registry_ok r'"
proof -
  let ?pkgs = "scan (m_modulesDirs r)"
  obtain names r1 where s: "scanPackages meta dump ?pkgs ([], r) = (names, r1)"
    by (cases "scanPackages meta dump ?pkgs ([], r)")
  from scanPackages_result [OF s] have
    names: "m \<in> set names \<longleftrightarrow> (\<exists>p \<in> set ?pkgs. admitted meta p \<and> pkg_name p = m)" and
    known1: "isKnown r1 m \<longleftrightarrow> isKnown r m \<or> (\<exists>p \<in> set ?pkgs. admitted meta p \<and> pkg_name p = m)" and
    life1: "life_of r1 m = life_of r m" for m
    by auto
  have ok1: "registry_ok r1" using registry_ok_scanPackages [of "([], r)" meta dump ?pkgs] assms(2) s by simp
  let ?gone = "toRemove ho names r1"
  let ?r2 = "r1\<lparr>m_modules := fold AList.delete ?gone (m_modules r1)\<rparr>"
  have r': "r' = recomputeDependents ho ?r2"
    using assms(3) by (simp add: discoverInstalledModules_def Let_def s fold_prune)
  have ok2: "registry_ok ?r2"
    using registry_ok_prune [of "(r1, ob)" ?gone] ok1 by (simp add: fold_prune)
  have gone: "m \<in> set ?gone \<longleftrightarrow> (\<exists>i. find_module r1 m = Some i \<and> m \<notin> set names \<and> \<not> loaded i \<and> \<not> embedded i)" for m
  proof (cases "find_module r1 m")
    case None
    then show ?thesis by (simp add: toRemove_def)
  next
    case (Some i)
    then have "m \<in> set (ho (keys (m_modules r1)))"
      using hash_orderD(2) [OF assms(1)] ok1 map_of_Some_key [OF Some]
      by (simp add: registry_ok_def umap_ok_def del: set_map)
    then show ?thesis using Some by (simp add: toRemove_def)
  qed
  have find2: "find_module ?r2 m = (if m \<in> set ?gone then None else find_module r1 m)" for m
    by (simp add: map_of_fold_delete)
  have flags: "loaded i = loaded j \<and> embedded i = embedded j"
    if "find_module r1 m = Some i" "find_module r m = Some j" for m i j
    using life1 [of m] that by (auto simp: life_of_def life_def)
  have fresh: "\<not> loaded i \<and> \<not> embedded i" if "find_module r1 m = Some i" "find_module r m = None" for m i
    using life1 [of m] that by (auto simp: life_of_def life_def newModuleInfo_def)
  have known: "isKnown r' m \<longleftrightarrow> isKnown r1 m \<and> m \<notin> set ?gone" for m
    unfolding r' recompute_frames(4) [OF assms(1) ok2] by (simp add: isKnown_find map_of_fold_delete)
  show "isKnown r' n \<longleftrightarrow> (\<exists>p \<in> set ?pkgs. admitted meta p \<and> pkg_name p = n)
      \<or> (\<exists>i. find_module r n = Some i \<and> (loaded i \<or> embedded i))"
  proof (cases "n \<in> set names")
    case True
    then show ?thesis using names [of n] known1 [of n] known [of n] gone [of n] by auto
  next
    case False
    then have "isKnown r1 n \<longleftrightarrow> isKnown r n" using known1 [of n] names [of n] by blast
    with False show ?thesis
      using known [of n] gone [of n] names [of n] flags [of n] by (auto simp: isKnown_find)
  qed
  show "life_of r' n = life_of r n" if "isKnown r' n"
  proof -
    have "n \<notin> set ?gone" using that known by simp
    then have "life_of ?r2 n = life_of r1 n" by (simp add: life_of_def map_of_fold_delete)
    then show ?thesis using life1 recompute_life [OF assms(1) ok2] by (simp add: r')
  qed
  show "registry_ok r'" using ok2 by (simp add: r')
qed

text \<open>What a scan reports: the edges it appends to the feed.\<close>

definition edge_of :: "ModuleTransition \<Rightarrow> string \<times> string \<times> string" where
  "edge_of t = (t_module t, oldState t, newState t)"

lemma feed_fold_record:
  assumes "m_sink ob \<noteq> None" and "old \<noteq> []" and "new \<noteq> []" and "old \<noteq> new" and "[] \<notin> set names"
  shows "map edge_of (feed (fold (\<lambda>n. record_transition n old new None None reason) names ob)) =
      map edge_of (feed ob) @ map (\<lambda>n. (n, old, new)) names
    \<and> m_sink (fold (\<lambda>n. record_transition n old new None None reason) names ob) = m_sink ob"
  using assms(1,5)
proof (induction names arbitrary: ob)
  case (Cons n names)
  let ?ob = "record_transition n old new None None reason ob"
  have "m_sink ?ob = m_sink ob" by (simp add: step_sink)
  moreover have "map edge_of (feed ?ob) = map edge_of (feed ob) @ [(n, old, new)]"
    using Cons.prems assms(2-4) by (auto simp: feed_record edge_of_def)
  ultimately show ?case using Cons.IH [of ?ob] Cons.prems by simp
qed simp

lemma fold_record_new:
  "fold (\<lambda>name ob. if name \<in> K then ob else record_transition name old new None None reason ob) names ob =
   fold (\<lambda>n. record_transition n old new None None reason) (filter (\<lambda>n. n \<notin> K) names) ob"
  by (induction names arbitrary: ob) auto

lemma discover_feed:
  assumes "hash_order ho" and "registry_ok r" and "hasSink ob" and "\<not> isKnown r []"
    and d: "discoverInstalledModules ho meta dump scan (r, ob) = (r', ob')"
  shows "\<exists>gone new. map edge_of (feed ob') = map edge_of (feed ob) @ map (\<lambda>n. (n, kUnloaded, kAbsent)) gone
       @ map (\<lambda>n. (n, kAbsent, kUnloaded)) new
     \<and> distinct gone \<and> set gone = {n. isKnown r n \<and> \<not> isKnown r' n}
     \<and> distinct new \<and> set new = {n. \<not> isKnown r n \<and> isKnown r' n}
     \<and> m_pending ob' = []"
proof -
  let ?pkgs = "scan (m_modulesDirs r)"
  obtain names r1 where s: "scanPackages meta dump ?pkgs ([], r) = (names, r1)"
    by (cases "scanPackages meta dump ?pkgs ([], r)")
  from scanPackages_result [OF s] have names_dist: "distinct names" and
    names: "m \<in> set names \<longleftrightarrow> (\<exists>p \<in> set ?pkgs. admitted meta p \<and> pkg_name p = m)" and
    known1: "isKnown r1 m \<longleftrightarrow> isKnown r m \<or> (\<exists>p \<in> set ?pkgs. admitted meta p \<and> pkg_name p = m)" for m
    by auto
  have ok1: "registry_ok r1" using registry_ok_scanPackages [of "([], r)" meta dump ?pkgs] assms(2) s by simp
  let ?gone = "toRemove ho names r1"
  let ?new = "filter (\<lambda>n. n \<notin> set (keys (m_modules r))) (ho names)"
  let ?reason = "Some ''module files are no longer on disk''"
  let ?ob1 = "fold (\<lambda>n. record_transition n kUnloaded kAbsent None None ?reason) ?gone ob"
  let ?ob2 = "fold (\<lambda>n. record_transition n kAbsent kUnloaded None None None) ?new ?ob1"
  have r': "r' = recomputeDependents ho (r1\<lparr>m_modules := fold AList.delete ?gone (m_modules r1)\<rparr>)"
    and ob': "ob' = flush ?ob2"
    using d assms(3) by (simp_all add: discoverInstalledModules_def Let_def s fold_prune fold_record_new)
  have ok2: "registry_ok (r1\<lparr>m_modules := fold AList.delete ?gone (m_modules r1)\<rparr>)"
    using registry_ok_prune [of "(r1, ob)" ?gone] ok1 by (simp add: fold_prune)
  have known: "isKnown r' m \<longleftrightarrow> isKnown r1 m \<and> m \<notin> set ?gone" for m
    unfolding r' recompute_frames(4) [OF assms(1) ok2] by (simp add: isKnown_find map_of_fold_delete)
  have ho: "distinct (ho (keys (m_modules r1)))" "set (ho (keys (m_modules r1))) = {n. isKnown r1 n}"
    "distinct (ho names)" "set (ho names) = set names"
    using hash_orderD [OF assms(1)] ok1 names_dist by (auto simp: registry_ok_def umap_ok_def isKnown_def)
  have gone_known: "m \<in> set ?gone \<Longrightarrow> isKnown r1 m \<and> m \<notin> set names" for m
    using ho(2) by (auto simp: toRemove_def split: option.splits)
  have new_set: "set ?new = {n. \<not> isKnown r n \<and> isKnown r' n}"
  proof (rule set_eqI)
    fix m
    have "m \<in> set ?new \<longleftrightarrow> \<not> isKnown r m \<and> m \<in> set names"
      using ho(4) by (auto simp: isKnown_def simp del: set_map)
    also have "\<dots> \<longleftrightarrow> \<not> isKnown r m \<and> isKnown r' m"
      using known [of m] known1 [of m] names [of m] gone_known [of m] by blast
    finally show "m \<in> set ?new \<longleftrightarrow> m \<in> {n. \<not> isKnown r n \<and> isKnown r' n}" by simp
  qed
  have gone_set: "set ?gone = {n. isKnown r n \<and> \<not> isKnown r' n}"
    using known known1 names gone_known by blast
  have "[] \<notin> set ?gone" using gone_set assms(4) by blast
  moreover have "[] \<notin> set ?new" using ho(4) names by (auto simp: admitted_def)
  moreover have "m_sink ob \<noteq> None" using assms(3) by (simp add: hasSink_def)
  ultimately have f: "map edge_of (feed ?ob1) = map edge_of (feed ob) @ map (\<lambda>n. (n, kUnloaded, kAbsent)) ?gone"
      "m_sink ?ob1 = m_sink ob"
      "map edge_of (feed ?ob2) = map edge_of (feed ?ob1) @ map (\<lambda>n. (n, kAbsent, kUnloaded)) ?new"
      "m_sink ?ob2 = m_sink ?ob1"
    using feed_fold_record [of ob kUnloaded kAbsent ?gone ?reason]
      feed_fold_record [of ?ob1 kAbsent kUnloaded ?new None] by (simp_all add: module_states)
  have "m_pending ob' = []"
    using f(2,4) assms(3) by (auto simp: ob' flush_def hasSink_def split: option.splits)
  moreover have "distinct ?gone" using ho(1) by (simp add: toRemove_def)
  moreover have "distinct ?new" using ho(3) by simp
  ultimately show ?thesis
    using f(1,3) gone_set new_set
    by (intro exI [of _ ?gone] exI [of _ ?new]) (simp add: ob' frame_simps)
qed

section \<open>Properties\<close>

text \<open>
  C36. A scan binds identity to the package: afterwards a module is known exactly when an admitted
  package carries its name (a valid name; a plugin whose embedded name disagrees is not admitted; a
  package that is not a core module only as a page) or it was known and is loaded or embedded; what
  stays known keeps its load state, epoch, loader and handle.
\<close>

theorem discovery_membership:
  assumes "hash_order ho" and "registry_ok r" and "discoverInstalledModules ho meta dump scan (r, ob) = (r', ob')"
  shows "(isKnown r' n \<longleftrightarrow> (\<exists>p \<in> set (scan (m_modulesDirs r)). admitted meta p \<and> pkg_name p = n)
      \<or> (\<exists>i. find_module r n = Some i \<and> (loaded i \<or> embedded i)))
    \<and> (isKnown r' n \<longrightarrow> life_of r' n = life_of r n)"
  using discover_registry [OF assms] by blast

text \<open>
  A scan reports membership exactly: with a consumer installed it appends one \<open>unloaded -> absent\<close>
  for every name that left and then one \<open>absent -> unloaded\<close> for every name that entered, nothing
  else, and delivers them before it returns.
\<close>

theorem discovery_reports:
  assumes "hash_order ho" and "registry_ok r" and "hasSink ob" and "\<not> isKnown r []"
    and "discoverInstalledModules ho meta dump scan (r, ob) = (r', ob')"
  shows "\<exists>gone new. map edge_of (feed ob') = map edge_of (feed ob) @ map (\<lambda>n. (n, kUnloaded, kAbsent)) gone
       @ map (\<lambda>n. (n, kAbsent, kUnloaded)) new
     \<and> distinct gone \<and> set gone = {n. isKnown r n \<and> \<not> isKnown r' n}
     \<and> distinct new \<and> set new = {n. \<not> isKnown r n \<and> isKnown r' n}
     \<and> m_pending ob' = []"
  using discover_feed [OF assms] .

definition sample_package :: "string \<Rightarrow> string \<Rightarrow> InstalledPackage" where
  "sample_package name file = \<lparr>pkg_name = name, mainFilePath = file, pkg_type = ''core'', pkg_version = ''1.0'',
     description = [], author = [], category = [], pkg_dependencies = [], dependencyConstraints = [],
     pkg_optionalDependencies = []\<rparr>"

definition sample_scan :: "string list \<Rightarrow> registry \<times> observer" where
  "sample_scan names = discoverInstalledModules (\<lambda>xs. xs) (\<lambda>_. None) (\<lambda>_. [])
     (\<lambda>_. map (\<lambda>n. sample_package n (''/m/'' @ n @ ''_bare.so'')) names)
     (emptyRegistry, setSink (Some 1) new_observer)"

lemma sample_admitted: "admitted (\<lambda>_. None) (sample_package ''a'' ''/m/a_bare.so'')"
  by code_simp

theorem discovery_membership_witness:
  "isKnown (fst (sample_scan [''a''])) ''a'' \<and> life_of (fst (sample_scan [''a''])) ''a'' = life_of emptyRegistry ''a''"
  using discovery_membership [OF hash_order_id _ prod.collapse [symmetric], of emptyRegistry "\<lambda>_. None" "\<lambda>_. []"
      "\<lambda>_. map (\<lambda>n. sample_package n (''/m/'' @ n @ ''_bare.so'')) [''a'']" "setSink (Some 1) new_observer" "''a''"]
    sample_admitted
  by (simp add: sample_scan_def registry_ok_def sample_package_def) (simp add: emptyRegistry_def)

theorem discovery_reports_witness:
  "\<exists>gone new. map edge_of (feed (snd (sample_scan [''a'', ''b'']))) =
       map edge_of (feed (setSink (Some 1) new_observer)) @ map (\<lambda>n. (n, kUnloaded, kAbsent)) gone
       @ map (\<lambda>n. (n, kAbsent, kUnloaded)) new
     \<and> distinct gone \<and> set gone = {n. isKnown emptyRegistry n \<and> \<not> isKnown (fst (sample_scan [''a'', ''b''])) n}
     \<and> distinct new \<and> set new = {n. \<not> isKnown emptyRegistry n \<and> isKnown (fst (sample_scan [''a'', ''b''])) n}
     \<and> m_pending (snd (sample_scan [''a'', ''b''])) = []"
  unfolding sample_scan_def
  by (rule discovery_reports [OF hash_order_id _ _ _ prod.collapse [symmetric]])
     (simp_all add: registry_ok_def emptyRegistry_def hasSink_def setSink_def isKnown_def)

section \<open>Names\<close>

text \<open>A name that cannot leave its directory: one nonempty path segment that is not \<open>.\<close> or \<open>..\<close>.\<close>

definition safe_segment :: "string \<Rightarrow> bool" where
  "safe_segment n \<longleftrightarrow> n \<noteq> [] \<and> length n \<le> 64 \<and>
     set n \<inter> {CHR ''/'', CHR 0x5C, CHR ''.'', CHR '':'', CHR '' '', CHR 0x00} = {} \<and> path_filename n = n"

lemma valid_name_safe:
  assumes "isValidModuleName n"
  shows "safe_segment n"
proof -
  have nc: "nameChar c" if "c \<in> set n" for c
    using assms that by (auto simp: isValidModuleName_def list_all_iff split: if_splits)
  have bad: "\<not> nameChar (CHR ''/'')" "\<not> nameChar (CHR 0x5C)" "\<not> nameChar (CHR ''.'')"
    "\<not> nameChar (CHR '':'')" "\<not> nameChar (CHR '' '')" "\<not> nameChar (CHR 0x00)"
    by (simp_all add: nameChar_def)
  have no: "set n \<inter> {CHR ''/'', CHR 0x5C, CHR ''.'', CHR '':'', CHR '' '', CHR 0x00} = {}"
    using nc bad by blast
  then have "takeWhile (\<lambda>c. c \<noteq> CHR ''/'') (rev n) = rev n"
    by (auto simp: takeWhile_eq_all_conv)
  then have "path_filename n = n"
    unfolding path_filename_def by (simp only: rev_rev_ident)
  moreover have "n \<noteq> []" "length n \<le> 64"
    using assms by (auto simp add: isValidModuleName_def simp del: list_all_iff split: if_split_asm)
  ultimately show ?thesis using no unfolding safe_segment_def by blast
qed

text \<open>The names a host may use without an entry point having checked them.\<close>

fun names_given :: "registry_op \<Rightarrow> string list" where
  "names_given (RegisterModule n _ _) = [n]"
| "names_given (RegisterDependencyEntries n _) = [n]"
| "names_given (RegisterDependencies n _) = [n]"
| "names_given (RegisterOptionalDependencies n _) = [n]"
| "names_given (RegisterModuleVersion n _) = [n]"
| "names_given (MarkLoaded _ n) = [n]"
| "names_given (MarkLoadedBy _ n _ _) = [n]"
| "names_given _ = []"

lemma isKnown_upsert [simp]: "isKnown (upsert name f r) n \<longleftrightarrow> n = name \<or> isKnown r n"
  by (auto simp: isKnown_def lookup_simps simp del: set_map)

lemma isKnown_adjust [simp]: "isKnown (adjust name f r) n \<longleftrightarrow> isKnown r n"
  by (simp add: isKnown_def keys_adjust del: set_map)

lemma isKnown_recompute [simp]: "isKnown (recomputeDependents ho r) n \<longleftrightarrow> isKnown r n"
  by (simp add: isKnown_def del: set_map)

lemma processModuleInternal_known:
  "isKnown (snd (processModuleInternal meta p t r)) n \<Longrightarrow> isKnown r n \<or> isValidModuleName n"
  by (auto simp: processModuleInternal_def Let_def split: option.splits if_splits)

lemma addEmbedded_known:
  "isKnown (fst (snd (addEmbeddedBareModule ho parse dump isFile m p (r, ob)))) n \<Longrightarrow>
   isKnown r n \<or> isValidModuleName n"
  by (auto simp: addEmbeddedBareModule_def Let_def split: option.splits sum.splits if_splits prod.splits)

text \<open>
  C35. Every name that enters through a scan, a plugin path or an embedded manifest, an untrusted one
  included, is a safe path segment, so a directory built from it stays inside its base: names
  safe before a call are safe after it, whatever the plugin, package or manifest says.
\<close>

theorem known_names_safe:
  assumes "hash_order ho" and "registry_ok (fst st)" and "\<forall>n. isKnown (fst st) n \<longrightarrow> safe_segment n"
    and "\<forall>n \<in> set (names_given op). safe_segment n"
  shows "\<forall>n. isKnown (fst (registry_step ho op st)) n \<longrightarrow> safe_segment n"
proof (intro allI impI)
  fix n assume n: "isKnown (fst (registry_step ho op st)) n"
  obtain r ob where st: "st = (r, ob)" by (cases st)
  have old: "isKnown r n \<Longrightarrow> safe_segment n" using assms(3) by (simp add: st)
  show "safe_segment n"
  proof (cases op)
    case (Discover meta dump scan)
    obtain r' ob' where d: "discoverInstalledModules ho meta dump scan (r, ob) = (r', ob')"
      by (cases "discoverInstalledModules ho meta dump scan (r, ob)")
    have "registry_ok r" using assms(2) by (simp add: st)
    from discover_registry(1) [OF assms(1) this d, of n] n Discover st d
    show ?thesis using old valid_name_safe by (auto simp: admitted_def isKnown_find)
  next
    case (ProcessModule meta p)
    then show ?thesis
      using n old valid_name_safe processModuleInternal_known [of meta p "[]" r n]
      by (auto simp: st processModule_def Let_def split: prod.splits)
  next
    case (AddEmbedded parse dump isFile m p)
    then show ?thesis
      using n old valid_name_safe addEmbedded_known [of ho parse dump isFile m p r ob n] by (auto simp: st)
  qed (use n old assms(4) in \<open>auto simp: st registerModule_def registerDependencyEntries_def
      registerDependencies_def registerOptionalDependencies_def registerModuleVersion_def markLoaded_def
      markLoadedBy_def markUnloaded_def beginPublishWatch_def markPublished_def clearLoaded_def clearRegistry_def
      isKnown_def [of "_\<lparr>m_modules := _\<rparr>"] isKnown_def [of r] split: option.splits if_splits\<close>)
qed

definition sample_plugin :: "string \<Rightarrow> registry" where
  "sample_plugin name = fst (registry_step rev (ProcessModule (\<lambda>_. Some \<lparr>md_valid = True, md_name = name, md_version = [],
      rawMetadataJson = [], md_dependencies = [], md_optionalDependencies = []\<rparr>) ''/m/p.so'') (emptyRegistry, new_observer))"

theorem known_names_safe_witness:
  "isKnown (sample_plugin ''p'') ''p'' \<and> safe_segment ''p'' \<and> \<not> safe_segment ''../x'' \<and> \<not> isKnown (sample_plugin ''../x'') ''../x''"
proof -
  have safe: "\<forall>n. isKnown (sample_plugin name) n \<longrightarrow> safe_segment n" for name
    unfolding sample_plugin_def
    by (rule known_names_safe [OF hash_order_rev]) (simp_all add: registry_ok_def emptyRegistry_def isKnown_def)
  have "isKnown (sample_plugin ''p'') ''p''" by code_simp
  moreover have "\<not> safe_segment ''../x''" by (simp add: safe_segment_def)
  ultimately show ?thesis using safe by blast
qed

section \<open>Readiness\<close>

text \<open>The calls that can erase an entry.\<close>

fun erasing :: "registry_op \<Rightarrow> bool" where
  "erasing (Discover _ _ _) = True"
| "erasing Clear = True"
| "erasing _ = False"

fun loads_of :: "string \<Rightarrow> registry_op list \<Rightarrow> nat" where
  "loads_of name [] = 0"
| "loads_of name (MarkLoaded _ n # ops) = (if n = name then 1 else 0) + loads_of name ops"
| "loads_of name (MarkLoadedBy _ n _ _ # ops) = (if n = name then 1 else 0) + loads_of name ops"
| "loads_of name (_ # ops) = loads_of name ops"

definition keeps_epoch :: "(ModuleInfo \<Rightarrow> ModuleInfo) \<Rightarrow> bool" where
  "keeps_epoch f \<longleftrightarrow> (\<forall>i. epoch (f i) = epoch i)"

lemma epoch_upsert: "keeps_epoch f \<Longrightarrow> loadEpoch (upsert name f r) n = loadEpoch r n"
  by (simp add: keeps_epoch_def loadEpoch_def lookup_simps newModuleInfo_def split: option.split)

lemma epoch_adjust: "keeps_epoch f \<Longrightarrow> loadEpoch (adjust name f r) n = loadEpoch r n"
  by (auto simp: keeps_epoch_def loadEpoch_def lookup_simps split: option.split)

lemma epoch_recompute:
  "hash_order ho \<Longrightarrow> registry_ok r \<Longrightarrow> loadEpoch (recomputeDependents ho r) n = loadEpoch r n"
  by (simp add: loadEpoch_def find_recompute split: option.split)

lemma epoch_loaded:
  "loadEpoch (markLoaded t n r) name = loadEpoch r name + (if n = name then 1 else 0)"
  "loadEpoch (markLoadedBy t n l h r) name = loadEpoch r name + (if n = name then 1 else 0)"
  by (simp_all add: markLoaded_def markLoadedBy_def stampLoaded_def loadEpoch_def lookup_simps newModuleInfo_def
      split: option.split)

lemma keeps_epoch_simps:
  "keeps_epoch (\<lambda>i. i\<lparr>version := v\<rparr>)"
  "keeps_epoch (\<lambda>i. i\<lparr>path := p, dependencies := ds\<rparr>)"
  "keeps_epoch (\<lambda>i. i\<lparr>dependencies := ds\<rparr>)"
  "keeps_epoch (\<lambda>i. i\<lparr>optionalDependencies := ds\<rparr>)"
  "keeps_epoch (\<lambda>i. i\<lparr>path := p\<rparr>)"
  "keeps_epoch (\<lambda>i. i\<lparr>version := v, format := f, embedded := b, metadataJson := m, dependencies := ds\<rparr>)"
  "keeps_epoch (\<lambda>i. i\<lparr>path := p, metadataJson := m, version := v, dependencies := ds, optionalDependencies := os, format := f\<rparr>)"
  "keeps_epoch (\<lambda>i. i\<lparr>loaded := False, loadedAt := 0, published := None, publishedAt := 0\<rparr>)"
  "keeps_epoch (\<lambda>i. if published i = None then i\<lparr>published := Some False\<rparr> else i)"
  "keeps_epoch (\<lambda>i. i\<lparr>published := Some True, publishedAt := t\<rparr>)"
  by (simp_all add: keeps_epoch_def)

lemma epoch_clearLoaded: "loadEpoch (clearLoaded r) n = loadEpoch r n"
  by (simp add: clearLoaded_def loadEpoch_def split: option.split)

lemma registry_ok_step:
  assumes "hash_order ho" and "registry_ok (fst st)"
  shows "registry_ok (fst (registry_step ho op st))"
proof -
  obtain r ob where st: "st = (r, ob)" by (cases st)
  have r: "registry_ok r" using assms(2) by (simp add: st)
  show ?thesis
  proof (cases op)
    case (Discover meta dump scan)
    then show ?thesis using reverse_ok_discover [OF assms(1) r] by (simp add: st reverse_ok_def)
  next
    case (ProcessModule meta p)
    then show ?thesis
      using registry_ok_processModuleInternal [OF r, of meta p "[]"]
      by (auto simp: st processModule_def Let_def split: prod.splits)
  next
    case (AddEmbedded parse dump isFile m p)
    then show ?thesis
      using r by (auto simp: st addEmbeddedBareModule_def Let_def split: option.splits sum.splits prod.splits)
  next
    case (MarkPublished t n e)
    then show ?thesis using r by (auto simp: st markPublished_def split: option.split)
  qed (use r in \<open>simp_all add: st registerModule_def registerDependencyEntries_def
      registerDependencies_def registerOptionalDependencies_def registerModuleVersion_def markLoaded_def
      markLoadedBy_def markUnloaded_def beginPublishWatch_def clearLoaded_def clearRegistry_def\<close>,
      simp_all add: registry_ok_def)
qed

lemma epoch_step:
  assumes "hash_order ho" and "registry_ok (fst st)" and "\<not> erasing op"
  shows "loadEpoch (fst (registry_step ho op st)) name = loadEpoch (fst st) name + of_nat (loads_of name [op])"
proof -
  obtain r ob where st: "st = (r, ob)" by (cases st)
  have r: "registry_ok r" using assms(2) by (simp add: st)
  note ep = epoch_upsert epoch_adjust epoch_recompute [OF assms(1)] keeps_epoch_simps r
  show ?thesis
  proof (cases op)
    case (ProcessModule meta p)
    have "loadEpoch (snd (processModuleInternal meta p [] r)) name = loadEpoch r name"
      by (simp add: processModuleInternal_def Let_def ep split: option.split)
    then show ?thesis
      using registry_ok_processModuleInternal [OF r, of meta p "[]"] ProcessModule
      by (auto simp: st processModule_def Let_def epoch_recompute [OF assms(1)] split: prod.splits)
  next
    case (AddEmbedded parse dump isFile m p)
    then show ?thesis
      by (auto simp: st addEmbeddedBareModule_def Let_def ep split: option.splits sum.splits prod.splits)
  next
    case (MarkPublished t n e)
    then show ?thesis by (auto simp: st markPublished_def ep split: option.split)
  qed (use assms(3) in \<open>simp_all add: st ep registerModule_def registerDependencyEntries_def
      registerDependencies_def registerOptionalDependencies_def registerModuleVersion_def epoch_loaded
      markUnloaded_def beginPublishWatch_def epoch_clearLoaded\<close>)
qed

lemma epoch_run:
  assumes "hash_order ho" and "registry_ok (fst st)" and "\<not> list_ex erasing ops"
  shows "loadEpoch (fst (fold (registry_step ho) ops st)) name = loadEpoch (fst st) name + of_nat (loads_of name ops)"
  using assms(2,3)
proof (induction ops arbitrary: st)
  case (Cons op ops)
  have "loads_of name (op # ops) = loads_of name [op] + loads_of name ops"
    by (cases op) auto
  then show ?case
    using Cons.IH [of "registry_step ho op st"] registry_ok_step [OF assms(1) Cons.prems(1)]
      epoch_step [OF assms(1) Cons.prems(1), of op name] Cons.prems(2) by (simp add: add.assoc)
qed simp

text \<open>
  A stale readiness watch is dropped: a watch armed before any number of further loads of the
  module, below the wrap of the 64-bit epoch and with the entry not erased in between, never marks
  the new instance ready, whatever else happened; the current epoch of a loaded, unpublished module
  does.
\<close>

theorem stale_watch_dropped:
  assumes "hash_order ho" and "registry_ok r" and "\<not> list_ex erasing ops"
    and "0 < loads_of name ops" and "loads_of name ops < 2 ^ 64"
    and "r' = fst (fold (registry_step ho) ops (r, ob))"
  shows "markPublished now name (loadEpoch r name) r' = (False, r')
    \<and> (isLoaded r' name \<longrightarrow> (\<exists>i. find_module r' name = Some i \<and>
         (published i \<noteq> Some True \<longrightarrow> fst (markPublished now name (loadEpoch r' name) r'))))"
proof -
  have "loadEpoch r' name = loadEpoch r name + of_nat (loads_of name ops)"
    using epoch_run [OF assms(1), of "(r, ob)" ops name] assms(2,3,6) by simp
  moreover have "(of_nat (loads_of name ops) :: 64 word) \<noteq> 0"
    using assms(4,5) by (auto simp: word_of_nat_eq_0_iff dest: dvd_imp_le)
  ultimately have "loadEpoch r' name \<noteq> loadEpoch r name" by simp
  then show ?thesis
    by (auto simp: markPublished_def loadEpoch_def isLoaded_def split: option.splits)
qed

theorem stale_watch_dropped_witness:
  "fst (markPublished 9 ''a'' (loadEpoch (markLoaded 5 ''a'' emptyRegistry) ''a'')
     (fst (fold (registry_step rev) [MarkUnloaded ''a'', MarkLoaded 6 ''a''] (markLoaded 5 ''a'' emptyRegistry, new_observer)))) = False"
proof -
  have "registry_ok (markLoaded 5 ''a'' emptyRegistry)"
    unfolding markLoaded_def by (rule registry_ok_upsert) (simp add: registry_ok_def emptyRegistry_def)
  from stale_watch_dropped [OF hash_order_rev this _ _ _ refl, of "[MarkUnloaded ''a'', MarkLoaded 6 ''a'']" "''a''" 9 new_observer]
  show ?thesis by simp
qed

text \<open>
  The epoch does not survive a prune: a module that is unloaded, uninstalled, found again and loaded
  is back at the epoch of its first load, and the watch armed under that load marks the new
  instance ready.
\<close>

theorem stale_watch_after_prune:
  "let meta = (\<lambda>_. None); dump = (\<lambda>_. []); pkg = sample_package ''a'' ''/m/a_bare.so'';
       st1 = registry_step (\<lambda>xs. xs) (Discover meta dump (\<lambda>_. [pkg])) (emptyRegistry, new_observer);
       st2 = registry_step (\<lambda>xs. xs) (MarkLoaded 5 ''a'') st1;
       armed = loadEpoch (fst st2) ''a'';
       st3 = fold (registry_step (\<lambda>xs. xs)) [MarkUnloaded ''a'', Discover meta dump (\<lambda>_. []),
               Discover meta dump (\<lambda>_. [pkg]), MarkLoaded 8 ''a''] st2
   in fst (markPublished 9 ''a'' armed (fst st3))"
  by code_simp

section \<open>Load stamps\<close>

text \<open>\<open>loadedAt\<close> is zero exactly while the module is not loaded.\<close>

definition stamps_ok :: "registry \<Rightarrow> bool" where
  "stamps_ok r \<longleftrightarrow> (\<forall>n i. find_module r n = Some i \<longrightarrow> (loaded i \<longleftrightarrow> loadedAt i \<noteq> 0))"

definition keeps_stamp :: "(ModuleInfo \<Rightarrow> ModuleInfo) \<Rightarrow> bool" where
  "keeps_stamp f \<longleftrightarrow> (\<forall>i. (loaded i \<longleftrightarrow> loadedAt i \<noteq> 0) \<longrightarrow> (loaded (f i) \<longleftrightarrow> loadedAt (f i) \<noteq> 0))"

lemma stamps_ok_upsert: "stamps_ok r \<Longrightarrow> keeps_stamp f \<Longrightarrow> stamps_ok (upsert name f r)"
  by (auto simp: stamps_ok_def keeps_stamp_def lookup_simps newModuleInfo_def split: option.splits)

lemma stamps_ok_adjust: "stamps_ok r \<Longrightarrow> keeps_stamp f \<Longrightarrow> stamps_ok (adjust name f r)"
  by (auto simp: stamps_ok_def keeps_stamp_def lookup_simps)

lemma stamps_ok_recompute:
  "hash_order ho \<Longrightarrow> registry_ok r \<Longrightarrow> stamps_ok r \<Longrightarrow> stamps_ok (recomputeDependents ho r)"
  by (auto simp: stamps_ok_def find_recompute)

lemma stamps_ok_life:
  "stamps_ok r \<longleftrightarrow> (\<forall>n. isKnown r n \<longrightarrow> (fst (life_of r n) \<longleftrightarrow> fst (snd (life_of r n)) \<noteq> 0))"
  by (auto simp: stamps_ok_def isKnown_find life_of_def life_def split: option.splits)

lemma keeps_stamp_simps:
  "keeps_stamp (\<lambda>i. i\<lparr>version := v\<rparr>)"
  "keeps_stamp (\<lambda>i. i\<lparr>path := p, dependencies := ds\<rparr>)"
  "keeps_stamp (\<lambda>i. i\<lparr>dependencies := ds\<rparr>)"
  "keeps_stamp (\<lambda>i. i\<lparr>optionalDependencies := ds\<rparr>)"
  "keeps_stamp (\<lambda>i. i\<lparr>path := p\<rparr>)"
  "keeps_stamp (\<lambda>i. i\<lparr>version := v, format := f, embedded := b, metadataJson := m, dependencies := ds\<rparr>)"
  "keeps_stamp (\<lambda>i. i\<lparr>path := p, metadataJson := m, version := v, dependencies := ds, optionalDependencies := os, format := f\<rparr>)"
  "keeps_stamp (\<lambda>i. i\<lparr>loaded := False, loadedAt := 0, published := None, publishedAt := 0\<rparr>)"
  "keeps_stamp (\<lambda>i. if published i = None then i\<lparr>published := Some False\<rparr> else i)"
  "keeps_stamp (\<lambda>i. i\<lparr>published := Some True, publishedAt := t\<rparr>)"
  "t \<noteq> 0 \<Longrightarrow> keeps_stamp (stampLoaded t)"
  "t \<noteq> 0 \<Longrightarrow> keeps_stamp (\<lambda>i. (stampLoaded t i)\<lparr>loader := l, handle := h\<rparr>)"
  by (simp_all add: keeps_stamp_def stampLoaded_def)

fun stamps_clock :: "registry_op \<Rightarrow> bool" where
  "stamps_clock (MarkLoaded t _) = (t \<noteq> 0)"
| "stamps_clock (MarkLoadedBy t _ _ _) = (t \<noteq> 0)"
| "stamps_clock ClearLoaded = False"
| "stamps_clock _ = True"

text \<open>
  The load stamp is zero exactly while a module is not loaded, under every call but \<open>clearLoaded\<close>,
  on a clock past the epoch.
\<close>

theorem load_stamp_valid:
  assumes "hash_order ho" and "registry_ok (fst st)" and "stamps_ok (fst st)" and "stamps_clock op"
  shows "stamps_ok (fst (registry_step ho op st))"
proof -
  obtain r ob where st: "st = (r, ob)" by (cases st)
  have r: "registry_ok r" "stamps_ok r" using assms(2,3) by (simp_all add: st)
  note sp = stamps_ok_upsert stamps_ok_adjust stamps_ok_recompute [OF assms(1)] keeps_stamp_simps r
  show ?thesis
  proof (cases op)
    case (Discover meta dump scan)
    obtain r' ob' where d: "discoverInstalledModules ho meta dump scan (r, ob) = (r', ob')"
      by (cases "discoverInstalledModules ho meta dump scan (r, ob)")
    have "life_of r n = life newModuleInfo" if "\<not> isKnown r n" for n
      using that by (auto simp: life_of_def isKnown_find split: option.split)
    then have "fst (life_of r n) \<longleftrightarrow> fst (snd (life_of r n)) \<noteq> 0" for n
      using r(2) unfolding stamps_ok_life by (cases "isKnown r n") (auto simp: life_def newModuleInfo_def)
    then show ?thesis
      using discover_registry(2) [OF assms(1) r(1) d] by (simp add: stamps_ok_life Discover st d)
  next
    case (ProcessModule meta p)
    have "stamps_ok (snd (processModuleInternal meta p [] r))"
      by (simp add: processModuleInternal_def Let_def sp split: option.split)
    then show ?thesis
      using registry_ok_processModuleInternal [OF r(1), of meta p "[]"] ProcessModule
      by (auto simp: st processModule_def Let_def stamps_ok_recompute [OF assms(1)] split: prod.splits)
  next
    case (AddEmbedded parse dump isFile m p)
    then show ?thesis
      by (auto simp: st addEmbeddedBareModule_def Let_def sp split: option.splits sum.splits prod.splits)
  next
    case (MarkPublished t n e)
    then show ?thesis by (auto simp: st markPublished_def sp split: option.split)
  next
    case Clear
    then show ?thesis by (simp add: st clearRegistry_def stamps_ok_def)
  qed (use assms(4) in \<open>simp_all add: st sp registerModule_def registerDependencyEntries_def
      registerDependencies_def registerOptionalDependencies_def registerModuleVersion_def markLoaded_def
      markLoadedBy_def markUnloaded_def beginPublishWatch_def\<close>)
qed

theorem load_stamp_valid_witness:
  "stamps_ok (fst (registry_step rev (MarkLoaded 1700000000 ''a'') (emptyRegistry, new_observer)))"
  by (rule load_stamp_valid [OF hash_order_rev])
     (simp_all add: registry_ok_def emptyRegistry_def stamps_ok_def)

text \<open>
  \<open>clearLoaded\<close> leaves the stamp and the readiness flag of a module it marks not loaded.
\<close>

theorem clear_loaded_keeps_stamp:
  "find_module r n = Some i \<Longrightarrow>
   \<exists>j. find_module (clearLoaded r) n = Some j \<and> \<not> loaded j \<and> loadedAt j = loadedAt i \<and> published j = published i"
  by (simp add: clearLoaded_def)

theorem clear_loaded_keeps_stamp_witness:
  "\<exists>j. find_module (clearLoaded (markLoaded 5 ''a'' emptyRegistry)) ''a'' = Some j \<and> \<not> loaded j
     \<and> loadedAt j = 5 \<and> published j = None"
  using clear_loaded_keeps_stamp [of "markLoaded 5 ''a'' emptyRegistry" "''a''"]
  by (simp add: markLoaded_def lookup_simps emptyRegistry_def stampLoaded_def newModuleInfo_def)

end
