(* ===== verification/Supervisor.thy ===== *)
theory Supervisor
  imports Prelude
begin

text \<open>
  \<open>src/logos_core/module_supervisor.{h,cpp}\<close>: the restart budget. The state is the policy and the
  death history \<open>m_deaths\<close>; times are nanoseconds of the steady clock, the policy's spans are
  milliseconds. The arithmetic on time points is unbounded here (a span beyond 292 years would
  overflow the 64-bit representation). When a scheduled restart runs is an event of the manager's model.
\<close>

record SupervisionPolicy =
  maxRestarts :: int
  window :: int
  backoff :: int

definition defaultPolicy :: SupervisionPolicy where
  "defaultPolicy = \<lparr>maxRestarts = 0, window = 60000, backoff = 500\<rparr>"

datatype Decision = Restart | BudgetExhausted | Disabled

record Verdict =
  decision :: Decision
  attempt :: int
  delay :: int

record supervisor =
  m_policy :: SupervisionPolicy
  m_deaths :: "int list umap"

definition newSupervisor :: supervisor where
  "newSupervisor = \<lparr>m_policy = defaultPolicy, m_deaths = []\<rparr>"

definition setPolicy :: "SupervisionPolicy \<Rightarrow> supervisor \<Rightarrow> supervisor" where
  "setPolicy p s = s\<lparr>m_policy := p, m_deaths := []\<rparr>"

definition policy :: "supervisor \<Rightarrow> SupervisionPolicy" where
  "policy s = m_policy s"

definition onUnexpectedExit :: "string \<Rightarrow> int \<Rightarrow> supervisor \<Rightarrow> Verdict \<times> supervisor" where
  "onUnexpectedExit name now s =
     (let p = m_policy s in
      if maxRestarts p \<le> 0 then (\<lparr>decision = Disabled, attempt = 0, delay = backoff p\<rparr>, s)
      else
        let old = (case map_of (m_deaths s) name of None \<Rightarrow> [] | Some ds \<Rightarrow> ds);
            cutoff = now - window p * 1000000;
            deaths = filter (\<lambda>t. \<not> t < cutoff) old @ [now];
            n = int_of_long (int (length deaths))
        in (\<lparr>decision = (if n \<le> maxRestarts p then Restart else BudgetExhausted),
             attempt = n, delay = backoff p\<rparr>,
            s\<lparr>m_deaths := AList.update name deaths (m_deaths s)\<rparr>))"

definition forget :: "string \<Rightarrow> supervisor \<Rightarrow> supervisor" where
  "forget name s = s\<lparr>m_deaths := AList.delete name (m_deaths s)\<rparr>"

definition clearDeaths :: "supervisor \<Rightarrow> supervisor" where
  "clearDeaths s = s\<lparr>m_deaths := []\<rparr>"

text \<open>\<open>LOGOS_SUPERVISION\<close>: the fields between commas, then each read whole by \<open>std::stol\<close>.\<close>

fun splitFields :: "string \<Rightarrow> string list" where
  "splitFields [] = [[]]"
| "splitFields (c # cs) = (if c = CHR '','' then [] # splitFields cs
     else case splitFields cs of [] \<Rightarrow> [[c]] | f # fs \<Rightarrow> (c # f) # fs)"

fun parseFields :: "string list \<Rightarrow> int list option" where
  "parseFields [] = Some []"
| "parseFields (f # fs) =
     (if f = [] then None
      else case stol f of
        None \<Rightarrow> None
      | Some (v, used) \<Rightarrow>
          if used \<noteq> length f \<or> v < 0 then None
          else map_option (\<lambda>vs. v # vs) (parseFields fs))"

definition policyFromEnvironment :: "string option \<Rightarrow> SupervisionPolicy" where
  "policyFromEnvironment env =
     (case env of
        None \<Rightarrow> defaultPolicy
      | Some text \<Rightarrow>
          if text = [] then defaultPolicy
          else case parseFields (splitFields text) of
            None \<Rightarrow> defaultPolicy
          | Some parsed \<Rightarrow>
              if parsed = [] \<or> length parsed > 3 then defaultPolicy
              else \<lparr>maxRestarts = int_of_long (parsed ! 0),
                    window = (if length parsed > 1 then parsed ! 1 else window defaultPolicy),
                    backoff = (if length parsed > 2 then parsed ! 2 else backoff defaultPolicy)\<rparr>)"

text \<open>
  Where a restart is scheduled: on a thread of its own without an application, and otherwise by a timer of the main
  thread, whose interval is an \<open>int\<close>; a host may install its own scheduler.
\<close>

datatype scheduled = DetachedThread int | MainThreadTimer int

definition scheduleOnQtMainThread :: "bool \<Rightarrow> int \<Rightarrow> scheduled" where
  "scheduleOnQtMainThread app d = (if \<not> app then DetachedThread d else MainThreadTimer (int_of_long d))"

definition restartScheduler :: "(int \<Rightarrow> scheduled) option \<Rightarrow> bool \<Rightarrow> int \<Rightarrow> scheduled" where
  "restartScheduler installed app = (case installed of Some f \<Rightarrow> f | None \<Rightarrow> scheduleOnQtMainThread app)"

section \<open>The budget\<close>

text \<open>A run of deaths, with the verdict on each.\<close>

fun judge :: "(string \<times> int) list \<Rightarrow> supervisor \<Rightarrow> (string \<times> int \<times> Verdict) list \<times> supervisor" where
  "judge [] s = ([], s)"
| "judge ((name, now) # deaths) s =
     (let (v, s') = onUnexpectedExit name now s; (vs, s'') = judge deaths s'
      in ((name, now, v) # vs, s''))"

definition restarts_between :: "string \<Rightarrow> int \<Rightarrow> int \<Rightarrow> (string \<times> int \<times> Verdict) list \<Rightarrow> nat" where
  "restarts_between name a b vs =
     length (filter (\<lambda>(n, t, v). n = name \<and> a \<le> t \<and> t \<le> b \<and> decision v = Restart) vs)"

definition deaths_of :: "string \<Rightarrow> supervisor \<Rightarrow> int list" where
  "deaths_of name s = (case map_of (m_deaths s) name of None \<Rightarrow> [] | Some ds \<Rightarrow> ds)"

lemma exit_other:
  "n \<noteq> name \<Longrightarrow> deaths_of n (snd (onUnexpectedExit name now s)) = deaths_of n s"
  by (simp add: onUnexpectedExit_def Let_def deaths_of_def)

lemma exit_policy: "m_policy (snd (onUnexpectedExit name now s)) = m_policy s"
  by (simp add: onUnexpectedExit_def Let_def)

lemma exit_enabled:
  "0 < maxRestarts (m_policy s) \<Longrightarrow> deaths_of name (snd (onUnexpectedExit name now s)) =
     filter (\<lambda>t. now - window (m_policy s) * 1000000 \<le> t) (deaths_of name s) @ [now]"
  by (simp add: onUnexpectedExit_def Let_def deaths_of_def not_less)

lemma exit_restart:
  assumes "decision (fst (onUnexpectedExit name now s)) = Restart" and "length (deaths_of name s) < 2147483647"
  shows "0 < maxRestarts (m_policy s)"
    and "int (length (filter (\<lambda>t. now - window (m_policy s) * 1000000 \<le> t) (deaths_of name s))) < maxRestarts (m_policy s)"
proof -
  let ?f = "filter (\<lambda>t. now - window (m_policy s) * 1000000 \<le> t) (deaths_of name s)"
  show pos: "0 < maxRestarts (m_policy s)"
    using assms(1) by (auto simp: onUnexpectedExit_def Let_def split: if_splits)
  have "length ?f \<le> length (deaths_of name s)" by (rule length_filter_le)
  then have small: "int_of_long (int (length ?f + 1)) = int (length ?f + 1)"
    using assms(2) by (intro int_of_long_small) linarith+
  have "int_of_long (int (length ?f + 1)) \<le> maxRestarts (m_policy s)"
    using assms(1) pos
    by (auto simp: onUnexpectedExit_def Let_def deaths_of_def not_less split: if_splits)
  then show "int (length ?f) < maxRestarts (m_policy s)" unfolding small by simp
qed

lemma judge_append:
  "judge (xs @ ys) s = (let (vs, s') = judge xs s; (ws, s'') = judge ys s' in (vs @ ws, s''))"
  by (induction xs arbitrary: s) (auto simp: Let_def split: prod.splits)

lemma judge_names: "map (\<lambda>(n, t, v). (n, t)) (fst (judge xs s)) = xs"
  by (induction xs arbitrary: s) (auto simp: Let_def case_prod_unfold)

definition times :: "string \<Rightarrow> (string \<times> int) list \<Rightarrow> int list" where
  "times name xs = map snd (filter (\<lambda>(n, t). n = name) xs)"

definition history_inv :: "SupervisionPolicy \<Rightarrow> string \<Rightarrow> (string \<times> int) list \<Rightarrow> supervisor \<Rightarrow> bool" where
  "history_inv p name xs s \<longleftrightarrow> m_policy s = p \<and> length (deaths_of name s) \<le> length xs \<and>
     (\<forall>c. (\<forall>h \<in> set (times name xs). h - window p * 1000000 \<le> c) \<longrightarrow>
        filter (\<lambda>t. c \<le> t) (deaths_of name s) = filter (\<lambda>t. c \<le> t) (times name xs))"

lemma history_step:
  assumes inv: "history_inv p name xs s" and pos: "0 < maxRestarts p"
    and late: "\<forall>x \<in> set xs. snd x \<le> now" 
  shows "history_inv p name (xs @ [(n, now)]) (snd (onUnexpectedExit n now s))"
proof (cases "n = name")
  case False
  then show ?thesis
    using inv by (auto simp: history_inv_def exit_policy exit_other times_def)
next
  case True
  let ?W = "window p * 1000000"
  have p: "m_policy s = p" using inv by (simp add: history_inv_def)
  have new: "deaths_of name (snd (onUnexpectedExit n now s)) = filter (\<lambda>t. now - ?W \<le> t) (deaths_of name s) @ [now]"
    using exit_enabled [of s name now] pos True p by simp
  have times: "times name (xs @ [(n, now)]) = times name xs @ [now]" by (simp add: times_def True)
  have "length (filter (\<lambda>t. now - ?W \<le> t) (deaths_of name s)) \<le> length xs"
    using inv length_filter_le [of "\<lambda>t. now - ?W \<le> t" "deaths_of name s"] unfolding history_inv_def by linarith
  moreover have "filter (\<lambda>t. c \<le> t) (filter (\<lambda>t. now - ?W \<le> t) (deaths_of name s)) = filter (\<lambda>t. c \<le> t) (times name xs)"
    if c: "now - ?W \<le> c" for c
  proof -
    have "\<forall>h \<in> set (times name xs). h - ?W \<le> c" using late c by (auto simp: times_def)
    then have "filter (\<lambda>t. c \<le> t) (deaths_of name s) = filter (\<lambda>t. c \<le> t) (times name xs)"
      using inv by (simp add: history_inv_def)
    moreover have "filter (\<lambda>t. c \<le> t) (filter (\<lambda>t. now - ?W \<le> t) (deaths_of name s)) = filter (\<lambda>t. c \<le> t) (deaths_of name s)"
      using c by (auto simp: filter_filter intro!: filter_cong)
    ultimately show ?thesis by simp
  qed
  ultimately show ?thesis
    unfolding history_inv_def exit_policy new times by (simp add: p)
qed

lemma restarts_le_times:
  "restarts_between name a b vs \<le> length (filter (\<lambda>t. a \<le> t) (times name (map (\<lambda>(n, t, v). (n, t)) vs)))"
  by (induction vs) (auto simp: restarts_between_def times_def)

lemma restart_budget_run:
  assumes "sorted (map snd xs)" and "length xs < 2147483647" and pos: "0 < maxRestarts p"
    and "history_inv p name [] s"
  shows "history_inv p name xs (snd (judge xs s)) \<and>
    int (restarts_between name (t - window p * 1000000) t (fst (judge xs s))) \<le> maxRestarts p"
  using assms(1,2)
proof (induction xs rule: rev_induct)
  case Nil
  then show ?case using assms(3,4) by (simp add: restarts_between_def)
next
  case (snoc x xs)
  obtain n now where x: "x = (n, now)" by (cases x)
  let ?s = "snd (judge xs s)" and ?W = "window p * 1000000"
  have late: "\<forall>y \<in> set xs. snd y \<le> now" and sorted: "sorted (map snd xs)"
    using snoc.prems(1) by (auto simp: sorted_append x)
  have inv: "history_inv p name xs ?s" and IH: "int (restarts_between name (t - ?W) t (fst (judge xs s))) \<le> maxRestarts p"
    using snoc.IH [OF sorted] snoc.prems(2) by simp_all
  let ?v = "fst (onUnexpectedExit n now ?s)"
  have j: "fst (judge (xs @ [x]) s) = fst (judge xs s) @ [(n, now, ?v)]"
    "snd (judge (xs @ [x]) s) = snd (onUnexpectedExit n now ?s)"
    by (simp_all add: judge_append Let_def x split: prod.split)
  have p: "m_policy ?s = p" using inv by (simp add: history_inv_def)
  have "int (restarts_between name (t - ?W) t (fst (judge xs s))) < maxRestarts p"
    if new: "n = name" "t - ?W \<le> now" "now \<le> t" "decision ?v = Restart"
  proof -
    have "length (deaths_of name ?s) < 2147483647" using inv snoc.prems(2) by (simp add: history_inv_def)
    then have "int (length (filter (\<lambda>h. now - ?W \<le> h) (deaths_of name ?s))) < maxRestarts p"
      using exit_restart(2) [of name now ?s] new p by simp
    moreover have "\<forall>h \<in> set (times name xs). h - ?W \<le> now - ?W"
      using late by (auto simp: times_def)
    then have "filter (\<lambda>h. now - ?W \<le> h) (deaths_of name ?s) = filter (\<lambda>h. now - ?W \<le> h) (times name xs)"
      using inv by (simp add: history_inv_def)
    moreover have "restarts_between name (t - ?W) t (fst (judge xs s)) \<le> length (filter (\<lambda>h. t - ?W \<le> h) (times name xs))"
      using restarts_le_times [of name "t - ?W" t "fst (judge xs s)"] by (simp add: judge_names)
    moreover have "length (filter (\<lambda>h. t - ?W \<le> h) (times name xs)) \<le> length (filter (\<lambda>h. now - ?W \<le> h) (times name xs))"
      using new(3) by (induction xs) (auto simp: times_def)
    ultimately show ?thesis by simp
  qed
  then have "int (restarts_between name (t - ?W) t (fst (judge (xs @ [x]) s))) \<le> maxRestarts p"
    using IH unfolding j(1) by (auto simp: restarts_between_def)
  then show ?case using history_step [OF inv pos late, of n] j(2) x by simp
qed

lemma judge_disabled: "maxRestarts (m_policy s) \<le> 0 \<Longrightarrow>
    snd (judge xs s) = s \<and> (\<forall>(n, t, v) \<in> set (fst (judge xs s)). decision v = Disabled)"
  by (induction xs) (auto simp: onUnexpectedExit_def Let_def split: prod.splits)



section \<open>The environment variable\<close>

lemma splitFields_not_Nil [simp]: "splitFields s \<noteq> []"
  by (induction s) (auto split: list.splits)

lemma splitFields_comma: "CHR '','' \<notin> set f \<Longrightarrow> splitFields (f @ CHR '','' # rest) = f # splitFields rest"
  by (induction f) auto

lemma splitFields_plain: "CHR '','' \<notin> set f \<Longrightarrow> splitFields f = [f]"
  by (induction f) auto

lemma decimal_no_comma: "CHR '','' \<notin> set (decimal n)"
  using decimal_isdigit [of "CHR '',''" n] by (auto simp: c_isdigit_def)

lemma stol_decimal: "int n \<le> long_max \<Longrightarrow> stol (decimal n) = Some (int n, length (decimal n))"
  using scan_long_decimal [of "[]" n] by (simp add: stol_def long_min_def)

lemma parseFields_decimal:
  "int n \<le> long_max \<Longrightarrow> parseFields (decimal n # fs) = map_option (\<lambda>vs. int n # vs) (parseFields fs)"
  by (simp add: stol_decimal)

lemma parseFields_shape:
  "parseFields fs = Some vs \<Longrightarrow> length vs = length fs \<and> (\<forall>f \<in> set fs. \<exists>n. stol f = Some (int n, length f))"
proof (induction fs arbitrary: vs)
  case (Cons f fs)
  from Cons.prems obtain v us where v: "stol f = Some (v, length f)" "0 \<le> v" "parseFields fs = Some us" "vs = v # us"
    by (auto split: if_splits option.splits prod.splits)
  then have "\<exists>n. stol f = Some (int n, length f)" by (intro exI [of _ "nat v"]) simp
  then show ?case using Cons.IH [OF v(3)] v(4) by simp
qed simp

text \<open>
  A policy printed in the documented format \<open>maxRestarts,windowMs,backoffMs\<close> is read back as
  written, for every restart count of an \<open>int\<close> and every span of a \<open>long\<close>.
\<close>

theorem policy_round_trip:
  assumes "m < 2147483648" and "int w \<le> long_max" and "int b \<le> long_max"
  shows "policyFromEnvironment (Some (decimal m @ CHR '','' # decimal w @ CHR '','' # decimal b)) =
    \<lparr>maxRestarts = int m, window = int w, backoff = int b\<rparr>"
proof -
  have "int m \<le> long_max" using assms(1) by (simp add: long_max_def)
  then show ?thesis
    using assms
    by (simp add: policyFromEnvironment_def splitFields_comma splitFields_plain decimal_no_comma
        parseFields_decimal int_of_long_small del: parseFields.simps(2))
qed

theorem policy_round_trip_witness:
  "policyFromEnvironment (Some ''3,60000,250'') = \<lparr>maxRestarts = 3, window = 60000, backoff = 250\<rparr>"
proof -
  have "decimal 3 = ''3''" "decimal 60000 = ''60000''" "decimal 250 = ''250''"
    by (simp_all add: decimal.simps digit_char_def char_of_def bit_Suc_0_iff)
  with policy_round_trip [of 3 60000 250] show ?thesis by (simp add: long_max_def)
qed

text \<open>A backoff beyond an \<open>int\<close> is folded by the timer: 2 to the 32 and one milliseconds become one.\<close>

lemma backoff_wraps:
  "restartScheduler None True (backoff (policyFromEnvironment
     (Some (decimal 3 @ CHR '','' # decimal 60000 @ CHR '','' # decimal 4294967297)))) = MainThreadTimer 1"
proof -
  have "int_of_long 4294967297 = 1" by code_simp
  then show ?thesis
    using policy_round_trip [of 3 60000 4294967297] by (simp add: restartScheduler_def scheduleOnQtMainThread_def long_max_def)
qed

text \<open>
  A text that is not one to three whole non-negative numbers separated by commas leaves supervision
  off: a budget other than zero was read from such a text.
\<close>

theorem policy_off_unless_numbers:
  assumes "maxRestarts (policyFromEnvironment env) \<noteq> 0"
  shows "\<exists>str. env = Some str \<and> length (splitFields str) \<in> {1, 2, 3}
    \<and> (\<forall>f \<in> set (splitFields str). \<exists>n. stol f = Some (int n, length f))"
proof -
  obtain str vs where t: "env = Some str" "parseFields (splitFields str) = Some vs" "vs \<noteq> []" "length vs \<le> 3"
    using assms by (auto simp: policyFromEnvironment_def defaultPolicy_def split: option.splits if_splits)
  moreover have "length (splitFields str) \<in> {1, 2, 3}"
  proof -
    have "length (splitFields str) \<le> 3" "0 < length (splitFields str)"
      using t(4) parseFields_shape [OF t(2)] by simp_all
    then have "length (splitFields str) = 1 \<or> length (splitFields str) = 2 \<or> length (splitFields str) = 3"
      by arith
    then show ?thesis by blast
  qed
  ultimately show ?thesis using parseFields_shape [OF t(2)] by blast
qed

theorem policy_off_unless_numbers_witness:
  "\<exists>str. Some ''3'' = Some str \<and> length (splitFields str) \<in> {1, 2, 3}
    \<and> (\<forall>f \<in> set (splitFields str). \<exists>n. stol f = Some (int n, length f))"
proof (rule policy_off_unless_numbers)
  have "stol ''3'' = Some (3, 1)"
    by (simp add: stol_def scan_long_def c_isspace_def c_isdigit_def Let_def long_max_def long_min_def)
  then show "maxRestarts (policyFromEnvironment (Some ''3'')) \<noteq> 0"
    by (simp add: policyFromEnvironment_def int_of_long_small)
qed

text \<open>
  The parse is less strict than its comment: blanks and a sign in front of a number are accepted,
  and a count outside the range of \<open>int\<close> is cut to its low 32 bits instead of being refused.
\<close>

theorem policy_not_strict:
  "policyFromEnvironment (Some ''  +3'') = \<lparr>maxRestarts = 3, window = 60000, backoff = 500\<rparr>
   \<and> policyFromEnvironment (Some ''4294967299'') = \<lparr>maxRestarts = 3, window = 60000, backoff = 500\<rparr>"
proof -
  have "stol ''  +3'' = Some (3, 4)" "stol ''4294967299'' = Some (4294967299, 10)"
    by (simp_all add: stol_def scan_long_def c_isspace_def c_isdigit_def Let_def long_max_def long_min_def)
  then show ?thesis by (simp add: policyFromEnvironment_def defaultPolicy_def int_of_long_def)
qed

end
