(* ===== verification/LoaderRegistry.thy ===== *)
theory LoaderRegistry
  imports ModuleRegistry
begin

text \<open>
  \<open>src/logos_core/module_loader.h\<close>, \<open>module_loader_registry.{h,cpp}\<close>,
  \<open>composite_module_loader.{h,cpp}\<close>, \<open>bare_module_loader.cpp\<close> and \<open>web_module_loader.cpp\<close>: the
  strategies that run modules and the table that picks one. A loader, a container and a format loader
  are records of operations over the state \<open>'c\<close> of everything that runs modules; an operation that may
  call \<open>onTerminated\<close> returns the names it announced, in order, and the manager's model handles
  them when the call returns. The locale \<open>module_runner\<close> is the contract the manager relies on.
\<close>

section \<open>Descriptors and outcomes\<close>

record ModuleDescriptor =
  d_name :: string
  d_path :: string
  d_format :: string
  d_dependencies :: "string list"
  d_modulesDirs :: "string list"
  instancePersistencePath :: string
  transportSetJson :: string
  d_rawMetadata :: json
  loaderConfig :: json

definition emptyDescriptor :: ModuleDescriptor where
  "emptyDescriptor = \<lparr>d_name = [], d_path = [], d_format = [], d_dependencies = [], d_modulesDirs = [],
     instancePersistencePath = [], transportSetJson = [], d_rawMetadata = JNull, loaderConfig = JNull\<rparr>"

datatype LoadVerdict = VerdictLoaded | VerdictFailed | VerdictUnknown

record LoadOutcome =
  verdict :: LoadVerdict
  lo_reason :: string

definition unknownOutcome :: LoadOutcome where
  "unknownOutcome = \<lparr>verdict = VerdictUnknown, lo_reason = []\<rparr>"

record ModuleResourceUsage =
  cpuTimeSeconds :: rat
  memoryBytes :: nat
  memoryIsResident :: bool

text \<open>How a call to \<open>load\<close> or \<open>launch\<close> ends.\<close>

datatype launch_result =
    Launched LoadedModuleHandle
  | NotLaunched
  | LaunchThrew exn

section \<open>Interfaces\<close>

record 'c ModuleLoader =
  l_id :: string
  l_canHandle :: "ModuleDescriptor \<Rightarrow> bool"
  l_load :: "ModuleDescriptor \<Rightarrow> 'c \<Rightarrow> launch_result \<times> string list \<times> 'c"
  l_sendToken :: "string \<Rightarrow> string \<Rightarrow> 'c \<Rightarrow> bool \<times> string list \<times> 'c"
  l_awaitLoad :: "string \<Rightarrow> nat \<Rightarrow> 'c \<Rightarrow> LoadOutcome \<times> string list \<times> 'c"
  l_terminate :: "string \<Rightarrow> 'c \<Rightarrow> string list \<times> 'c"
  l_terminateAll :: "'c \<Rightarrow> string list \<times> 'c"
  l_hasModule :: "string \<Rightarrow> 'c \<Rightarrow> bool"
  l_pid :: "string \<Rightarrow> 'c \<Rightarrow> int option"
  l_getAllPids :: "'c \<Rightarrow> int umap"
  l_getAllResourceUsage :: "'c \<Rightarrow> ModuleResourceUsage umap"

text \<open>The container and format loader contracts of the packages logos-container and
  logos-module-loader; \<open>c_usage\<close> is the optional \<open>ResourceMeasurable\<close> side of a container.\<close>

record 'c ModuleContainer =
  c_id :: string
  c_canHandle :: "ModuleDescriptor \<Rightarrow> bool"
  c_launch :: "ModuleDescriptor \<Rightarrow> string \<Rightarrow> string list \<Rightarrow> 'c \<Rightarrow> launch_result \<times> string list \<times> 'c"
  c_sendToken :: "string \<Rightarrow> string \<Rightarrow> 'c \<Rightarrow> bool \<times> string list \<times> 'c"
  c_awaitLoad :: "string \<Rightarrow> nat \<Rightarrow> 'c \<Rightarrow> LoadOutcome \<times> string list \<times> 'c"
  c_terminate :: "string \<Rightarrow> 'c \<Rightarrow> string list \<times> 'c"
  c_terminateAll :: "'c \<Rightarrow> string list \<times> 'c"
  c_hasModule :: "string \<Rightarrow> 'c \<Rightarrow> bool"
  c_pid :: "string \<Rightarrow> 'c \<Rightarrow> int option"
  c_getAllPids :: "'c \<Rightarrow> int umap"
  c_usage :: "('c \<Rightarrow> ModuleResourceUsage umap) option"

record ModuleFormatLoader =
  f_id :: string
  f_canHandle :: "ModuleDescriptor \<Rightarrow> bool"
  resolveHostBinary :: "ModuleDescriptor \<Rightarrow> string"
  buildArguments :: "ModuleDescriptor \<Rightarrow> string list"

section \<open>Format loaders\<close>

definition bareModuleFormatLoader :: "string \<Rightarrow> ModuleFormatLoader" where
  "bareModuleFormatLoader name = \<lparr>f_id = name, f_canHandle = (\<lambda>desc. d_format desc = ''bare''),
     resolveHostBinary = d_path, buildArguments = (\<lambda>_. [])\<rparr>"

definition webModuleFormatLoader :: "string \<Rightarrow> ModuleFormatLoader" where
  "webModuleFormatLoader name = \<lparr>f_id = name, f_canHandle = (\<lambda>desc. d_format desc = ''web''),
     resolveHostBinary = d_path, buildArguments = (\<lambda>_. [])\<rparr>"

section \<open>The composite loader\<close>

definition composite_load ::
  "'c ModuleContainer \<Rightarrow> ModuleFormatLoader \<Rightarrow> ModuleDescriptor \<Rightarrow> 'c \<Rightarrow>
   launch_result \<times> string list \<times> 'c" where
  "composite_load container fl desc s =
     (let host = resolveHostBinary fl desc in
      if host = [] then (NotLaunched, [], s)
      else c_launch container desc host (buildArguments fl desc) s)"

definition compositeModuleLoader :: "'c ModuleContainer \<Rightarrow> ModuleFormatLoader \<Rightarrow> 'c ModuleLoader" where
  "compositeModuleLoader container fl =
     \<lparr>l_id = f_id fl @ ''+'' @ c_id container,
      l_canHandle = (\<lambda>desc. f_canHandle fl desc \<and> c_canHandle container desc),
      l_load = composite_load container fl,
      l_sendToken = c_sendToken container,
      l_awaitLoad = c_awaitLoad container,
      l_terminate = c_terminate container,
      l_terminateAll = c_terminateAll container,
      l_hasModule = c_hasModule container,
      l_pid = c_pid container,
      l_getAllPids = c_getAllPids container,
      l_getAllResourceUsage = (case c_usage container of None \<Rightarrow> (\<lambda>_. []) | Some u \<Rightarrow> u)\<rparr>"

section \<open>The loader table\<close>

type_synonym 'c loaders = "'c ModuleLoader list"

definition registerLoader :: "'c ModuleLoader \<Rightarrow> 'c loaders \<Rightarrow> 'c loaders" where
  "registerLoader l ls = ls @ [l]"

fun firstLoader :: "('c ModuleLoader \<Rightarrow> bool) \<Rightarrow> 'c loaders \<Rightarrow> nat option" where
  "firstLoader P [] = None"
| "firstLoader P (l # ls) = (if P l then Some 0 else map_option Suc (firstLoader P ls))"

text \<open>The number of the loader chosen; an \<open>id\<close> that is not a string throws.\<close>

definition select :: "'c loaders \<Rightarrow> ModuleDescriptor \<Rightarrow> exn + nat option" where
  "select ls desc =
     (case jfind (loaderConfig desc) ''id'' of
        Some (JString requestedId) \<Rightarrow> Inr (firstLoader (\<lambda>l. l_id l = requestedId) ls)
      | Some _ \<Rightarrow> Inl TypeError
      | None \<Rightarrow> Inr (firstLoader (\<lambda>l. l_canHandle l desc) ls))"

fun loaders_terminateAll :: "'c loaders \<Rightarrow> 'c \<Rightarrow> string list \<times> 'c" where
  "loaders_terminateAll [] s = ([], s)"
| "loaders_terminateAll (l # ls) s =
     (let (ds, s') = l_terminateAll l s; (ds', s'') = loaders_terminateAll ls s' in (ds @ ds', s''))"

fun loaders_terminate :: "'c loaders \<Rightarrow> string \<Rightarrow> 'c \<Rightarrow> bool \<times> string list \<times> 'c" where
  "loaders_terminate [] name s = (False, [], s)"
| "loaders_terminate (l # ls) name s =
     (if l_hasModule l name s then (let (ds, s') = l_terminate l name s in (True, ds, s'))
      else loaders_terminate ls name s)"

text \<open>\<open>unordered_map::insert\<close> keeps the entry that is there.\<close>

definition insert_new :: "'v umap \<Rightarrow> 'v umap \<Rightarrow> 'v umap" where
  "insert_new m new = fold (\<lambda>(k, v) m. if k \<in> set (keys m) then m else m @ [(k, v)]) new m"

definition getAllPids :: "'c loaders \<Rightarrow> 'c \<Rightarrow> int umap" where
  "getAllPids ls s = fold (\<lambda>l result. insert_new result (l_getAllPids l s)) ls []"

definition getAllResourceUsage :: "'c loaders \<Rightarrow> 'c \<Rightarrow> ModuleResourceUsage umap" where
  "getAllResourceUsage ls s = fold (\<lambda>l result. insert_new result (l_getAllResourceUsage l s)) ls []"

definition clearForTests :: "'c loaders \<Rightarrow> 'c loaders" where
  "clearForTests ls = []"

section \<open>Selection\<close>

lemma firstLoader_Some:
  "firstLoader P ls = Some i \<longleftrightarrow> i < length ls \<and> P (ls ! i) \<and> (\<forall>j < i. \<not> P (ls ! j))"
proof (induction ls arbitrary: i)
  case (Cons l ls)
  show ?case
  proof (cases i)
    case 0
    then show ?thesis by auto
  next
    case (Suc k)
    show ?thesis using Cons.IH [of k] by (auto simp: Suc less_Suc_eq_0_disj)
  qed
qed simp

lemma firstLoader_None: "firstLoader P ls = None \<longleftrightarrow> (\<forall>l \<in> set ls. \<not> P l)"
  by (induction ls) auto

text \<open>
  A descriptor without an explicit loader id goes to the first loader in registration order that
  accepts it; an explicit id picks that loader and never falls through to another.
\<close>

theorem select_first:
  "(\<forall>id. jfind (loaderConfig desc) ''id'' = Some (JString id) \<longrightarrow>
      (\<exists>r. select ls desc = Inr r \<and>
        (\<forall>i. r = Some i \<longleftrightarrow> i < length ls \<and> l_id (ls ! i) = id \<and> (\<forall>j < i. l_id (ls ! j) \<noteq> id)) \<and>
        (r = None \<longleftrightarrow> (\<forall>l \<in> set ls. l_id l \<noteq> id))))
   \<and> (jfind (loaderConfig desc) ''id'' = None \<longrightarrow>
      (\<exists>r. select ls desc = Inr r \<and>
        (\<forall>i. r = Some i \<longleftrightarrow> i < length ls \<and> l_canHandle (ls ! i) desc \<and> (\<forall>j < i. \<not> l_canHandle (ls ! j) desc)) \<and>
        (r = None \<longleftrightarrow> (\<forall>l \<in> set ls. \<not> l_canHandle l desc))))"
  by (simp add: select_def firstLoader_Some firstLoader_None)

theorem select_first_witness:
  "\<forall>c. \<exists>r. select [compositeModuleLoader c (bareModuleFormatLoader ''a''), compositeModuleLoader c (webModuleFormatLoader ''b'')]
       (emptyDescriptor\<lparr>loaderConfig := JObject [(''id'', JString (''b+'' @ c_id c))]\<rparr>) = Inr r \<and> r = Some 1"
proof
  fix c :: "'c ModuleContainer"
  let ?ls = "[compositeModuleLoader c (bareModuleFormatLoader ''a''), compositeModuleLoader c (webModuleFormatLoader ''b'')]"
  let ?d = "emptyDescriptor\<lparr>loaderConfig := JObject [(''id'', JString (''b+'' @ c_id c))]\<rparr>"
  have ids: "l_id (?ls ! 0) = ''a+'' @ c_id c" "l_id (?ls ! 1) = ''b+'' @ c_id c"
    by (simp_all add: compositeModuleLoader_def bareModuleFormatLoader_def webModuleFormatLoader_def)
  have "jfind (loaderConfig ?d) ''id'' = Some (JString (''b+'' @ c_id c))"
    by (simp add: jfind_def)
  with select_first [of ?d ?ls] obtain r where r: "select ?ls ?d = Inr r"
    "\<forall>i. r = Some i \<longleftrightarrow> i < length ?ls \<and> l_id (?ls ! i) = ''b+'' @ c_id c \<and> (\<forall>j < i. l_id (?ls ! j) \<noteq> ''b+'' @ c_id c)"
    by blast
  have "r = Some 1" using r(2) ids by (simp add: less_Suc_eq)
  with r(1) show "\<exists>r. select ?ls ?d = Inr r \<and> r = Some 1" by blast
qed

section \<open>Aggregation\<close>

lemma map_of_append_new: "map_of (m @ [(k, v)]) x = (case map_of m x of None \<Rightarrow> if x = k then Some v else None | Some y \<Rightarrow> Some y)"
  by (simp add: map_add_def split: option.split)

lemma map_of_insert_new:
  "map_of (insert_new m new) x = (case map_of m x of Some v \<Rightarrow> Some v | None \<Rightarrow> map_of new x)"
proof (induction new arbitrary: m)
  case Nil
  then show ?case by (simp add: insert_new_def split: option.split)
next
  case (Cons e new)
  obtain k v where e: "e = (k, v)" by (cases e)
  let ?m = "if k \<in> set (keys m) then m else m @ [(k, v)]"
  have "insert_new m (e # new) = insert_new ?m new" by (simp add: insert_new_def e)
  moreover have "map_of ?m x = (case map_of m x of None \<Rightarrow> if x = k then Some v else None | Some y \<Rightarrow> Some y)"
    by (auto simp: map_of_append_new map_of_None_keys [symmetric] simp del: set_map map_of_append split: option.split)
  ultimately show ?case using Cons.IH [of ?m] by (auto simp: e split: option.splits)
qed

lemma map_of_insert_all:
  "map_of (fold (\<lambda>l result. insert_new result (f l)) ls m) x =
     (case map_of m x of Some v \<Rightarrow> Some v
      | None \<Rightarrow> map_of (fold (\<lambda>l result. insert_new result (f l)) ls []) x)"
proof (induction ls arbitrary: m)
  case (Cons l ls)
  show ?case
    unfolding fold.simps comp_def Cons.IH [of "insert_new m (f l)"] Cons.IH [of "insert_new [] (f l)"]
    by (simp add: map_of_insert_new split: option.split)
qed (simp split: option.split)

text \<open>
  On a name two loaders report, the pid aggregated is the one of the loader registered first: the
  later entry is not inserted. (The header says the later loader wins.)
\<close>

theorem pids_first_loader_wins:
  assumes "\<forall>l \<in> set pre. map_of (l_getAllPids l s) name = None"
    and "map_of (l_getAllPids l s) name = Some p"
  shows "map_of (getAllPids (pre @ l # post) s) name = Some p"
proof -
  have "map_of (getAllPids pre s) name = None"
    using assms(1)
  proof (induction pre rule: rev_induct)
    case (snoc k ks)
    then show ?case by (simp add: getAllPids_def map_of_insert_new)
  qed (simp add: getAllPids_def)
  then have "map_of (insert_new (getAllPids pre s) (l_getAllPids l s)) name = Some p"
    using assms(2) by (simp add: map_of_insert_new)
  then show ?thesis
    using map_of_insert_all [of "\<lambda>l. l_getAllPids l s" post "insert_new (getAllPids pre s) (l_getAllPids l s)" name]
    by (simp add: getAllPids_def)
qed

theorem pids_first_loader_wins_witness:
  "\<forall>l :: 'c ModuleLoader. \<forall>s. map_of (getAllPids ([] @ (l\<lparr>l_getAllPids := (\<lambda>_. [(''m'', 7)])\<rparr>) #
     [l\<lparr>l_getAllPids := (\<lambda>_. [(''m'', 9)])\<rparr>]) s) ''m'' = Some 7"
  by (intro allI pids_first_loader_wins) simp_all

section \<open>The contract\<close>

text \<open>
  What the manager relies on. A call about one module announces no termination but that module's, once, and a
  module announced as terminated is gone; only a launch that succeeds adds a module, and no call
  touches another module; a terminated module is gone. Stated for a container; a composite loader
  passes it on. \<open>ends_only\<close> is what every call but a successful launch has in common.
\<close>

definition ends_only :: "('c \<Rightarrow> bool) \<Rightarrow> (string \<Rightarrow> 'c \<Rightarrow> bool) \<Rightarrow> string \<Rightarrow> 'c \<Rightarrow> string list \<Rightarrow> 'c \<Rightarrow> bool" where
  "ends_only ok has name s ds s' \<longleftrightarrow> ok s' \<and> (ds = [] \<or> ds = [name]) \<and> (ds \<noteq> [] \<longrightarrow> \<not> has name s')
     \<and> (\<forall>n. n \<noteq> name \<longrightarrow> has n s' = has n s) \<and> (has name s' \<longrightarrow> has name s)"

definition starts_only :: "('c \<Rightarrow> bool) \<Rightarrow> (string \<Rightarrow> 'c \<Rightarrow> bool) \<Rightarrow> string \<Rightarrow> 'c \<Rightarrow> string list \<Rightarrow> 'c \<Rightarrow> bool" where
  "starts_only ok has name s ds s' \<longleftrightarrow> ok s' \<and> (ds = [] \<or> ds = [name]) \<and> (has name s' \<longleftrightarrow> ds = [])
     \<and> (\<forall>n. n \<noteq> name \<longrightarrow> has n s' = has n s)"

lemma ends_only_refl [simp]: "ok s \<Longrightarrow> ends_only ok has name s [] s"
  by (simp add: ends_only_def)

locale module_container =
  fixes container :: "'c ModuleContainer" and ok :: "'c \<Rightarrow> bool"
  assumes launch_ends: "ok s \<Longrightarrow> c_launch container desc host args s = (r, ds, s') \<Longrightarrow> (\<And>h. r \<noteq> Launched h) \<Longrightarrow>
      ends_only ok (c_hasModule container) (d_name desc) s ds s'"
    and launch_starts: "ok s \<Longrightarrow> c_launch container desc host args s = (Launched h, ds, s') \<Longrightarrow>
      starts_only ok (c_hasModule container) (d_name desc) s ds s'"
    and token_ends: "ok s \<Longrightarrow> c_sendToken container name token s = (sent, ds, s') \<Longrightarrow>
      ends_only ok (c_hasModule container) name s ds s'"
    and await_ends: "ok s \<Longrightarrow> c_awaitLoad container name timeout s = (outcome, ds, s') \<Longrightarrow>
      ends_only ok (c_hasModule container) name s ds s'"
    and terminate_ends: "ok s \<Longrightarrow> c_terminate container name s = (ds, s') \<Longrightarrow>
      ends_only ok (c_hasModule container) name s ds s'"
    and terminate_gone: "ok s \<Longrightarrow> c_terminate container name s = (ds, s') \<Longrightarrow> \<not> c_hasModule container name s'"
    and terminateAll_ok: "ok s \<Longrightarrow> c_terminateAll container s = (ds, s') \<Longrightarrow> ok s' \<and> distinct ds \<and> (\<forall>n \<in> set ds. c_hasModule container n s)"
    and terminateAll_gone: "ok s \<Longrightarrow> c_terminateAll container s = (ds, s') \<Longrightarrow> \<not> c_hasModule container name s'"
begin

text \<open>An unload after any launch leaves the module gone and the others as they were.\<close>

lemma launch_terminate_gone:
  assumes "ok s" and "c_launch container desc host args s = (r, ds, s1)"
    and "c_terminate container (d_name desc) s1 = (ds', s2)"
  shows "\<not> c_hasModule container (d_name desc) s2"
    and "n \<noteq> d_name desc \<Longrightarrow> c_hasModule container n s2 = c_hasModule container n s"
proof -
  have "ok s1 \<and> (\<forall>n. n \<noteq> d_name desc \<longrightarrow> c_hasModule container n s1 = c_hasModule container n s)"
    using launch_ends [OF assms(1,2)] launch_starts [OF assms(1), of desc host args _ ds s1] assms(2)
    by (cases r) (auto simp: ends_only_def starts_only_def)
  then show "\<not> c_hasModule container (d_name desc) s2"
    and "n \<noteq> d_name desc \<Longrightarrow> c_hasModule container n s2 = c_hasModule container n s"
    using terminate_gone [OF _ assms(3)] terminate_ends [OF _ assms(3)] by (auto simp: ends_only_def)
qed

end

text \<open>What the manager needs of one loader.\<close>

locale module_runner =
  fixes l :: "'c ModuleLoader" and ok :: "'c \<Rightarrow> bool"
  assumes load_ends: "ok s \<Longrightarrow> l_load l desc s = (r, ds, s') \<Longrightarrow> (\<And>h. r \<noteq> Launched h) \<Longrightarrow>
      ends_only ok (l_hasModule l) (d_name desc) s ds s'"
    and load_starts: "ok s \<Longrightarrow> l_load l desc s = (Launched h, ds, s') \<Longrightarrow>
      starts_only ok (l_hasModule l) (d_name desc) s ds s'"
    and token_ends: "ok s \<Longrightarrow> l_sendToken l name token s = (sent, ds, s') \<Longrightarrow> ends_only ok (l_hasModule l) name s ds s'"
    and await_ends: "ok s \<Longrightarrow> l_awaitLoad l name timeout s = (outcome, ds, s') \<Longrightarrow> ends_only ok (l_hasModule l) name s ds s'"
    and terminate_ends: "ok s \<Longrightarrow> l_terminate l name s = (ds, s') \<Longrightarrow> ends_only ok (l_hasModule l) name s ds s'"
    and terminate_gone: "ok s \<Longrightarrow> l_terminate l name s = (ds, s') \<Longrightarrow> \<not> l_hasModule l name s'"
    and terminateAll_ok: "ok s \<Longrightarrow> l_terminateAll l s = (ds, s') \<Longrightarrow> ok s' \<and> distinct ds \<and> (\<forall>n \<in> set ds. l_hasModule l n s)"
    and terminateAll_gone: "ok s \<Longrightarrow> l_terminateAll l s = (ds, s') \<Longrightarrow> \<not> l_hasModule l name s'"

sublocale module_container \<subseteq> runner: module_runner "compositeModuleLoader container fl" ok for fl
proof (unfold_locales, goal_cases)
  case (1 s desc r ds s')
  then show ?case
    using launch_ends [of s desc "resolveHostBinary fl desc" "buildArguments fl desc" r ds s']
    by (auto simp: compositeModuleLoader_def composite_load_def Let_def split: if_splits)
next
  case (2 s desc h ds s')
  then show ?case
    using launch_starts [of s desc "resolveHostBinary fl desc" "buildArguments fl desc" h ds s']
    by (auto simp: compositeModuleLoader_def composite_load_def Let_def split: if_splits)
qed (simp_all add: compositeModuleLoader_def token_ends await_ends terminate_ends terminate_gone terminateAll_ok terminateAll_gone)

text \<open>What it needs of the table: every loader keeps the contract, and none moves another's modules.\<close>

definition keeps :: "('c \<Rightarrow> bool) \<Rightarrow> 'c ModuleLoader \<Rightarrow> bool" where
  "keeps P l \<longleftrightarrow> (\<forall>s. (\<forall>desc. P (snd (snd (l_load l desc s))) = P s)
     \<and> (\<forall>name token. P (snd (snd (l_sendToken l name token s))) = P s)
     \<and> (\<forall>name timeout. P (snd (snd (l_awaitLoad l name timeout s))) = P s)
     \<and> (\<forall>name. P (snd (l_terminate l name s)) = P s)
     \<and> P (snd (l_terminateAll l s)) = P s)"

locale loader_fleet =
  fixes ls :: "'c loaders" and ok :: "'c \<Rightarrow> bool"
  assumes runs: "i < length ls \<Longrightarrow> module_runner (ls ! i) ok"
    and apart: "i < length ls \<Longrightarrow> j < length ls \<Longrightarrow> i \<noteq> j \<Longrightarrow> keeps (l_hasModule (ls ! j) n) (ls ! i)"
begin

lemmas load_ends = module_runner.load_ends [OF runs]
lemmas load_starts = module_runner.load_starts [OF runs]
lemmas token_ends = module_runner.token_ends [OF runs]
lemmas await_ends = module_runner.await_ends [OF runs]
lemmas terminate_ends = module_runner.terminate_ends [OF runs]
lemmas terminate_gone = module_runner.terminate_gone [OF runs]
lemmas terminateAll_ok = module_runner.terminateAll_ok [OF runs]
lemmas terminateAll_gone = module_runner.terminateAll_gone [OF runs]

lemma others:
  assumes "i < length ls" and "j < length ls" and "i \<noteq> j"
  shows "l_load (ls ! i) desc s = (r, ds, s') \<Longrightarrow> l_hasModule (ls ! j) n s' = l_hasModule (ls ! j) n s"
    and "l_sendToken (ls ! i) name token s = (sent, ds, s') \<Longrightarrow> l_hasModule (ls ! j) n s' = l_hasModule (ls ! j) n s"
    and "l_awaitLoad (ls ! i) name timeout s = (outcome, ds, s') \<Longrightarrow> l_hasModule (ls ! j) n s' = l_hasModule (ls ! j) n s"
    and "l_terminate (ls ! i) name s = (ds, s') \<Longrightarrow> l_hasModule (ls ! j) n s' = l_hasModule (ls ! j) n s"
    and "l_terminateAll (ls ! i) s = (ds, s') \<Longrightarrow> l_hasModule (ls ! j) n s' = l_hasModule (ls ! j) n s"
  using apart [OF assms, of n] unfolding keeps_def by (metis snd_conv)+

end

end
