(* ===== verification/ManagerState.thy ===== *)
theory ManagerState
  imports AccessPolicy ProtocolGate RegistryLifecycle Supervisor LoaderRegistry
begin

text \<open>
  \<open>src/logos_core/module_manager.cpp\<close>, first part: the process-wide state of the manager and what it
  tells \<open>capability_module\<close> and \<open>modules_state\<close>. The function-local statics of the file are the fields
  of \<open>world\<close>, together with the registry, the observer, the supervisor, the loader table and the state
  \<open>'c\<close> of the containers. The remote calls are the log \<open>rpcs\<close>; a closure posted to the owner thread is
  an \<open>owner_job\<close>, run at once on that thread and queued elsewhere. The locks are not state: an
  operation runs to its end, and what other threads may do meanwhile is the death of a module, which
  a loader call returns and \<open>LoadRace\<close> interleaves.
\<close>

section \<open>State\<close>

datatype rpc =
    RegisterRestriction string string "string list"
  | InformModuleToken string string string
  | WatchObject string "string option" "int option" "64 word"
  | WatchModulesState
  | ApplySnapshot json
  | NoteTransition ModuleTransition

datatype owner_job =
    JobRestrictions "AccessRestriction list"
  | JobRefresh string
  | JobDerivedAll
  | JobInform string string
  | JobWatch string "string option" "int option" "64 word"
  | JobWatchState
  | JobTransitions "ModuleTransition list"

text \<open>What the host, the libraries and the clocks answer.\<close>

record mgr_env =
  e_hash :: hash_iter
  e_hostMajor :: int
  e_extractMetadata :: "string \<Rightarrow> string option"
  e_parse :: "string \<Rightarrow> json option"
  e_dump :: "json \<Rightarrow> string"
  e_resolveInstance :: "string \<Rightarrow> string \<Rightarrow> string \<times> string"
  e_validRange :: "string \<Rightarrow> bool"
  e_satisfies :: "string \<Rightarrow> string \<Rightarrow> bool"
  e_now :: int
  e_steady :: int
  e_uuid :: "nat \<Rightarrow> string"
  e_onOwner :: bool

record 'c world =
  w_registry :: registry
  w_observer :: observer
  w_supervisor :: supervisor
  w_loaders :: "'c loaders"
  w_containers :: 'c
  inFlightLoads :: "bool umap"
  expectedExits :: "string list"
  hostStaysSilent :: bool
  containerPolicyValue :: string
  persistenceBasePath :: string
  moduleTransportsMap :: "string umap"
  accessPolicyJson :: string
  parsedEnforcePolicy :: "AccessPolicy option"
  tokens :: "string umap"
  minted :: nat
  ownerQueue :: "owner_job list"
  rpcs :: "rpc list"
  scheduledRestarts :: "(int \<times> string) list"
  insideLoad :: bool

definition newWorld :: "'c loaders \<Rightarrow> 'c \<Rightarrow> 'c world" where
  "newWorld ls c = \<lparr>w_registry = emptyRegistry, w_observer = new_observer, w_supervisor = newSupervisor,
     w_loaders = ls, w_containers = c, inFlightLoads = [], expectedExits = [], hostStaysSilent = False,
     containerPolicyValue = ''auto'', persistenceBasePath = [], moduleTransportsMap = [],
     accessPolicyJson = [], parsedEnforcePolicy = None, tokens = [], minted = 0, ownerQueue = [], rpcs = [],
     scheduledRestarts = [], insideLoad = False\<rparr>"

abbreviation kCapabilityModule :: string where "kCapabilityModule \<equiv> ''capability_module''"
abbreviation kModulesState :: string where "kModulesState \<equiv> ''modules_state''"

definition kTrustedCallers :: "string list" where
  "kTrustedCallers = [''core'', ''core_service'']"

definition kExemptTargets :: "string list" where
  "kExemptTargets = [''capability_module'', ''core'', ''core_service'']"

definition kLoadVerdictTimeout :: nat where "kLoadVerdictTimeout = 10000"
definition kSilentHostGrace :: nat where "kSilentHostGrace = 1000"

text \<open>The number that stands for \<open>pushTransitions\<close> as the observer's sink.\<close>

definition feedSink :: nat where "feedSink = 0"

definition getToken :: "string \<Rightarrow> 'c world \<Rightarrow> string" where
  "getToken name w = (case map_of (tokens w) name of None \<Rightarrow> [] | Some t \<Rightarrow> t)"

definition saveToken :: "string \<Rightarrow> string \<Rightarrow> 'c world \<Rightarrow> 'c world" where
  "saveToken name token w = w\<lparr>tokens := AList.update name token (tokens w)\<rparr>"

definition call_rpc :: "rpc \<Rightarrow> 'c world \<Rightarrow> 'c world" where
  "call_rpc c w = w\<lparr>rpcs := rpcs w @ [c]\<rparr>"

definition record_edge ::
  "string \<Rightarrow> string \<Rightarrow> string \<Rightarrow> string option \<Rightarrow> int option \<Rightarrow> string option \<Rightarrow> 'c world \<Rightarrow> 'c world" where
  "record_edge name old new inst pid reason w =
     w\<lparr>w_observer := record_transition name old new inst pid reason (w_observer w)\<rparr>"

section \<open>Announced teardowns and load attempts\<close>

definition markExitExpected :: "string \<Rightarrow> 'c world \<Rightarrow> 'c world" where
  "markExitExpected name w = w\<lparr>expectedExits := uset_insert name (expectedExits w)\<rparr>"

definition consumeExpectedExit :: "string \<Rightarrow> 'c world \<Rightarrow> bool \<times> 'c world" where
  "consumeExpectedExit name w =
     (name \<in> set (expectedExits w), w\<lparr>expectedExits := removeAll name (expectedExits w)\<rparr>)"

definition markAllLoadedExitsExpected :: "mgr_env \<Rightarrow> 'c world \<Rightarrow> 'c world" where
  "markAllLoadedExitsExpected E w = fold markExitExpected (loadedModuleNames (e_hash E) (w_registry w)) w"

definition clearExpectedExits :: "'c world \<Rightarrow> 'c world" where
  "clearExpectedExits w = w\<lparr>expectedExits := []\<rparr>"

definition beginLoadAttempt :: "string \<Rightarrow> 'c world \<Rightarrow> 'c world" where
  "beginLoadAttempt name w = w\<lparr>inFlightLoads := AList.update name False (inFlightLoads w)\<rparr>"

definition abandonLoadAttempt :: "string \<Rightarrow> 'c world \<Rightarrow> 'c world" where
  "abandonLoadAttempt name w = w\<lparr>inFlightLoads := AList.delete name (inFlightLoads w)\<rparr>"

definition recordTerminationDuringLoad :: "string \<Rightarrow> 'c world \<Rightarrow> bool \<times> 'c world" where
  "recordTerminationDuringLoad name w =
     (let w = w\<lparr>w_registry := markUnloaded name (w_registry w)\<rparr> in
      case map_of (inFlightLoads w) name of
        None \<Rightarrow> (False, w)
      | Some _ \<Rightarrow> (True, w\<lparr>inFlightLoads := AList.update name True (inFlightLoads w)\<rparr>))"

definition commitLoad :: "int \<Rightarrow> string \<Rightarrow> nat \<Rightarrow> LoadedModuleHandle \<Rightarrow> 'c world \<Rightarrow> bool \<times> 'c world" where
  "commitLoad now name ld h w =
     (let died = (map_of (inFlightLoads w) name = Some True);
          w = w\<lparr>inFlightLoads := AList.delete name (inFlightLoads w)\<rparr> in
      if died then (False, w)
      else (True, w\<lparr>w_registry := markLoadedBy now name (Some ld) h (w_registry w)\<rparr>))"

section \<open>The container policy\<close>

definition kPolicyExempt :: "string list" where
  "kPolicyExempt = [''capability_module'', ''modules_state'', ''core'', ''core_service'']"

definition containerPolicyMismatch :: "string \<Rightarrow> string \<Rightarrow> string \<Rightarrow> string option" where
  "containerPolicyMismatch p name fmt =
     (if name \<in> set kPolicyExempt then None
      else let isBare = (fmt = ''bare''); isWeb = (fmt = ''web''); isQtPlugin = (\<not> isBare \<and> \<not> isWeb) in
      if p = ''inproc'' then
        (if isBare then None
         else if isWeb then Some (''the container policy is '' @ CHR 0x27 # ''inproc'' @ CHR 0x27 # '' but this module is a web variant, which only the Web container can run'')
         else Some (''the container policy is '' @ CHR 0x27 # ''inproc'' @ CHR 0x27 # '' but this module is a Qt plugin, which only a subprocess host can run '' @
           emDash @ '' it ships no Bare module artifact''))
      else if p = ''subprocess'' then
        (if isQtPlugin then None
         else if isBare then Some (''the container policy is '' @ CHR 0x27 # ''subprocess'' @ CHR 0x27 # '' but this module is a Bare module image, which only the Native container can run'')
         else Some (''the container policy is '' @ CHR 0x27 # ''subprocess'' @ CHR 0x27 # '' but this module is a web variant, which only the Web container can run''))
      else if p = ''web'' then
        (if isWeb then None
         else if isBare then Some (''the container policy is '' @ CHR 0x27 # ''web'' @ CHR 0x27 # '' but this module is a Bare module image, which only the Native container can run'')
         else Some (''the container policy is '' @ CHR 0x27 # ''web'' @ CHR 0x27 # '' but this module is a Qt plugin, which only a subprocess host can run '' @
           emDash @ '' it ships no web variant''))
      else None)"

section \<open>Access restrictions\<close>

text \<open>The guard of one list element is the \<open>seen\<close> set of \<open>add\<close>.\<close>

definition addCaller :: "string \<Rightarrow> string list \<Rightarrow> string list" where
  "addCaller c callers = uset_insert c callers"

definition derivedAllowedCallersFor :: "string \<Rightarrow> 'c world \<Rightarrow> string list" where
  "derivedAllowedCallersFor name w =
     (if name \<in> set kExemptTargets then []
      else case parsedEnforcePolicy w of
        None \<Rightarrow> []
      | Some p \<Rightarrow>
          (case List.find (\<lambda>r. target r = name) (restrictions p) of
             Some r \<Rightarrow> allowedCallers r
           | None \<Rightarrow>
               let r = w_registry w;
                   callers = fold addCaller (filter (isLoaded r) (directDependents r name)) [];
                   callers = fold addCaller (filter (isLoaded r) (moduleOptionalDependents r name)) callers
               in fold addCaller kTrustedCallers callers))"

definition registerRestrictionRpc :: "string \<Rightarrow> string list \<Rightarrow> 'c world \<Rightarrow> 'c world" where
  "registerRestrictionRpc name callers w = call_rpc (RegisterRestriction (getToken kCapabilityModule w) name callers) w"

definition pushDerivedRestrictionForTarget :: "string \<Rightarrow> 'c world \<Rightarrow> 'c world" where
  "pushDerivedRestrictionForTarget name w =
     (if \<not> isLoaded (w_registry w) kCapabilityModule then w
      else let callers = derivedAllowedCallersFor name w in
        if callers = [] then w else registerRestrictionRpc name callers w)"

section \<open>The owner thread\<close>

definition runJob :: "mgr_env \<Rightarrow> owner_job \<Rightarrow> 'c world \<Rightarrow> 'c world" where
  "runJob E job w = (case job of
     JobRestrictions rs \<Rightarrow>
       fold (\<lambda>r w. if target r \<in> set kExemptTargets then w else registerRestrictionRpc (target r) (allowedCallers r) w) rs w
   | JobRefresh name \<Rightarrow>
       (let r = w_registry w in
        pushDerivedRestrictionForTarget name
          (fold pushDerivedRestrictionForTarget (moduleOptionalDependencies r name)
            (fold pushDerivedRestrictionForTarget (directDependencies r name) w)))
   | JobDerivedAll \<Rightarrow> fold pushDerivedRestrictionForTarget (loadedModuleNames (e_hash E) (w_registry w)) w
   | JobInform name token \<Rightarrow> call_rpc (InformModuleToken (getToken kCapabilityModule w) name token) w
   | JobWatch name inst pid e \<Rightarrow> call_rpc (WatchObject name inst pid e) w
   | JobWatchState \<Rightarrow> call_rpc WatchModulesState w
   | JobTransitions batch \<Rightarrow> fold (\<lambda>t. call_rpc (NoteTransition t)) batch w)"

definition runOnOwner :: "mgr_env \<Rightarrow> owner_job \<Rightarrow> 'c world \<Rightarrow> 'c world" where
  "runOnOwner E job w = (if e_onOwner E then runJob E job w else w\<lparr>ownerQueue := ownerQueue w @ [job]\<rparr>)"

text \<open>One turn of the owner thread's event loop.\<close>

definition serveOwner :: "mgr_env \<Rightarrow> 'c world \<Rightarrow> 'c world" where
  "serveOwner E w = (case ownerQueue w of [] \<Rightarrow> w | job # jobs \<Rightarrow> runJob E job (w\<lparr>ownerQueue := jobs\<rparr>))"

definition pushAccessRestrictionsToCapabilityModule :: "mgr_env \<Rightarrow> 'c world \<Rightarrow> 'c world" where
  "pushAccessRestrictionsToCapabilityModule E w =
     (if \<not> isLoaded (w_registry w) kCapabilityModule then w
      else case parsedEnforcePolicy w of None \<Rightarrow> w | Some p \<Rightarrow> runOnOwner E (JobRestrictions (restrictions p)) w)"

definition refreshDerivedRestrictionsForDependenciesOf :: "mgr_env \<Rightarrow> string \<Rightarrow> 'c world \<Rightarrow> 'c world" where
  "refreshDerivedRestrictionsForDependenciesOf E name w =
     (if \<not> isLoaded (w_registry w) kCapabilityModule then w else runOnOwner E (JobRefresh name) w)"

definition notifyCapabilityModule :: "mgr_env \<Rightarrow> string \<Rightarrow> string \<Rightarrow> 'c world \<Rightarrow> 'c world" where
  "notifyCapabilityModule E name token w =
     (if \<not> isLoaded (w_registry w) kCapabilityModule then w else runOnOwner E (JobInform name token) w)"

section \<open>The modules_state feed\<close>

definition armReadinessWatch :: "mgr_env \<Rightarrow> string \<Rightarrow> string option \<Rightarrow> int option \<Rightarrow> 'c world \<Rightarrow> 'c world" where
  "armReadinessWatch E name inst pid w =
     (if \<not> hasSink (w_observer w) then w
      else let w = w\<lparr>w_registry := beginPublishWatch name (w_registry w)\<rparr>
        in runOnOwner E (JobWatch name inst pid (loadEpoch (w_registry w) name)) w)"

definition pushTransitions :: "mgr_env \<Rightarrow> ModuleTransition list \<Rightarrow> 'c world \<Rightarrow> 'c world" where
  "pushTransitions E batch w =
     (if \<not> isLoaded (w_registry w) kModulesState then w else runOnOwner E (JobTransitions batch) w)"

text \<open>The calls of the sink that an operation on the observer made: the batches it logged since \<open>ob\<close>.\<close>

definition deliverSince :: "mgr_env \<Rightarrow> observer \<Rightarrow> 'c world \<Rightarrow> 'c world" where
  "deliverSince E ob w =
     fold (\<lambda>(sink, batch) w. if sink = feedSink then pushTransitions E batch w else w)
       (drop (length (dispatched ob)) (dispatched (w_observer w))) w"

definition flushFeed :: "mgr_env \<Rightarrow> 'c world \<Rightarrow> 'c world" where
  "flushFeed E w = deliverSince E (w_observer w) (w\<lparr>w_observer := flush (w_observer w)\<rparr>)"

text \<open>The callback of a readiness watch, on the owner's event loop.\<close>

definition objectAvailable ::
  "mgr_env \<Rightarrow> bool \<Rightarrow> string \<Rightarrow> string option \<Rightarrow> int option \<Rightarrow> 64 word \<Rightarrow> 'c world \<Rightarrow> 'c world" where
  "objectAvailable E ready name inst pid e w =
     (if \<not> ready then w
      else let (marked, r) = markPublished (e_now E) name e (w_registry w) in
        if \<not> marked then w
        else flushFeed E (record_edge name kLoaded kReady inst pid None (w\<lparr>w_registry := r\<rparr>)))"

text \<open>\<open>value(key, default)\<close> and the tolerant reads of one entry of \<open>allModulesInfo\<close>.\<close>

definition entry_member :: "json \<Rightarrow> string \<Rightarrow> json \<Rightarrow> json" where
  "entry_member info k d = (case jfind info k of None \<Rightarrow> d | Some v \<Rightarrow> v)"

definition metadata_string :: "json \<Rightarrow> string \<Rightarrow> string" where
  "metadata_string info k =
     (case jfind info ''metadata'' of
        Some (JObject ms) \<Rightarrow> (case map_of ms k of Some (JString s) \<Rightarrow> s | _ \<Rightarrow> [])
      | _ \<Rightarrow> [])"

definition snapshotRecord :: "json \<Rightarrow> string \<Rightarrow> 64 word \<Rightarrow> json" where
  "snapshotRecord info name seq =
     (let isloaded = (jfind info ''loaded'' = Some (JBool True));
          ready = (jfind info ''published'' = Some (JBool True))
      in JObject
        [(''dependencies'', entry_member info ''dependencies'' (JArray [])),
         (''dependents'', entry_member info ''dependents'' (JArray [])),
         (''loadedAt'', entry_member info ''loaded_at'' (JInt 0)),
         (''module'', JString name),
         (''path'', entry_member info ''path'' (JString [])),
         (''seq'', JInt (uint seq)),
         (''state'', JString (if \<not> isloaded then kUnloaded else if ready then kReady else kLoaded)),
         (''type'', JString (metadata_string info ''type'')),
         (''version'', JString (metadata_string info ''version''))])"

fun snapshotRecords :: "json list \<Rightarrow> observer \<Rightarrow> json list \<times> observer" where
  "snapshotRecords [] ob = ([], ob)"
| "snapshotRecords (info # infos) ob =
     (let name = (case jfind info ''name'' of Some (JString n) \<Rightarrow> n | _ \<Rightarrow> []) in
      if name = [] then snapshotRecords infos ob
      else let (seq, ob) = nextSeq ob; (recs, ob) = snapshotRecords infos ob
        in (snapshotRecord info name seq # recs, ob))"

fun elements :: "json \<Rightarrow> json list" where
  "elements (JArray xs) = xs"
| "elements _ = []"

definition buildSnapshotListing :: "mgr_env \<Rightarrow> 'c world \<Rightarrow> json \<times> 'c world" where
  "buildSnapshotListing E w =
     (let (recs, ob) = snapshotRecords (elements (allModulesInfo (e_hash E) (e_parse E) (w_registry w))) (w_observer w);
          (seq, ob) = nextSeq ob
      in (JObject [(''modules'', JArray recs), (''partial'', JBool False), (''seq'', JInt (uint seq))],
          w\<lparr>w_observer := ob\<rparr>))"

definition pushSnapshot :: "mgr_env \<Rightarrow> 'c world \<Rightarrow> 'c world" where
  "pushSnapshot E w =
     (if \<not> isLoaded (w_registry w) kModulesState then w
      else let (listing, w) = buildSnapshotListing E w in call_rpc (ApplySnapshot listing) w)"

definition enableModulesStateFeed :: "mgr_env \<Rightarrow> 'c world \<Rightarrow> 'c world" where
  "enableModulesStateFeed E w =
     runOnOwner E JobWatchState (w\<lparr>w_observer := setSink (Some feedSink) (w_observer w)\<rparr>)"

definition modulesStateAvailable :: "mgr_env \<Rightarrow> bool \<Rightarrow> 'c world \<Rightarrow> 'c world" where
  "modulesStateAvailable E ready w = (if ready then pushSnapshot E w else w)"

definition disableModulesStateFeed :: "'c world \<Rightarrow> 'c world" where
  "disableModulesStateFeed w = w\<lparr>w_observer := setSink None (w_observer w)\<rparr>"

end
