(* ===== verification/BareModuleAbi.thy ===== *)
theory BareModuleAbi
  imports ProtocolGate
begin

text \<open>
  \<open>src/logos_core/bare_module_abi.{h,cpp}\<close>: opening a Bare module image, resolving its C ABI and
  letting go of it. What the dynamic loader and the file system answer is the record \<open>DynLoader\<close>;
  the reference counts of \<open>dlopen\<close> and \<open>dlclose\<close> and the process-wide \<open>RetainedImages\<close> are the
  state \<open>images\<close>. An image is mapped while its count is positive.
\<close>

section \<open>The platform\<close>

text \<open>
  \<open>imageAt\<close> is the image (a handle) that a file opens as, or \<open>None\<close> where the loader refuses it:
  a loader returns the same handle for the same image.
\<close>

record DynLoader =
  isRegularFile :: "string \<Rightarrow> bool"
  imageAt :: "string \<Rightarrow> nat option"
  exports :: "nat \<Rightarrow> string \<Rightarrow> bool"
  loaderError :: "string \<Rightarrow> string"

record images =
  refs :: "nat \<Rightarrow> nat"
  retained :: "nat list"

definition noImages :: images where
  "noImages = \<lparr>refs = (\<lambda>_. 0), retained = []\<rparr>"

definition mapped :: "images \<Rightarrow> nat \<Rightarrow> bool" where
  "mapped im h \<longleftrightarrow> 0 < refs im h"

definition imageOpen :: "DynLoader \<Rightarrow> string \<Rightarrow> images \<Rightarrow> nat option \<times> images" where
  "imageOpen L path im =
     (case imageAt L path of
        None \<Rightarrow> (None, im)
      | Some h \<Rightarrow> (Some h, im\<lparr>refs := (refs im)(h := Suc (refs im h))\<rparr>))"

definition imageClose :: "nat \<Rightarrow> images \<Rightarrow> images" where
  "imageClose h im = im\<lparr>refs := (refs im)(h := refs im h - 1)\<rparr>"

definition imageSymbol :: "DynLoader \<Rightarrow> nat \<Rightarrow> string \<Rightarrow> bool" where
  "imageSymbol L h name = exports L h name"

section \<open>The table\<close>

text \<open>A slot of the ABI is a flag: the entry point was resolved.\<close>

record BareModuleAbi =
  a_handle :: "nat option"
  a_dispatch :: bool
  a_getMethods :: bool
  a_stringFree :: bool
  a_setContext :: bool
  a_setEmitCallback :: bool
  a_acceptToken :: bool
  a_protocolVersion :: bool
  a_acceptInboundToken :: bool
  a_grantHostServices :: bool
  a_setCallCaller :: bool
  a_setUnloadDoneCallback :: bool
  a_aboutToUnload :: bool

definition emptyAbi :: BareModuleAbi where
  "emptyAbi = \<lparr>a_handle = None, a_dispatch = False, a_getMethods = False, a_stringFree = False,
     a_setContext = False, a_setEmitCallback = False, a_acceptToken = False, a_protocolVersion = False,
     a_acceptInboundToken = False, a_grantHostServices = False, a_setCallCaller = False,
     a_setUnloadDoneCallback = False, a_aboutToUnload = False\<rparr>"

definition missingSymbol :: "string \<Rightarrow> string" where
  "missingSymbol name = ''the module exports no '' @ name @ '' '' @ emDash @
     '' it is not a Bare module built against logos-protocol's module-impl C ABI''"

text \<open>One required symbol: the slot, and the error text where it is absent.\<close>

definition resolveRequired :: "DynLoader \<Rightarrow> nat \<Rightarrow> string \<Rightarrow> bool \<times> string option" where
  "resolveRequired L h name =
     (if imageSymbol L h name then (True, None) else (False, Some (missingSymbol name)))"

definition resolveOptional :: "DynLoader \<Rightarrow> nat \<Rightarrow> string \<Rightarrow> bool" where
  "resolveOptional L h name = imageSymbol L h name"

text \<open>The conjunction stops at the first symbol that is absent.\<close>

fun resolveAll :: "DynLoader \<Rightarrow> nat \<Rightarrow> string list \<Rightarrow> bool \<times> string option" where
  "resolveAll L h [] = (True, None)"
| "resolveAll L h (name # names) =
     (case resolveRequired L h name of (False, e) \<Rightarrow> (False, e) | (True, _) \<Rightarrow> resolveAll L h names)"

definition requiredSymbols :: "string list" where
  "requiredSymbols = [''logos_module_dispatch'', ''logos_module_get_methods'', ''logos_module_string_free'',
     ''logos_module_set_context'', ''logos_module_set_emit_callback'', ''logos_module_accept_token'',
     ''logos_module_get_protocol_version'']"

definition resolvedAbi :: "DynLoader \<Rightarrow> nat \<Rightarrow> BareModuleAbi" where
  "resolvedAbi L h = \<lparr>a_handle = Some h, a_dispatch = True, a_getMethods = True, a_stringFree = True,
     a_setContext = True, a_setEmitCallback = True, a_acceptToken = True, a_protocolVersion = True,
     a_acceptInboundToken = resolveOptional L h ''logos_module_accept_inbound_token'',
     a_grantHostServices = resolveOptional L h ''logos_module_grant_host_services'',
     a_setCallCaller = resolveOptional L h ''logos_module_set_call_caller'',
     a_setUnloadDoneCallback = resolveOptional L h ''logos_module_set_unload_done_callback'',
     a_aboutToUnload = resolveOptional L h ''logos_module_about_to_unload''\<rparr>"

section \<open>Opening and closing\<close>

definition retainImage :: "nat \<Rightarrow> images \<Rightarrow> images" where
  "retainImage h im =
     (if h \<in> set (retained im) then imageClose h im else im\<lparr>retained := retained im @ [h]\<rparr>)"

definition closeBareModule :: "BareModuleAbi \<Rightarrow> images \<Rightarrow> BareModuleAbi \<times> images" where
  "closeBareModule abi im = (emptyAbi, case a_handle abi of None \<Rightarrow> im | Some h \<Rightarrow> retainImage h im)"

definition openBareModule ::
  "DynLoader \<Rightarrow> string \<Rightarrow> BareModuleAbi \<Rightarrow> images \<Rightarrow> (bool \<times> string option) \<times> BareModuleAbi \<times> images" where
  "openBareModule L path out im =
     (let (out, im) = closeBareModule out im in
      if path = [] \<or> \<not> isRegularFile L path
      then ((False, Some (''no Bare module image at '' @ CHR 0x27 # path @ [CHR 0x27])), out, im)
      else case imageOpen L path im of
        (None, im) \<Rightarrow> ((False, Some (''failed to open the Bare module at '' @ CHR 0x27 # path @ CHR 0x27 # '': '' @
            loaderError L path)), out, im)
      | (Some h, im) \<Rightarrow>
          (case resolveAll L h requiredSymbols of
             (False, e) \<Rightarrow> ((False, e), out, imageClose h im)
           | (True, _) \<Rightarrow> ((True, None), resolvedAbi L h, im)))"

definition retainedBareImageCount :: "images \<Rightarrow> nat" where
  "retainedBareImageCount im = length (retained im)"

definition bareModuleProtocolCompatible :: "int \<Rightarrow> string \<Rightarrow> string \<Rightarrow> bool \<times> string" where
  "bareModuleProtocolCompatible hostMajor hostVersion moduleVersion =
     (let gate = evaluateProtocolGate moduleVersion hostMajor in
      case pgDecision gate of
        PgAllow \<Rightarrow> (True, [])
      | PgAllowLegacy \<Rightarrow> (True, ''the module reports no usable logos-protocol version (pre-protocol build) '' @
          emDash @ '' loading permissively'')
      | PgRefuse \<Rightarrow> (False, ''the module was built against logos-protocol '' @ moduleVersion @ '' (major '' @
          to_string (moduleMajor gate) @ ''), this host speaks major '' @ to_string hostMajor @
          '' ('' @ hostVersion @ '')''))"

section \<open>Who holds an image\<close>

lemma resolveAll_True: "fst (resolveAll L h names) \<longleftrightarrow> (\<forall>n \<in> set names. exports L h n)"
  by (induction names) (auto simp: resolveRequired_def imageSymbol_def)

lemma resolveAll_error:
  "\<not> fst (resolveAll L h names) \<Longrightarrow>
   \<exists>n. List.find (\<lambda>n. \<not> exports L h n) names = Some n \<and> snd (resolveAll L h names) = Some (missingSymbol n)"
  by (induction names) (auto simp: resolveRequired_def imageSymbol_def)

lemma resolveAll_error_Some: "resolveAll L h names = (False, e) \<Longrightarrow> \<exists>t. e = Some t"
  using resolveAll_error [of L h names] by auto

lemma openBareModule_result:
  assumes "openBareModule L path emptyAbi im = ((ok, e), abi, im')"
  shows "ok \<longleftrightarrow> path \<noteq> [] \<and> isRegularFile L path \<and> (\<exists>h. imageAt L path = Some h \<and> (\<forall>n \<in> set requiredSymbols. exports L h n))"
    and "ok \<Longrightarrow> \<exists>h. imageAt L path = Some h \<and> abi = resolvedAbi L h \<and> im' = im\<lparr>refs := (refs im)(h := Suc (refs im h))\<rparr> \<and> e = None"
    and "\<not> ok \<Longrightarrow> abi = emptyAbi \<and> (\<forall>h. refs im' h = refs im h) \<and> retained im' = retained im \<and> e \<noteq> None"
proof -
  have e: "a_handle emptyAbi = None" by (simp add: emptyAbi_def)
  show "ok \<longleftrightarrow> path \<noteq> [] \<and> isRegularFile L path \<and> (\<exists>h. imageAt L path = Some h \<and> (\<forall>n \<in> set requiredSymbols. exports L h n))"
  proof (cases "path = [] \<or> \<not> isRegularFile L path \<or> imageAt L path = None")
    case False
    then obtain h where h: "imageAt L path = Some h" by blast
    show ?thesis
      using assms False h unfolding resolveAll_True [of L h requiredSymbols, symmetric]
      by (cases "resolveAll L h requiredSymbols"; cases "fst (resolveAll L h requiredSymbols)")
        (auto simp: openBareModule_def closeBareModule_def e Let_def imageOpen_def resolveAll_True [symmetric] simp del: bex_simps ball_simps)
  qed (use assms in \<open>auto simp: openBareModule_def closeBareModule_def e Let_def imageOpen_def split: if_splits\<close>)
  show "\<exists>h. imageAt L path = Some h \<and> abi = resolvedAbi L h \<and> im' = im\<lparr>refs := (refs im)(h := Suc (refs im h))\<rparr> \<and> e = None" if ok
    using assms that
    by (auto simp: openBareModule_def closeBareModule_def e Let_def imageOpen_def split: if_splits option.splits prod.splits bool.splits)
  show "abi = emptyAbi \<and> (\<forall>h. refs im' h = refs im h) \<and> retained im' = retained im \<and> e \<noteq> None" if "\<not> ok"
    using assms that 
    by (auto dest!: resolveAll_error_Some simp: openBareModule_def closeBareModule_def e Let_def imageOpen_def imageClose_def
        split: if_splits option.splits prod.splits bool.splits)
qed

text \<open>\<open>owned held im\<close>: each table and the pin of a retained image have a reference of their own.\<close>

definition owned :: "(nat \<Rightarrow> nat) \<Rightarrow> images \<Rightarrow> bool" where
  "owned held im \<longleftrightarrow> distinct (retained im) \<and> (\<forall>h. held h + (if h \<in> set (retained im) then 1 else 0) \<le> refs im h)"

lemma ownedI:
  "distinct (retained im) \<Longrightarrow> (\<And>h. held h \<le> refs im h) \<Longrightarrow> (\<And>h. h \<in> set (retained im) \<Longrightarrow> Suc (held h) \<le> refs im h) \<Longrightarrow>
   owned held im"
  by (simp add: owned_def)

lemma ownedD:
  assumes "owned held im"
  shows "distinct (retained im)" "held h \<le> refs im h" "h \<in> set (retained im) \<Longrightarrow> Suc (held h) \<le> refs im h"
proof -
  have d: "distinct (retained im)" and r: "held h + (if h \<in> set (retained im) then 1 else 0) \<le> refs im h"
    using assms by (simp_all add: owned_def)
  show "distinct (retained im)" by (rule d)
  show "held h \<le> refs im h" using r by simp
  show "Suc (held h) \<le> refs im h" if "h \<in> set (retained im)" using r that by simp
qed

lemma owned_noImages: "owned (\<lambda>_. 0) noImages"
  by (simp add: owned_def noImages_def)

lemma owned_open:
  assumes "owned held im" and "openBareModule L path emptyAbi im = ((ok, e), abi, im')"
  shows "ok \<Longrightarrow> \<exists>h. a_handle abi = Some h \<and> owned (held(h := Suc (held h))) im' \<and> retained im' = retained im"
    and "\<not> ok \<Longrightarrow> owned held im' \<and> retained im' = retained im"
proof -
  note o = ownedD [OF assms(1)]
  show "\<exists>h. a_handle abi = Some h \<and> owned (held(h := Suc (held h))) im' \<and> retained im' = retained im" if opened: ok
  proof -
    obtain h where h: "abi = resolvedAbi L h" "im' = im\<lparr>refs := (refs im)(h := Suc (refs im h))\<rparr>"
      using openBareModule_result(2) [OF assms(2) opened] by blast
    have "owned (held(h := Suc (held h))) im'"
      by (rule ownedI) (use o h in auto)
    then show ?thesis using h by (simp add: resolvedAbi_def)
  qed
  show "owned held im' \<and> retained im' = retained im" if "\<not> ok"
    using openBareModule_result(3) [OF assms(2) that] assms(1) by (auto simp: owned_def)
qed

lemma owned_close:
  assumes "owned held im" and "a_handle abi = Some h" and "held h = Suc k"
  shows "owned (held(h := k)) (snd (closeBareModule abi im))"
    and "set (retained (snd (closeBareModule abi im))) = insert h (set (retained im))"
proof -
  note o = ownedD [OF assms(1)]
  show "set (retained (snd (closeBareModule abi im))) = insert h (set (retained im))"
    using assms(2) by (auto simp: closeBareModule_def retainImage_def imageClose_def)
  show "owned (held(h := k)) (snd (closeBareModule abi im))"
  proof (cases "h \<in> set (retained im)")
    case True
    then have "Suc (Suc k) \<le> refs im h" using o(3) [of h] assms(3) by simp
    then show ?thesis
      using True o assms(2)
      by (intro ownedI) (auto simp: closeBareModule_def retainImage_def imageClose_def)
  next
    case False
    have "Suc k \<le> refs im h" using o(2) [of h] assms(3) by simp
    then show ?thesis
      using False o assms(2)
      by (intro ownedI) (auto simp: closeBareModule_def retainImage_def)
  qed
qed

lemma owned_mapped:
  assumes "owned held im" and "h \<in> set (retained im) \<or> 0 < held h"
  shows "mapped im h"
  using ownedD(2,3) [OF assms(1), of h] assms(2) by (auto simp: mapped_def)

end
