(* ===== verification/BareModuleGlue.thy ===== *)
theory BareModuleGlue
  imports BareModuleAbi "HOL-Library.Multiset"
begin

text \<open>
  \<open>src/logos_core/bare_module_glue.{h,cpp}\<close>: the one host glue that drives a Bare module image. What
  the module's C functions answer is an argument of the operations that call them; what the host
  calls in the image is the log \<open>image_log\<close>. The worker's event loop is the list \<open>posted\<close>. The second half is the concurrent
  system: delivering threads, the worker and the thread that stops it, interleaved at the points where
  the code takes \<open>m_dispatchMutex\<close>, and the invariant that a promised completion comes exactly once.
\<close>

section \<open>Values\<close>

text \<open>A \<open>QVariant\<close>: the invalid one, a boolean, the pending-call sentinel, a \<open>LogosResult\<close>, or what
  \<open>nlohmannToQVariant\<close> makes of a JSON value.\<close>

datatype qvariant =
    QInvalid
  | QBool bool
  | QPending string
  | QResult bool "json option" "string option"
  | QJson json

datatype Dispatch = DispatchInline | DispatchDeferred | DispatchRetired

text \<open>What is called in the module image.\<close>

datatype image_call =
    IcSetEmitCallback bool
  | IcSetContext string string string
  | IcGrantHostServices string
  | IcSetCallCaller "string option"
  | IcDispatch string "json list"
  | IcAboutToUnload
  | IcSetUnloadDoneCallback bool

record QueuedCall =
  q_callId :: string
  q_methodName :: string

record PostedCall =
  p_callId :: string
  p_methodName :: string
  p_args :: "json list"
  p_callerJson :: string

record glue =
  g_name :: string
  g_version :: string
  g_abi :: BareModuleAbi
  m_methods :: "json list"
  m_voidMethods :: "string list"
  m_resultMethods :: "string list"
  m_eventCallback :: bool
  m_dispatch :: Dispatch
  m_worker :: bool
  m_workerCpu :: bool
  m_queued :: "QueuedCall list"
  m_callCounter :: "64 word"
  posted :: "PostedCall list"
  completions :: "(string \<times> qvariant \<times> bool) list"
  events :: "(string \<times> json list) list"
  image_log :: "image_call list"

definition image_call :: "bool \<Rightarrow> image_call \<Rightarrow> glue \<Rightarrow> glue" where
  "image_call slot c g = (if slot then g\<lparr>image_log := image_log g @ [c]\<rparr> else g)"

section \<open>The contract\<close>

text \<open>\<open>QJsonValue::toString\<close>: the empty string for anything that is not one.\<close>

definition qt_string :: "json option \<Rightarrow> string" where
  "qt_string v = (case v of Some (JString s) \<Rightarrow> s | _ \<Rightarrow> [])"

definition classifyEntry :: "json \<Rightarrow> glue \<Rightarrow> glue" where
  "classifyEntry entry g =
     (if \<not> is_object entry \<or> qt_string (jfind entry ''type'') = ''event'' then g
      else let name = qt_string (jfind entry ''name''); ret = qt_string (jfind entry ''returnType'') in
        if name = [] then g
        else if ret = ''void'' then g\<lparr>m_voidMethods := uset_insert name (m_voidMethods g)\<rparr>
        else if ret = ''result'' \<or> ret = ''LogosResult''
        then g\<lparr>m_resultMethods := uset_insert name (m_resultMethods g)\<rparr>
        else g)"

text \<open>\<open>contract\<close> is what \<open>logos_module_get_methods\<close> answers, \<open>parse\<close> the document in it.\<close>

definition readContract :: "(string \<Rightarrow> json option) \<Rightarrow> string option \<Rightarrow> glue \<Rightarrow> glue" where
  "readContract parse contract g =
     (if \<not> a_getMethods (g_abi g) then g
      else case contract of
        None \<Rightarrow> g
      | Some str \<Rightarrow> (case parse str of
          Some (JArray entries) \<Rightarrow> fold classifyEntry entries (g\<lparr>m_methods := entries\<rparr>)
        | _ \<Rightarrow> g))"

definition newGlue ::
  "(string \<Rightarrow> json option) \<Rightarrow> string option \<Rightarrow> string \<Rightarrow> string \<Rightarrow> BareModuleAbi \<Rightarrow> glue" where
  "newGlue parse contract name version abi =
     (let g = \<lparr>g_name = name, g_version = version, g_abi = abi, m_methods = [], m_voidMethods = [],
        m_resultMethods = [], m_eventCallback = False, m_dispatch = DispatchInline, m_worker = False,
        m_workerCpu = False, m_queued = [], m_callCounter = 0, posted = [], completions = [], events = [],
        image_log = []\<rparr>
      in image_call (a_setEmitCallback abi) (IcSetEmitCallback True) (readContract parse contract g))"

section \<open>Dispatch\<close>

definition jvalue_bool :: "json \<Rightarrow> string \<Rightarrow> bool \<Rightarrow> exn + bool" where
  "jvalue_bool j k d = (case jfind j k of None \<Rightarrow> Inr d | Some (JBool b) \<Rightarrow> Inr b | Some _ \<Rightarrow> Inl TypeError)"

definition classifyAnswer :: "(string \<Rightarrow> json option) \<Rightarrow> glue \<Rightarrow> string \<Rightarrow> string option \<Rightarrow> exn + qvariant" where
  "classifyAnswer parse g methodName answer =
     (case answer of None \<Rightarrow> Inr QInvalid
      | Some str \<Rightarrow> (case parse str of None \<Rightarrow> Inr QInvalid
        | Some j \<Rightarrow>
            if methodName \<in> set (m_voidMethods g) then Inr (QBool True)
            else if methodName \<in> set (m_resultMethods g) \<and> is_object j
            then (case jvalue_bool j ''success'' False of
                Inl e \<Rightarrow> Inl e
              | Inr b \<Rightarrow> Inr (QResult b
                  (Some (case jfind j ''value'' of None \<Rightarrow> JNull | Some v \<Rightarrow> v))
                  (case jfind j ''error'' of Some (JString e) \<Rightarrow> Some e | _ \<Rightarrow> None)))
            else Inr (QJson j)))"

definition dispatchOnThisThread ::
  "(string \<Rightarrow> json option) \<Rightarrow> string option \<Rightarrow> string \<Rightarrow> json list \<Rightarrow> string \<Rightarrow> glue \<Rightarrow> (exn + qvariant) \<times> glue" where
  "dispatchOnThisThread parse answer methodName args callerJson g =
     (let g = image_call (a_setCallCaller (g_abi g)) (IcSetCallCaller (Some callerJson)) g;
          g = image_call True (IcDispatch methodName args) g;
          g = image_call (a_setCallCaller (g_abi g)) (IcSetCallCaller None) g
      in (classifyAnswer parse g methodName answer, g))"

definition unloadingAnswer :: "glue \<Rightarrow> string \<Rightarrow> qvariant" where
  "unloadingAnswer g methodName =
     (if methodName \<in> set (m_resultMethods g)
      then QResult False None (Some (''module '' @ g_name g @ '' is unloading''))
      else QInvalid)"

definition callId :: "64 word \<Rightarrow> string" where
  "callId n = ''bc-'' @ decimal (unat n)"

text \<open>\<open>answer\<close> is what the image answers if this call enters it.\<close>

definition callMethod ::
  "(string \<Rightarrow> json option) \<Rightarrow> string option \<Rightarrow> string \<Rightarrow> string \<Rightarrow> json list \<Rightarrow> glue \<Rightarrow> (exn + qvariant) \<times> glue" where
  "callMethod parse answer callerJson methodName args g =
     (if \<not> a_dispatch (g_abi g) then (Inr QInvalid, g)
      else case m_dispatch g of
        DispatchInline \<Rightarrow> dispatchOnThisThread parse answer methodName args callerJson g
      | DispatchRetired \<Rightarrow> (Inr (unloadingAnswer g methodName), g)
      | DispatchDeferred \<Rightarrow>
          (let i = callId (m_callCounter g) in
           (Inr (QPending i),
            g\<lparr>m_callCounter := m_callCounter g + 1,
              m_queued := m_queued g @ [\<lparr>q_callId = i, q_methodName = methodName\<rparr>],
              posted := posted g @ [\<lparr>p_callId = i, p_methodName = methodName, p_args = args, p_callerJson = callerJson\<rparr>]\<rparr>)))"

fun removeCall :: "string \<Rightarrow> QueuedCall list \<Rightarrow> QueuedCall list" where
  "removeCall i [] = []"
| "removeCall i (q # qs) = (if q_callId q = i then qs else q # removeCall i qs)"

definition claimQueuedCall :: "string \<Rightarrow> glue \<Rightarrow> bool \<times> glue" where
  "claimQueuedCall i g =
     (if \<exists>q \<in> set (m_queued g). q_callId q = i then (True, g\<lparr>m_queued := removeCall i (m_queued g)\<rparr>) else (False, g))"

definition takeQueuedCalls :: "glue \<Rightarrow> QueuedCall list \<times> glue" where
  "takeQueuedCalls g = (m_queued g, g\<lparr>m_queued := []\<rparr>)"

text \<open>The flag records whether a listener was attached to hear the completion.\<close>

definition deliverCompletion :: "string \<Rightarrow> qvariant \<Rightarrow> glue \<Rightarrow> glue" where
  "deliverCompletion i v g = g\<lparr>completions := completions g @ [(i, v, m_eventCallback g)]\<rparr>"

section \<open>The worker\<close>

text \<open>\<open>reported\<close>: the worker reported its CPU clock within the two seconds it is given.\<close>

definition enableDeferredDispatch :: "bool \<Rightarrow> glue \<Rightarrow> glue" where
  "enableDeferredDispatch reported g =
     (if m_dispatch g \<noteq> DispatchInline then g
      else g\<lparr>m_worker := True, m_workerCpu := reported, m_dispatch := DispatchDeferred\<rparr>)"

definition dispatchCpuSeconds :: "rat \<Rightarrow> glue \<Rightarrow> rat option" where
  "dispatchCpuSeconds clock g = (if m_workerCpu g then Some clock else None)"

text \<open>The steps of \<open>stopDispatch\<close>: retire, answer what is still queued, delete the worker.\<close>

definition retire_glue :: "glue \<Rightarrow> glue" where
  "retire_glue g =
     (let g = g\<lparr>m_dispatch := DispatchRetired\<rparr> in if m_worker g then g\<lparr>m_workerCpu := False\<rparr> else g)"

definition answerUnloading :: "QueuedCall \<Rightarrow> glue \<Rightarrow> glue" where
  "answerUnloading q g = deliverCompletion (q_callId q) (unloadingAnswer g (q_methodName q)) g"

definition deleteWorker :: "glue \<Rightarrow> glue" where
  "deleteWorker g = g\<lparr>m_worker := False, posted := []\<rparr>"

text \<open>The whole of it, where \<open>stopped\<close> is what waiting for the worker answers.\<close>

definition stopDispatch :: "bool \<Rightarrow> glue \<Rightarrow> bool \<times> glue" where
  "stopDispatch stopped g =
     (let g1 = retire_glue g in
      if \<not> m_worker g1 then (True, g1)
      else let (qs, g2) = takeQueuedCalls g1; g3 = fold answerUnloading qs g2
           in if stopped then (True, deleteWorker g3) else (False, g3))"

definition destroyGlue :: "bool \<Rightarrow> glue \<Rightarrow> glue" where
  "destroyGlue stopped g =
     (let g = snd (stopDispatch stopped g) in image_call (a_setEmitCallback (g_abi g)) (IcSetEmitCallback False) g)"

section \<open>Events and the other doors\<close>

definition setEventListener :: "bool \<Rightarrow> glue \<Rightarrow> glue" where
  "setEventListener cb g = g\<lparr>m_eventCallback := cb\<rparr>"

definition onModuleEvent :: "string \<Rightarrow> json list \<Rightarrow> glue \<Rightarrow> glue" where
  "onModuleEvent eventName data g = (if m_eventCallback g then g\<lparr>events := events g @ [(eventName, data)]\<rparr> else g)"

definition emitTrampoline :: "(string \<Rightarrow> json option) \<Rightarrow> string option \<Rightarrow> string option \<Rightarrow> glue \<Rightarrow> glue" where
  "emitTrampoline parse eventName dataJson g =
     (case eventName of None \<Rightarrow> g
      | Some e \<Rightarrow> onModuleEvent e
          (case dataJson of None \<Rightarrow> []
           | Some str \<Rightarrow> (case parse str of Some (JArray data) \<Rightarrow> data | _ \<Rightarrow> [])) g)"

definition grantHostServices :: "string \<Rightarrow> glue \<Rightarrow> glue" where
  "grantHostServices services g =
     (if services = [] then g else image_call (a_grantHostServices (g_abi g)) (IcGrantHostServices services) g)"

definition deliverContext :: "string \<Rightarrow> string \<Rightarrow> string \<Rightarrow> glue \<Rightarrow> glue" where
  "deliverContext modulePath instanceId persistence g =
     image_call (a_setContext (g_abi g)) (IcSetContext modulePath instanceId persistence) g"

definition aboutToUnload :: "glue \<Rightarrow> glue" where
  "aboutToUnload g =
     (if \<not> a_aboutToUnload (g_abi g) then g
      else let slot = a_setUnloadDoneCallback (g_abi g);
        g = image_call slot (IcSetUnloadDoneCallback True) g;
        g = image_call True IcAboutToUnload g
      in image_call slot (IcSetUnloadDoneCallback False) g)"

section \<open>The concurrent system\<close>

text \<open>
  \<open>flight\<close> is the call the worker claimed and is running in the image, \<open>exited\<close> that its event loop
  has ended; \<open>phase\<close> is where the thread in \<open>stopDispatch\<close> is, with the calls it took and has not
  answered; \<open>issued\<close> are the sentinels handed out, in order.
\<close>

datatype stop_phase =
    NotStopping
  | Waiting
  | Waited bool
  | Draining bool "QueuedCall list"
  | Stopped bool

record glue_sys =
  sys_glue :: glue
  flight :: "PostedCall option"
  quitting :: bool
  exited :: bool
  phase :: stop_phase
  issued :: "string list"

definition started :: "glue \<Rightarrow> glue_sys" where
  "started g = \<lparr>sys_glue = g, flight = None, quitting = False, exited = False, phase = NotStopping, issued = []\<rparr>"

fun sentinel :: "exn + qvariant \<Rightarrow> string list" where
  "sentinel (Inr (QPending i)) = [i]"
| "sentinel _ = []"

inductive glue_step :: "(string \<Rightarrow> json option) \<Rightarrow> glue_sys \<Rightarrow> glue_sys \<Rightarrow> bool" for parse where
  Enable: "glue_step parse s (s\<lparr>sys_glue := enableDeferredDispatch reported (sys_glue s)\<rparr>)"
| Listen: "glue_step parse s (s\<lparr>sys_glue := setEventListener cb (sys_glue s)\<rparr>)"
| Emit: "glue_step parse s (s\<lparr>sys_glue := emitTrampoline parse name data (sys_glue s)\<rparr>)"
| Call: "callMethod parse answer caller m args (sys_glue s) = (r, g) \<Longrightarrow>
    glue_step parse s (s\<lparr>sys_glue := g, issued := issued s @ sentinel r\<rparr>)"
| Claim: "m_worker (sys_glue s) \<Longrightarrow> \<not> exited s \<Longrightarrow> flight s = None \<Longrightarrow> posted (sys_glue s) = p # ps \<Longrightarrow>
    claimQueuedCall (p_callId p) ((sys_glue s)\<lparr>posted := ps\<rparr>) = (claimed, g) \<Longrightarrow>
    glue_step parse s (s\<lparr>sys_glue := g, flight := (if claimed then Some p else None)\<rparr>)"
| Finish: "flight s = Some p \<Longrightarrow>
    dispatchOnThisThread parse answer (p_methodName p) (p_args p) (p_callerJson p) (sys_glue s) = (Inr v, g) \<Longrightarrow>
    glue_step parse s (s\<lparr>sys_glue := deliverCompletion (p_callId p) v g, flight := None\<rparr>)"
| Exit: "quitting s \<Longrightarrow> flight s = None \<Longrightarrow> glue_step parse s (s\<lparr>exited := True\<rparr>)"
| Retire: "phase s = NotStopping \<or> phase s = Stopped b \<Longrightarrow>
    glue_step parse s (s\<lparr>sys_glue := retire_glue (sys_glue s),
      quitting := quitting s \<or> m_worker (sys_glue s), phase := (if m_worker (sys_glue s) then Waiting else Stopped True)\<rparr>)"
| WaitStopped: "phase s = Waiting \<Longrightarrow> exited s \<Longrightarrow> glue_step parse s (s\<lparr>phase := Waited True\<rparr>)"
| WaitTimedOut: "phase s = Waiting \<Longrightarrow> \<not> exited s \<Longrightarrow> glue_step parse s (s\<lparr>phase := Waited False\<rparr>)"
| TakeQueued: "phase s = Waited b \<Longrightarrow> takeQueuedCalls (sys_glue s) = (qs, g) \<Longrightarrow>
    glue_step parse s (s\<lparr>sys_glue := g, phase := Draining b qs\<rparr>)"
| AnswerQueued: "phase s = Draining b (q # qs) \<Longrightarrow>
    glue_step parse s (s\<lparr>sys_glue := answerUnloading q (sys_glue s), phase := Draining b qs\<rparr>)"
| StopDone: "phase s = Draining b [] \<Longrightarrow>
    glue_step parse s (s\<lparr>sys_glue := (if b then deleteWorker (sys_glue s) else sys_glue s), phase := Stopped b\<rparr>)"

section \<open>Every promise kept once\<close>

definition draining :: "glue_sys \<Rightarrow> string list" where
  "draining s = (case phase s of Draining _ qs \<Rightarrow> map q_callId qs | _ \<Rightarrow> [])"

definition in_flight :: "glue_sys \<Rightarrow> string list" where
  "in_flight s = (case flight s of None \<Rightarrow> [] | Some p \<Rightarrow> [p_callId p])"

definition owed :: "glue_sys \<Rightarrow> string multiset" where
  "owed s = mset (map q_callId (m_queued (sys_glue s))) + mset (in_flight s) + mset (draining s)"

definition answered :: "glue_sys \<Rightarrow> string multiset" where
  "answered s = mset (map fst (completions (sys_glue s)))"

definition numbered :: "string list \<Rightarrow> 64 word \<Rightarrow> bool" where
  "numbered is n \<longleftrightarrow> is = map (\<lambda>k. callId (word_of_nat k)) [0..<length is] \<and> n = word_of_nat (length is)"

lemma numbered_Nil [simp]: "numbered [] 0"
  by (simp add: numbered_def)

lemma numbered_snoc [simp]: "numbered is n \<Longrightarrow> numbered (is @ [callId n]) (n + 1)"
  by (auto simp: numbered_def algebra_simps)

definition glue_inv :: "glue_sys \<Rightarrow> bool" where
  "glue_inv s \<longleftrightarrow>
     mset (issued s) = owed s + answered s
   \<and> (phase s \<noteq> NotStopping \<longrightarrow> m_dispatch (sys_glue s) = DispatchRetired)
   \<and> ((\<exists>b. phase s = Stopped b) \<or> (\<exists>b qs. phase s = Draining b qs) \<longrightarrow> m_queued (sys_glue s) = [])
   \<and> (phase s = Waited True \<or> (\<exists>qs. phase s = Draining True qs) \<longrightarrow> exited s)
   \<and> (phase s = Stopped True \<longrightarrow> \<not> m_worker (sys_glue s))
   \<and> (exited s \<longrightarrow> flight s = None \<and> m_dispatch (sys_glue s) = DispatchRetired)
   \<and> (quitting s \<longrightarrow> m_dispatch (sys_glue s) = DispatchRetired)
   \<and> (\<not> m_worker (sys_glue s) \<longrightarrow> m_queued (sys_glue s) = [] \<and> flight s = None)
   \<and> (m_dispatch (sys_glue s) = DispatchDeferred \<longrightarrow> m_worker (sys_glue s))
   \<and> (m_dispatch (sys_glue s) = DispatchInline \<longrightarrow> \<not> m_worker (sys_glue s))
   \<and> numbered (issued s) (m_callCounter (sys_glue s))"

lemma image_call_frames [simp]:
  "m_dispatch (image_call b c g) = m_dispatch g" "m_worker (image_call b c g) = m_worker g"
  "m_queued (image_call b c g) = m_queued g" "m_callCounter (image_call b c g) = m_callCounter g"
  "completions (image_call b c g) = completions g" "posted (image_call b c g) = posted g"
  "g_abi (image_call b c g) = g_abi g" "g_name (image_call b c g) = g_name g"
  "m_resultMethods (image_call b c g) = m_resultMethods g" "m_voidMethods (image_call b c g) = m_voidMethods g"
  "m_eventCallback (image_call b c g) = m_eventCallback g"
  by (simp_all add: image_call_def)

lemma removeCall_mset:
  "\<exists>q \<in> set qs. q_callId q = i \<Longrightarrow> mset (map q_callId qs) = add_mset i (mset (map q_callId (removeCall i qs)))"
  by (induction qs) (auto simp: add_mset_commute)

lemma dispatch_frames:
  assumes "dispatchOnThisThread parse answer m args c g = (r, g')"
  shows "m_dispatch g' = m_dispatch g" "m_worker g' = m_worker g" "m_queued g' = m_queued g"
    "m_callCounter g' = m_callCounter g" "completions g' = completions g" "sentinel r = []"
  using assms by (auto simp: dispatchOnThisThread_def Let_def classifyAnswer_def split: option.splits sum.splits)

lemma emit_frames [simp]:
  "m_dispatch (emitTrampoline parse e d g) = m_dispatch g" "m_worker (emitTrampoline parse e d g) = m_worker g"
  "m_queued (emitTrampoline parse e d g) = m_queued g" "m_callCounter (emitTrampoline parse e d g) = m_callCounter g"
  "completions (emitTrampoline parse e d g) = completions g" "image_log (emitTrampoline parse e d g) = image_log g"
  by (simp_all add: emitTrampoline_def onModuleEvent_def split: option.splits json.splits)

lemmas glue_defs = owed_def answered_def draining_def in_flight_def

lemma glue_inv_started:
  "glue_inv (started (newGlue parse contract name version abi))"
proof -
  have c: "m_queued (fold classifyEntry es g) = m_queued g \<and> m_dispatch (fold classifyEntry es g) = m_dispatch g
     \<and> m_worker (fold classifyEntry es g) = m_worker g \<and> m_callCounter (fold classifyEntry es g) = m_callCounter g
     \<and> completions (fold classifyEntry es g) = completions g" for es g
    by (induction es arbitrary: g) (auto simp: classifyEntry_def Let_def)
  show ?thesis
    by (auto simp: glue_inv_def started_def newGlue_def readContract_def Let_def glue_defs c split: option.splits json.splits)
qed

lemma glue_inv_call:
  assumes "glue_inv s" and "callMethod parse answer caller m args (sys_glue s) = (r, g)"
  shows "glue_inv (s\<lparr>sys_glue := g, issued := issued s @ sentinel r\<rparr>)"
proof (cases "a_dispatch (g_abi (sys_glue s)) \<and> m_dispatch (sys_glue s) = DispatchDeferred")
  case True
  let ?g = "sys_glue s"
  from True assms(2) have r: "r = Inr (QPending (callId (m_callCounter ?g)))"
    and g: "g = ?g\<lparr>m_callCounter := m_callCounter ?g + 1,
      m_queued := m_queued ?g @ [\<lparr>q_callId = callId (m_callCounter ?g), q_methodName = m\<rparr>],
      posted := posted ?g @ [\<lparr>p_callId = callId (m_callCounter ?g), p_methodName = m, p_args = args, p_callerJson = caller\<rparr>]\<rparr>"
    by (auto simp: callMethod_def Let_def)
  have "\<not> exited s" "phase s = NotStopping" "\<not> quitting s" using assms(1) True by (auto simp: glue_inv_def)
  then show ?thesis using assms(1) True by (auto simp: glue_inv_def r g glue_defs)
next
  case False
  have "sentinel r = []" "m_dispatch g = m_dispatch (sys_glue s)" "m_worker g = m_worker (sys_glue s)"
    "m_queued g = m_queued (sys_glue s)" "m_callCounter g = m_callCounter (sys_glue s)"
    "completions g = completions (sys_glue s)"
    using assms(2) False dispatch_frames [of parse answer m args caller "sys_glue s" r g]
    by (auto simp: callMethod_def unloadingAnswer_def split: if_splits Dispatch.splits)
  then show ?thesis using assms(1) by (simp add: glue_inv_def glue_defs)
qed

lemma glue_inv_claim:
  assumes "glue_inv s" and "m_worker (sys_glue s)" "\<not> exited s" "flight s = None"
    and "claimQueuedCall (p_callId p) ((sys_glue s)\<lparr>posted := ps\<rparr>) = (claimed, g)"
  shows "glue_inv (s\<lparr>sys_glue := g, flight := (if claimed then Some p else None)\<rparr>)"
proof (cases claimed)
  case True
  with assms(5) have e: "\<exists>q \<in> set (m_queued (sys_glue s)). q_callId q = p_callId p"
    and g: "g = (sys_glue s)\<lparr>posted := ps, m_queued := removeCall (p_callId p) (m_queued (sys_glue s))\<rparr>"
    by (auto simp: claimQueuedCall_def split: if_splits)
  then have "m_queued (sys_glue s) \<noteq> []" by auto
  then have "\<nexists>b. phase s = Stopped b" "\<nexists>b qs. phase s = Draining b qs" "phase s \<noteq> Waited True"
    using assms(1,3) by (auto simp: glue_inv_def)
  then show ?thesis
    using assms(1-4) removeCall_mset [OF e] by (auto simp: glue_inv_def glue_defs True g)
next
  case False
  with assms(5) have "g = (sys_glue s)\<lparr>posted := ps\<rparr>" by (auto simp: claimQueuedCall_def split: if_splits)
  then show ?thesis using assms(1-4) False by (auto simp: glue_inv_def glue_defs)
qed

lemma glue_inv_cong:
  assumes "glue_inv s" and "m_dispatch g = m_dispatch (sys_glue s)" "m_worker g = m_worker (sys_glue s)"
    "m_queued g = m_queued (sys_glue s)" "m_callCounter g = m_callCounter (sys_glue s)" "completions g = completions (sys_glue s)"
  shows "glue_inv (s\<lparr>sys_glue := g\<rparr>)"
  using assms by (simp add: glue_inv_def glue_defs)

lemma glue_inv_step: "glue_step parse s s' \<Longrightarrow> glue_inv s \<Longrightarrow> glue_inv s'"
proof (induction rule: glue_step.induct)
  case (Enable s reported)
  then show ?case by (auto simp: glue_inv_def glue_defs enableDeferredDispatch_def split: stop_phase.splits)
next
  case (Call answer caller m args s r g)
  then show ?case by (rule glue_inv_call [rotated])
next
  case (Claim s p ps claimed g)
  then show ?case by (metis glue_inv_claim)
next
  case (Finish s p answer v g)
  have w: "m_worker (sys_glue s)" "\<not> exited s" using Finish.hyps(1) Finish.prems by (auto simp: glue_inv_def)
  note f = dispatch_frames [OF Finish.hyps(2)]
  show ?case
    using Finish.prems Finish.hyps(1) w
    by (cases "phase s") (simp_all add: glue_inv_def glue_defs deliverCompletion_def f)
next
  case (Retire s b)
  then show ?case
    by (cases "phase s"; cases "m_worker (sys_glue s)") (simp_all add: glue_inv_def glue_defs retire_glue_def)
next
  case (TakeQueued s b qs g)
  then show ?case by (cases b) (auto simp: glue_inv_def glue_defs takeQueuedCalls_def)
next
  case (AnswerQueued s b q qs)
  then show ?case by (cases b) (auto simp: glue_inv_def glue_defs answerUnloading_def deliverCompletion_def)
next
  case (StopDone s b)
  then show ?case by (auto simp: glue_inv_def glue_defs deleteWorker_def)
next
  case (Listen s cb)
  then show ?case by (rule glue_inv_cong) (simp_all add: setEventListener_def)
next
  case (Emit s name data)
  then show ?case by (rule glue_inv_cong) simp_all
qed (simp_all add: glue_inv_def glue_defs)

lemma glue_inv_reach:
  assumes "(glue_step parse)\<^sup>*\<^sup>* s s'" and "glue_inv s"
  shows "glue_inv s'"
  using assms by (induction rule: rtranclp_induct) (auto intro: glue_inv_step)

lemma callId_inject: "callId m = callId n \<longleftrightarrow> m = n"
  by (metis callId_def digits_value_decimal same_append_eq unsigned_word_eqI)

lemma issued_distinct:
  assumes "glue_inv s" and "length (issued s) \<le> 2 ^ 64"
  shows "distinct (issued s)"
proof -
  have i: "issued s = map (\<lambda>k. callId (word_of_nat k)) [0..<length (issued s)]"
    using assms(1) by (simp add: glue_inv_def numbered_def)
  have "inj_on (\<lambda>k. callId (word_of_nat k)) (set [0..<length (issued s)])"
  proof (rule inj_onI)
    fix j k assume jk: "j \<in> set [0..<length (issued s)]" "k \<in> set [0..<length (issued s)]"
      and "callId (word_of_nat j) = callId (word_of_nat k)"
    then have "unat (word_of_nat j :: 64 word) = unat (word_of_nat k :: 64 word)" by (simp add: callId_inject)
    moreover have "j < 2 ^ 64" "k < 2 ^ 64" using jk assms(2) by auto
    ultimately show "j = k" by (simp add: unat_of_nat take_bit_nat_eq_self)
  qed
  then have "distinct (map (\<lambda>k. callId (word_of_nat k)) [0..<length (issued s)])"
    by (simp add: distinct_map)
  then show ?thesis using i by metis
qed

text \<open>
  C7. A pending-call sentinel is a promise of exactly one completion. At no time has a call been answered
  twice or one that was never issued; once \<open>stopDispatch\<close> has returned, every call issued has its
  completion, except the one still inside the image where it returned false, however the callers,
  the worker and the stop interleave.
\<close>

theorem completion_exactly_once:
  assumes "(glue_step parse)\<^sup>*\<^sup>* (started (newGlue parse contract name version abi)) s"
    and "length (issued s) \<le> 2 ^ 64"
  shows "distinct (map fst (completions (sys_glue s)))
    \<and> set (map fst (completions (sys_glue s))) \<subseteq> set (issued s)
    \<and> (\<forall>b. phase s = Stopped b \<longrightarrow>
         distinct (map fst (completions (sys_glue s)) @ in_flight s)
         \<and> set (map fst (completions (sys_glue s)) @ in_flight s) = set (issued s)
         \<and> (b \<longrightarrow> in_flight s = []))"
proof -
  have inv: "glue_inv s" by (rule glue_inv_reach [OF assms(1) glue_inv_started])
  then have m: "mset (issued s) = owed s + answered s" by (simp add: glue_inv_def)
  note d = issued_distinct [OF inv assms(2)]
  have "mset (issued s) = mset (map q_callId (m_queued (sys_glue s)) @ in_flight s @ draining s @ map fst (completions (sys_glue s)))"
    using m by (simp add: owed_def answered_def)
  from mset_eq_imp_distinct_iff [OF this] d
  have dc: "distinct (map fst (completions (sys_glue s)))" by simp
  have sub: "set (map fst (completions (sys_glue s))) \<subseteq> set (issued s)"
    using m by (metis answered_def mset_subset_eq_add_right set_mset_mono set_mset_mset)
  have st: "distinct (map fst (completions (sys_glue s)) @ in_flight s)
      \<and> set (map fst (completions (sys_glue s)) @ in_flight s) = set (issued s) \<and> (b \<longrightarrow> in_flight s = [])"
    if p: "phase s = Stopped b" for b
  proof -
    have "m_queued (sys_glue s) = []" "draining s = []" "b \<longrightarrow> flight s = None"
      using inv p by (auto simp: glue_inv_def draining_def)
    then have "mset (issued s) = mset (map fst (completions (sys_glue s)) @ in_flight s)" "b \<longrightarrow> in_flight s = []"
      using m by (simp_all add: owed_def answered_def in_flight_def)
    then show ?thesis using d by (metis mset_eq_imp_distinct_iff mset_eq_setD)
  qed
  from dc sub st show ?thesis by blast
qed

definition sample_abi :: BareModuleAbi where
  "sample_abi = resolvedAbi \<lparr>isRegularFile = (\<lambda>_. True), imageAt = (\<lambda>_. Some 7), exports = (\<lambda>_ _. True), loaderError = (\<lambda>p. p)\<rparr> 7"

text \<open>One call is queued and never run: the stop answers it.\<close>

definition sample_call :: glue_sys where
  "sample_call = (let s = started (newGlue (\<lambda>_. None) None ''chat'' ''1.0.0'' sample_abi);
     s = s\<lparr>sys_glue := enableDeferredDispatch True (sys_glue s)\<rparr>;
     (r, g) = callMethod (\<lambda>_. None) None ''{}'' ''send'' [] (sys_glue s)
   in s\<lparr>sys_glue := g, issued := issued s @ sentinel r\<rparr>)"

definition sample_stop :: glue_sys where
  "sample_stop = (let s = sample_call\<lparr>sys_glue := retire_glue (sys_glue sample_call), quitting := True, phase := Waiting\<rparr>;
     s = s\<lparr>exited := True\<rparr>; s = s\<lparr>phase := Waited True\<rparr>; (qs, g) = takeQueuedCalls (sys_glue s);
     s = s\<lparr>sys_glue := answerUnloading (hd qs) g, phase := Draining True []\<rparr>
   in s\<lparr>sys_glue := deleteWorker (sys_glue s), phase := Stopped True\<rparr>)"

lemma sample_stop_reach:
  "(glue_step (\<lambda>_. None))\<^sup>*\<^sup>* (started (newGlue (\<lambda>_. None) None ''chat'' ''1.0.0'' sample_abi)) sample_stop"
proof -
  let ?p = "\<lambda>_ :: string. None :: json option"
  let ?s0 = "started (newGlue ?p None ''chat'' ''1.0.0'' sample_abi)"
  let ?s1 = "?s0\<lparr>sys_glue := enableDeferredDispatch True (sys_glue ?s0)\<rparr>"
  let ?s3 = "sample_call\<lparr>sys_glue := retire_glue (sys_glue sample_call), quitting := True, phase := Waiting\<rparr>"
  let ?s4 = "?s3\<lparr>exited := True\<rparr>"
  let ?s5 = "?s4\<lparr>phase := Waited True\<rparr>"
  let ?s6 = "?s5\<lparr>sys_glue := snd (takeQueuedCalls (sys_glue ?s5)), phase := Draining True (fst (takeQueuedCalls (sys_glue ?s5)))\<rparr>"
  let ?s7 = "?s6\<lparr>sys_glue := answerUnloading (hd (m_queued (sys_glue ?s5))) (sys_glue ?s6), phase := Draining True []\<rparr>"
  have 1: "glue_step ?p ?s0 ?s1" by (rule glue_step.Enable)
  have 2: "glue_step ?p ?s1 sample_call"
    unfolding sample_call_def Let_def split_beta by (rule glue_step.Call [OF prod.collapse [symmetric]])
  have w: "m_worker (sys_glue sample_call)" "\<not> quitting sample_call" "phase sample_call = NotStopping" "flight sample_call = None"
    "m_queued (sys_glue sample_call) = [\<lparr>q_callId = ''bc-0'', q_methodName = ''send''\<rparr>]"
    by code_simp+
  have 3: "glue_step ?p sample_call ?s3"
    using glue_step.Retire [of sample_call True ?p] w by simp
  have 4: "glue_step ?p ?s3 ?s4" by (rule glue_step.Exit) (simp_all add: w)
  have 5: "glue_step ?p ?s4 ?s5" by (rule glue_step.WaitStopped) simp_all
  have 6: "glue_step ?p ?s5 ?s6" by (rule glue_step.TakeQueued [OF _ prod.collapse [symmetric]]) simp
  note q = w(5)
  have 7: "glue_step ?p ?s6 ?s7"
    by (rule glue_step.AnswerQueued) (simp add: takeQueuedCalls_def retire_glue_def Let_def q)
  have "glue_step ?p ?s7 (?s7\<lparr>sys_glue := if True then deleteWorker (sys_glue ?s7) else sys_glue ?s7, phase := Stopped True\<rparr>)"
    by (rule glue_step.StopDone) simp
  moreover have "?s7\<lparr>sys_glue := if True then deleteWorker (sys_glue ?s7) else sys_glue ?s7, phase := Stopped True\<rparr> = sample_stop"
    by (simp add: sample_stop_def Let_def takeQueuedCalls_def)
  ultimately have 8: "glue_step ?p ?s7 sample_stop" by simp
  show ?thesis using 1 2 3 4 5 6 7 8 by (meson rtranclp.rtrancl_into_rtrancl rtranclp.rtrancl_refl)
qed

theorem completion_exactly_once_witness:
  "set (map fst (completions (sys_glue sample_stop))) = {''bc-0''}"
proof -
  have e: "issued sample_stop = [callId 0]" "phase sample_stop = Stopped True" "callId 0 = ''bc-0''"
    by code_simp+
  have "set (map fst (completions (sys_glue sample_stop)) @ in_flight sample_stop) = set (issued sample_stop)"
    "in_flight sample_stop = []"
    using completion_exactly_once [OF sample_stop_reach] e(1,2) by (auto simp del: set_map)
  then show ?thesis using e by simp
qed

text \<open>
  Once the worker has been stopped the image is never entered again: whatever is called, emitted or
  stopped afterwards, nothing more is called in it.
\<close>

theorem retired_never_enters:
  assumes "(glue_step parse)\<^sup>*\<^sup>* (started (newGlue parse contract name version abi)) s" and "phase s = Stopped True"
    and "(glue_step parse)\<^sup>*\<^sup>* s s'"
  shows "image_log (sys_glue s') = image_log (sys_glue s)"
proof -
  have "glue_inv s" by (rule glue_inv_reach [OF assms(1) glue_inv_started])
  with assms(3,2) have "glue_inv s' \<and> phase s' = Stopped True \<and> image_log (sys_glue s') = image_log (sys_glue s)"
  proof (induction rule: rtranclp_induct)
    case (step y z)
    then have inv: "glue_inv y" "phase y = Stopped True" "image_log (sys_glue y) = image_log (sys_glue s)" by simp_all
    have "phase z = Stopped True \<and> image_log (sys_glue z) = image_log (sys_glue y)"
      using step.hyps(2) inv(1,2)
    proof cases
      case (Call answer caller m args r g)
      then show ?thesis using inv(1,2) by (auto simp: callMethod_def glue_inv_def split: if_splits)
    qed (auto simp: enableDeferredDispatch_def setEventListener_def glue_inv_def retire_glue_def Let_def)
    then show ?case using glue_inv_step [OF step.hyps(2) inv(1)] inv(3) by simp
  qed simp
  then show ?thesis by simp
qed

theorem retired_never_enters_witness:
  "image_log (sys_glue (sample_stop\<lparr>sys_glue := setEventListener True (sys_glue sample_stop)\<rparr>)) = image_log (sys_glue sample_stop)"
proof (rule retired_never_enters [OF sample_stop_reach])
  show "phase sample_stop = Stopped True" by code_simp
qed (rule r_into_rtranclp, rule glue_step.Listen)

section \<open>What an answer becomes\<close>

text \<open>
  The glue throws on exactly one kind of answer: an object from a \<open>result\<close> method whose
  \<open>success\<close> member is there and is not a boolean. Every other answer, malformed ones included, becomes
  a value.
\<close>

theorem answer_throws_iff:
  "classifyAnswer parse g m answer = Inl e \<longleftrightarrow>
     (\<exists>str ms v. answer = Some str \<and> parse str = Some (JObject ms) \<and> m \<in> set (m_resultMethods g)
       \<and> m \<notin> set (m_voidMethods g) \<and> map_of ms ''success'' = Some v \<and> v \<notin> range JBool)"
proof -
  have b: "jvalue_bool (JObject ms) k d = Inl e \<longleftrightarrow> (\<exists>v. map_of ms k = Some v \<and> v \<notin> range JBool)" for ms k d
    by (cases e) (auto simp: jvalue_bool_def jfind_def split: option.splits json.splits)
  have o: "is_object j \<longleftrightarrow> (\<exists>ms. j = JObject ms)" for j by (cases j) auto
  have c: "(case x of Inl e \<Rightarrow> Inl e | Inr b \<Rightarrow> Inr (f b)) = Inl e \<longleftrightarrow> x = Inl e" for x :: "exn + bool" and f :: "bool \<Rightarrow> qvariant"
    by (cases x) simp_all
  show ?thesis
  proof (cases "\<exists>str ms. answer = Some str \<and> parse str = Some (JObject ms) \<and> m \<in> set (m_resultMethods g) \<and> m \<notin> set (m_voidMethods g)")
    case True
    then obtain str ms where "answer = Some str" "parse str = Some (JObject ms)" "m \<in> set (m_resultMethods g)"
      "m \<notin> set (m_voidMethods g)" by blast
    then show ?thesis by (simp add: classifyAnswer_def c b)
  next
    case False
    then show ?thesis
      by (auto simp: classifyAnswer_def c o split: option.splits if_split_asm)
  qed
qed

end
