(* ===== verification/InProcContainer.thy ===== *)
theory InProcContainer
  imports BareModuleGlue LoaderRegistry
begin

text \<open>
  \<open>src/logos_core/inproc_container.{h,cpp}\<close>: the container that runs a Bare module in the host
  process. What the image, the Qt remoting layer and the token store answer is the record
  \<open>inproc_env\<close>; a \<open>LogosAPI\<close> is a number, and \<open>liveApis\<close> are those not deleted. The calls that
  drive a glue are those of \<open>BareModuleGlue\<close>. The last part gives the container's laws and the
  invariant that no image is unmapped under a module.
\<close>

section \<open>State\<close>

record Instance =
  i_name :: string
  i_abi :: BareModuleAbi
  i_glue :: glue
  i_api :: "nat option"

record ImageStats =
  is_resolved :: bool
  is_residentKnown :: bool
  is_residentBytes :: nat
  is_mappedBytes :: nat

record inproc_env =
  ie_loader :: DynLoader
  ie_hostMajor :: int
  ie_hostVersion :: string
  ie_protocolVersion :: "nat \<Rightarrow> string option"
  ie_contract :: "nat \<Rightarrow> string option"
  ie_parse :: "string \<Rightarrow> json option"
  ie_absolute :: "string \<Rightarrow> string"
  ie_forIdentity :: "string \<Rightarrow> string \<Rightarrow> bool"
  ie_registerObject :: "string \<Rightarrow> bool"
  ie_adoptCredentialFor :: "string \<Rightarrow> string \<Rightarrow> bool"
  ie_cpuReported :: "string \<Rightarrow> bool"
  ie_workerStops :: "glue \<Rightarrow> bool"
  ie_cpuClock :: "string \<Rightarrow> rat"
  ie_imageStats :: "nat \<Rightarrow> ImageStats"
  ie_hash :: hash_iter

text \<open>\<open>torn_down\<close> are the glues destroyed so far.\<close>

record inproc =
  m_hostApi :: bool
  ip_modules :: "Instance umap"
  m_abandoned :: "Instance list"
  ip_images :: images
  liveApis :: "nat list"
  nextApi :: nat
  torn_down :: "glue list"

definition emptyInproc :: inproc where
  "emptyInproc = \<lparr>m_hostApi = False, ip_modules = [], m_abandoned = [], ip_images = noImages, liveApis = [],
     nextApi = 0, torn_down = []\<rparr>"

definition kInProcPid :: int where
  "kInProcPid = -1"

definition kDefaultModuleVersion :: string where
  "kDefaultModuleVersion = ''1.0.0''"

definition hostServicesJsonFor :: "string \<Rightarrow> string option" where
  "hostServicesJsonFor moduleName =
     (if moduleName = ''capability_module'' then Some (''['' @ CHR 0x22 # ''token_registry'' @ CHR 0x22 # '','' @
        CHR 0x22 # ''token_delivery'' @ CHR 0x22 # '']'') else None)"

definition setHostApi :: "bool \<Rightarrow> inproc \<Rightarrow> inproc" where
  "setHostApi api s = s\<lparr>m_hostApi := api\<rparr>"

definition inproc_canHandle :: "ModuleDescriptor \<Rightarrow> bool" where
  "inproc_canHandle desc \<longleftrightarrow> d_format desc = ''bare''"

section \<open>Launch\<close>

definition moduleVersionOf :: "ModuleDescriptor \<Rightarrow> exn + string" where
  "moduleVersionOf desc =
     (case (if is_object (d_rawMetadata desc) then jvalue_string (d_rawMetadata desc) ''version'' [] else Inr []) of
        Inl e \<Rightarrow> Inl e
      | Inr v \<Rightarrow> Inr (if v = [] then kDefaultModuleVersion else v))"

definition stampContext :: "inproc_env \<Rightarrow> ModuleDescriptor \<Rightarrow> glue \<Rightarrow> glue" where
  "stampContext E desc g =
     (let g = (case hostServicesJsonFor (d_name desc) of None \<Rightarrow> g | Some services \<Rightarrow> grantHostServices services g);
          moduleDir = (if d_path desc = [] then [] else path_parent (ie_absolute E (d_path desc)));
          instanceId = (if instancePersistencePath desc = [] then [] else path_filename (instancePersistencePath desc))
      in deliverContext moduleDir instanceId (instancePersistencePath desc) g)"

definition startInstance ::
  "inproc_env \<Rightarrow> ModuleDescriptor \<Rightarrow> BareModuleAbi \<Rightarrow> nat option \<Rightarrow> glue \<Rightarrow> inproc \<Rightarrow> launch_result \<times> string list \<times> inproc" where
  "startInstance E desc abi api g s =
     (Launched \<lparr>h_name = d_name desc, h_pid = kInProcPid, h_endpoint = ''inproc://'' @ d_name desc\<rparr>, [],
      s\<lparr>ip_modules := AList.update (d_name desc)
          \<lparr>i_name = d_name desc, i_abi = abi, i_glue = stampContext E desc g, i_api = api\<rparr> (ip_modules s)\<rparr>)"

definition publish ::
  "inproc_env \<Rightarrow> ModuleDescriptor \<Rightarrow> BareModuleAbi \<Rightarrow> glue \<Rightarrow> inproc \<Rightarrow> launch_result \<times> string list \<times> inproc" where
  "publish E desc abi g s =
     (let closed = (\<lambda>s. s\<lparr>ip_images := snd (closeBareModule abi (ip_images s)), torn_down := torn_down s @ [destroyGlue True g]\<rparr>) in
      if \<not> m_hostApi s then startInstance E desc abi None g s
      else if \<not> ie_forIdentity E (d_name desc) (transportSetJson desc) then (NotLaunched, [], closed s)
      else let api = nextApi s; s = s\<lparr>liveApis := liveApis s @ [api], nextApi := Suc api\<rparr> in
        if \<not> ie_registerObject E (d_name desc) then (NotLaunched, [], closed s)
        else startInstance E desc abi (Some api)
          (enableDeferredDispatch (ie_cpuReported E (d_name desc)) (setEventListener True g)) s)"

definition inproc_launch ::
  "inproc_env \<Rightarrow> ModuleDescriptor \<Rightarrow> string \<Rightarrow> string list \<Rightarrow> inproc \<Rightarrow> launch_result \<times> string list \<times> inproc" where
  "inproc_launch E desc hostBinary args s =
     (if d_name desc \<in> set (keys (ip_modules s)) then (NotLaunched, [], s)
      else case openBareModule (ie_loader E) (d_path desc) emptyAbi (ip_images s) of
        ((False, _), _, im) \<Rightarrow> (NotLaunched, [], s\<lparr>ip_images := im\<rparr>)
      | ((True, _), abi, im) \<Rightarrow>
          (let version = (if a_protocolVersion abi then Option.bind (a_handle abi) (ie_protocolVersion E) else None);
               (compatible, reason) = bareModuleProtocolCompatible (ie_hostMajor E) (ie_hostVersion E)
                 (case version of None \<Rightarrow> [] | Some v \<Rightarrow> v)
           in if \<not> compatible then (NotLaunched, [], s\<lparr>ip_images := snd (closeBareModule abi im)\<rparr>)
              else case moduleVersionOf desc of
                Inl e \<Rightarrow> (LaunchThrew e, [], s\<lparr>ip_images := im\<rparr>)
              | Inr v \<Rightarrow> publish E desc abi
                  (newGlue (ie_parse E) (Option.bind (a_handle abi) (ie_contract E)) (d_name desc) v abi) (s\<lparr>ip_images := im\<rparr>)))"

section \<open>The other operations\<close>

definition inproc_sendToken :: "inproc_env \<Rightarrow> string \<Rightarrow> string \<Rightarrow> inproc \<Rightarrow> bool \<times> string list \<times> inproc" where
  "inproc_sendToken E name token s =
     (case map_of (ip_modules s) name of
        None \<Rightarrow> (False, [], s)
      | Some inst \<Rightarrow> (case i_api inst of
            Some _ \<Rightarrow> (ie_adoptCredentialFor E name token, [], s)
          | None \<Rightarrow> (True, [], s)))"

definition inproc_awaitLoad :: "string \<Rightarrow> nat \<Rightarrow> inproc \<Rightarrow> LoadOutcome \<times> string list \<times> inproc" where
  "inproc_awaitLoad name timeout s =
     ((if name \<in> set (keys (ip_modules s)) then \<lparr>verdict = VerdictLoaded, lo_reason = []\<rparr>
       else \<lparr>verdict = VerdictFailed, lo_reason = ''the in-process module is not running''\<rparr>), [], s)"

definition inproc_terminate :: "inproc_env \<Rightarrow> string \<Rightarrow> inproc \<Rightarrow> string list \<times> inproc" where
  "inproc_terminate E name s =
     (case map_of (ip_modules s) name of
        None \<Rightarrow> ([], s)
      | Some inst \<Rightarrow>
          (let s = s\<lparr>ip_modules := AList.delete name (ip_modules s)\<rparr>;
               g = aboutToUnload (i_glue inst);
               (stopped, g) = stopDispatch (ie_workerStops E g) g
           in if \<not> stopped then ([name], s\<lparr>m_abandoned := m_abandoned s @ [inst\<lparr>i_glue := g\<rparr>]\<rparr>)
              else let s = (case i_api inst of None \<Rightarrow> s | Some a \<Rightarrow> s\<lparr>liveApis := removeAll a (liveApis s)\<rparr>)
                in ([name], s\<lparr>torn_down := torn_down s @ [destroyGlue True g],
                     ip_images := snd (closeBareModule (i_abi inst) (ip_images s))\<rparr>)))"

fun terminate_each :: "inproc_env \<Rightarrow> string list \<Rightarrow> inproc \<Rightarrow> string list \<times> inproc" where
  "terminate_each E [] s = ([], s)"
| "terminate_each E (n # ns) s =
     (let (ds, s1) = inproc_terminate E n s; (ds', s2) = terminate_each E ns s1 in (ds @ ds', s2))"

definition inproc_terminateAll :: "inproc_env \<Rightarrow> inproc \<Rightarrow> string list \<times> inproc" where
  "inproc_terminateAll E s = terminate_each E (ie_hash E (keys (ip_modules s))) s"

definition inproc_hasModule :: "string \<Rightarrow> inproc \<Rightarrow> bool" where
  "inproc_hasModule name s \<longleftrightarrow> name \<in> set (keys (ip_modules s))"

definition inproc_pid :: "string \<Rightarrow> inproc \<Rightarrow> int option" where
  "inproc_pid name s = (if name \<in> set (keys (ip_modules s)) then Some kInProcPid else None)"

definition inproc_getAllPids :: "inproc \<Rightarrow> int umap" where
  "inproc_getAllPids s = map (\<lambda>n. (n, kInProcPid)) (keys (ip_modules s))"

definition measureInstance :: "inproc_env \<Rightarrow> string \<Rightarrow> Instance \<Rightarrow> ModuleResourceUsage" where
  "measureInstance E name inst =
     (let cpu = (case dispatchCpuSeconds (ie_cpuClock E name) (i_glue inst) of None \<Rightarrow> 0 | Some c \<Rightarrow> c);
          measured = \<lparr>cpuTimeSeconds = cpu, memoryBytes = 0, memoryIsResident = False\<rparr> in
      case (if a_dispatch (i_abi inst) then a_handle (i_abi inst) else None) of
        None \<Rightarrow> measured
      | Some h \<Rightarrow> (let image = ie_imageStats E h in
          if is_resolved image
          then measured\<lparr>memoryBytes := (if is_residentKnown image then is_residentBytes image else is_mappedBytes image),
            memoryIsResident := is_residentKnown image\<rparr>
          else measured))"

definition inproc_getAllResourceUsage :: "inproc_env \<Rightarrow> inproc \<Rightarrow> ModuleResourceUsage umap" where
  "inproc_getAllResourceUsage E s = map (\<lambda>(n, i). (n, measureInstance E n i)) (ip_modules s)"

definition inprocContainer :: "inproc_env \<Rightarrow> inproc ModuleContainer" where
  "inprocContainer E = \<lparr>c_id = ''inproc'', c_canHandle = inproc_canHandle, c_launch = inproc_launch E,
     c_sendToken = inproc_sendToken E, c_awaitLoad = inproc_awaitLoad, c_terminate = inproc_terminate E,
     c_terminateAll = inproc_terminateAll E, c_hasModule = inproc_hasModule, c_pid = inproc_pid,
     c_getAllPids = inproc_getAllPids, c_usage = Some (inproc_getAllResourceUsage E)\<rparr>"

section \<open>The contract\<close>

lemma publish_frame:
  assumes "publish E desc abi g s = (r, ds, s')"
  shows "ds = []" "n \<noteq> d_name desc \<Longrightarrow> map_of (ip_modules s') n = map_of (ip_modules s) n"
    "umap_ok (ip_modules s) \<Longrightarrow> umap_ok (ip_modules s')"
    "r = Launched out \<Longrightarrow> d_name desc \<in> set (keys (ip_modules s'))"
  using assms by (auto simp: publish_def startInstance_def Let_def simp del: set_map split: if_splits)

lemma launch_frame:
  assumes "inproc_launch E desc host args s = (r, ds, s')"
  shows "ds = []" "n \<noteq> d_name desc \<Longrightarrow> map_of (ip_modules s') n = map_of (ip_modules s) n"
    "umap_ok (ip_modules s) \<Longrightarrow> umap_ok (ip_modules s')"
    "r = Launched out \<Longrightarrow> d_name desc \<in> set (keys (ip_modules s'))"
  using assms publish_frame [of E desc _ _ "s\<lparr>ip_images := _\<rparr>" r ds s']
  by (auto simp: inproc_launch_def Let_def simp del: set_map split: if_splits prod.splits bool.splits sum.splits)

lemma publish_not:
  assumes "publish E desc abi g s = (r, ds, s')" and "\<And>h. r \<noteq> Launched h"
  shows "ip_modules s' = ip_modules s"
  using assms by (auto simp: publish_def startInstance_def Let_def split: if_splits)

lemma launch_not:
  assumes "inproc_launch E desc host args s = (r, ds, s')" and "\<And>h. r \<noteq> Launched h"
  shows "ip_modules s' = ip_modules s"
  using assms publish_not [of E desc _ _ "s\<lparr>ip_images := _\<rparr>" r ds s']
  by (auto simp: inproc_launch_def Let_def simp del: set_map split: if_splits prod.splits bool.splits sum.splits)

lemma inproc_has: "inproc_hasModule n s \<longleftrightarrow> map_of (ip_modules s) n \<noteq> None"
  by (simp add: inproc_hasModule_def map_of_None_keys del: set_map)

lemma terminate_modules:
  assumes "inproc_terminate E name s = (ds, s')"
  shows "ip_modules s' = AList.delete name (ip_modules s)"
    and "ds = (if inproc_hasModule name s then [name] else [])"
proof -
  have "ip_modules s' = AList.delete name (ip_modules s) \<and> ds = (if inproc_hasModule name s then [name] else [])"
  proof (cases "map_of (ip_modules s) name")
    case None
    then have "AList.delete name (ip_modules s) = ip_modules s"
      by (intro delete_id) (simp add: map_of_eq_None_iff)
    then show ?thesis using assms None by (simp add: inproc_terminate_def inproc_has)
  next
    case (Some inst)
    show ?thesis
      using assms
      by (cases "i_api inst"; cases "stopDispatch (ie_workerStops E (aboutToUnload (i_glue inst))) (aboutToUnload (i_glue inst))")
        (auto simp: inproc_terminate_def Some inproc_has Let_def split: if_splits)
  qed
  then show "ip_modules s' = AList.delete name (ip_modules s)"
    and "ds = (if inproc_hasModule name s then [name] else [])" by blast+
qed

lemma terminate_each_modules:
  assumes "terminate_each E ns s = (ds, s')"
  shows "map_of (ip_modules s') n = (if n \<in> set ns then None else map_of (ip_modules s) n)"
    and "umap_ok (ip_modules s) \<Longrightarrow> umap_ok (ip_modules s')"
    and "distinct ns \<Longrightarrow> ds = filter (\<lambda>n. inproc_hasModule n s) ns"
proof -
  have "map_of (ip_modules s') n = (if n \<in> set ns then None else map_of (ip_modules s) n)
    \<and> (umap_ok (ip_modules s) \<longrightarrow> umap_ok (ip_modules s'))
    \<and> (distinct ns \<longrightarrow> ds = filter (\<lambda>n. inproc_hasModule n s) ns)"
    using assms
  proof (induction ns arbitrary: s ds)
    case (Cons x ns)
    obtain d1 s1 where t: "inproc_terminate E x s = (d1, s1)" by (cases "inproc_terminate E x s")
    obtain d2 where e: "terminate_each E ns s1 = (d2, s')" "ds = d1 @ d2"
      using Cons.prems t by (auto split: prod.splits)
    have "filter (\<lambda>n. inproc_hasModule n s1) ns = filter (\<lambda>n. inproc_hasModule n s) ns" if "x \<notin> set ns"
      using that by (intro filter_cong) (auto simp: inproc_has terminate_modules(1) [OF t])
    then show ?case
      using Cons.IH [OF e(1)] terminate_modules [OF t] e(2) by auto
  qed simp
  then show "map_of (ip_modules s') n = (if n \<in> set ns then None else map_of (ip_modules s) n)"
    and "umap_ok (ip_modules s) \<Longrightarrow> umap_ok (ip_modules s')"
    and "distinct ns \<Longrightarrow> ds = filter (\<lambda>n. inproc_hasModule n s) ns" by blast+
qed

lemma terminateAll_modules:
  assumes "hash_order (ie_hash E)" and "umap_ok (ip_modules s)" and "inproc_terminateAll E s = (ds, s')"
  shows "map_of (ip_modules s') n = None" and "umap_ok (ip_modules s')" and "ds = ie_hash E (keys (ip_modules s))"
proof -
  let ?ns = "ie_hash E (keys (ip_modules s))"
  have d: "distinct (keys (ip_modules s))" using assms(2) by (simp add: umap_ok_def)
  have ns: "distinct ?ns" "set ?ns = set (keys (ip_modules s))"
    using hash_orderD [OF assms(1) d] by simp_all
  have t: "terminate_each E ?ns s = (ds, s')" using assms(3) by (simp add: inproc_terminateAll_def)
  note m = terminate_each_modules [OF t]
  show "map_of (ip_modules s') n = None"
    using m(1) [of n] ns(2) map_of_None_keys [of "ip_modules s" n] by (auto simp del: set_map split: if_splits)
  show "umap_ok (ip_modules s')" using m(2) assms(2) by blast
  have "filter (\<lambda>n. inproc_hasModule n s) ?ns = ?ns"
    using ns(2) by (intro filter_True) (auto simp: inproc_hasModule_def simp del: set_map)
  then show "ds = ?ns" using m(3) ns(1) by simp
qed

definition inproc_names_ok :: "inproc_env \<Rightarrow> inproc \<Rightarrow> bool" where
  "inproc_names_ok E s \<longleftrightarrow> hash_order (ie_hash E) \<and> umap_ok (ip_modules s)"

interpretation inproc: module_container "inprocContainer E" "inproc_names_ok E" for E
proof (unfold_locales, goal_cases)
  case (1 s desc host args r ds s')
  then show ?case
    using launch_frame [of E desc host args s r ds s'] launch_not [of E desc host args s r ds s']
    by (cases r) (auto simp: inprocContainer_def inproc_names_ok_def ends_only_def inproc_has)
next
  case (2 s desc host args h ds s')
  then show ?case
    using launch_frame [of E desc host args s "Launched h" ds s']
    by (auto simp: inprocContainer_def inproc_names_ok_def starts_only_def inproc_has map_of_None_keys simp del: set_map)
next
  case (3 s name token sent ds s')
  then show ?case by (auto simp: inprocContainer_def inproc_sendToken_def split: option.splits)
next
  case (4 s name timeout outcome ds s')
  then show ?case by (auto simp: inprocContainer_def inproc_awaitLoad_def)
next
  case (5 s name ds s')
  then show ?case
    using terminate_modules [of E name s ds s'] by (auto simp: inprocContainer_def inproc_names_ok_def ends_only_def inproc_has)
next
  case (6 s name ds s')
  then show ?case using terminate_modules [of E name s ds s'] by (simp add: inprocContainer_def inproc_has)
next
  case (7 s ds s')
  then show ?case
    using terminateAll_modules [of E s ds s'] hash_orderD [of "ie_hash E" "keys (ip_modules s)"]
    by (auto simp: inprocContainer_def inproc_names_ok_def inproc_hasModule_def umap_ok_def)
next
  case (8 s ds s' name)
  then show ?case
    using terminateAll_modules(1) [of E s ds s' name] by (simp add: inprocContainer_def inproc_names_ok_def inproc_has)
qed

section \<open>Launching\<close>

text \<open>The module would run: the name is free, the image opens as a Bare module of a protocol this host
  speaks, and its identity can be isolated.\<close>

definition launchable :: "inproc_env \<Rightarrow> ModuleDescriptor \<Rightarrow> inproc \<Rightarrow> bool" where
  "launchable E desc s \<longleftrightarrow>
     \<not> inproc_hasModule (d_name desc) s
   \<and> d_path desc \<noteq> [] \<and> isRegularFile (ie_loader E) (d_path desc)
   \<and> (case imageAt (ie_loader E) (d_path desc) of None \<Rightarrow> False
      | Some h \<Rightarrow> list_all (exports (ie_loader E) h) requiredSymbols
          \<and> pgDecision (evaluateProtocolGate (case ie_protocolVersion E h of None \<Rightarrow> [] | Some v \<Rightarrow> v) (ie_hostMajor E)) \<noteq> PgRefuse)
   \<and> (case moduleVersionOf desc of Inl _ \<Rightarrow> False | Inr _ \<Rightarrow> True)
   \<and> (m_hostApi s \<longrightarrow> ie_forIdentity E (d_name desc) (transportSetJson desc))"

lemma compatible_iff:
  "fst (bareModuleProtocolCompatible major text' v) \<longleftrightarrow> pgDecision (evaluateProtocolGate v major) \<noteq> PgRefuse"
  by (auto simp: bareModuleProtocolCompatible_def Let_def split: ProtocolGateDecision.splits)

lemma resolved_slots: "a_protocolVersion (resolvedAbi L h)" "a_handle (resolvedAbi L h) = Some h"
  by (simp_all add: resolvedAbi_def)

lemma publish_verdict:
  assumes "publish E desc abi g s = (r, ds, s')"
  shows "(\<exists>out. r = Launched out) \<longleftrightarrow> (m_hostApi s \<longrightarrow> ie_forIdentity E (d_name desc) (transportSetJson desc) \<and> ie_registerObject E (d_name desc))"
    and "(\<nexists>out. r = Launched out) \<Longrightarrow> ip_modules s' = ip_modules s"
    and "m_abandoned s' = m_abandoned s"
    and "m_hostApi s \<Longrightarrow> ie_forIdentity E (d_name desc) (transportSetJson desc) \<Longrightarrow> liveApis s' = liveApis s @ [nextApi s]"
  using assms by (auto simp: publish_def startInstance_def Let_def split: if_splits)

lemma launch_opened:
  assumes "inproc_launch E desc host args s = (r, ds, s')" and "\<not> inproc_hasModule (d_name desc) s"
    and "openBareModule (ie_loader E) (d_path desc) emptyAbi (ip_images s) = ((True, e), abi, im)"
  shows "((\<exists>out. r = Launched out) \<longleftrightarrow> launchable E desc s \<and> (m_hostApi s \<longrightarrow> ie_registerObject E (d_name desc)))
    \<and> ((\<nexists>out. r = Launched out) \<longrightarrow> ip_modules s' = ip_modules s \<and> m_abandoned s' = m_abandoned s)
    \<and> (launchable E desc s \<and> m_hostApi s \<and> \<not> ie_registerObject E (d_name desc) \<longrightarrow>
         liveApis s' = liveApis s @ [nextApi s])"
proof -
  note res = openBareModule_result [OF assms(3)]
  obtain h where h: "imageAt (ie_loader E) (d_path desc) = Some h" "abi = resolvedAbi (ie_loader E) h" using res(2) by blast
  let ?v = "case ie_protocolVersion E h of None \<Rightarrow> [] | Some v \<Rightarrow> v"
  obtain compat why where c: "bareModuleProtocolCompatible (ie_hostMajor E) (ie_hostVersion E) ?v = (compat, why)"
    by (metis prod.exhaust)
  have "compat \<longleftrightarrow> pgDecision (evaluateProtocolGate ?v (ie_hostMajor E)) \<noteq> PgRefuse"
    using compatible_iff [of "ie_hostMajor E" "ie_hostVersion E" ?v] c by simp
  then have l: "launchable E desc s \<longleftrightarrow> compat \<and> (\<exists>v. moduleVersionOf desc = Inr v)
      \<and> (m_hostApi s \<longrightarrow> ie_forIdentity E (d_name desc) (transportSetJson desc))"
    using res(1) assms(2) h by (auto simp: launchable_def list_all_iff split: sum.split)
  show ?thesis
  proof (cases "moduleVersionOf desc")
    case (Inl x)
    then show ?thesis using assms h c l
      by (cases compat) (auto simp: inproc_launch_def inproc_hasModule_def resolved_slots simp del: set_map)
  next
    case v: (Inr v)
    show ?thesis
    proof (cases compat)
      case False
      then show ?thesis using assms h c l by (auto simp: inproc_launch_def inproc_hasModule_def resolved_slots simp del: set_map)
    next
      case True
      have "publish E desc abi (newGlue (ie_parse E) (ie_contract E h) (d_name desc) v abi) (s\<lparr>ip_images := im\<rparr>) = (r, ds, s')"
        using assms h c True v by (auto simp: inproc_launch_def inproc_hasModule_def resolved_slots simp del: set_map)
      from publish_verdict [OF this] show ?thesis using l True v by auto
    qed
  qed
qed

text \<open>
  C30. A launch succeeds exactly when the module is launchable and, where there is a host API, the provider
  takes it; otherwise no module appears or leaves. The \<open>LogosAPI\<close> made for a module the provider then
  refuses stays alive.
\<close>

theorem inproc_launch_verdict:
  assumes "inproc_launch E desc host args s = (r, ds, s')"
  shows "((\<exists>out. r = Launched out) \<longleftrightarrow> launchable E desc s \<and> (m_hostApi s \<longrightarrow> ie_registerObject E (d_name desc)))
    \<and> ((\<nexists>out. r = Launched out) \<longrightarrow> ip_modules s' = ip_modules s \<and> m_abandoned s' = m_abandoned s)
    \<and> (launchable E desc s \<and> m_hostApi s \<and> \<not> ie_registerObject E (d_name desc) \<longrightarrow>
         liveApis s' = liveApis s @ [nextApi s])"
proof (cases "inproc_hasModule (d_name desc) s")
  case True
  then show ?thesis using assms by (auto simp: inproc_launch_def launchable_def inproc_hasModule_def simp del: set_map)
next
  case False
  obtain ok e abi im where o: "openBareModule (ie_loader E) (d_path desc) emptyAbi (ip_images s) = ((ok, e), abi, im)"
    by (metis prod.exhaust)
  show ?thesis
  proof (cases ok)
    case True
    with o have "openBareModule (ie_loader E) (d_path desc) emptyAbi (ip_images s) = ((True, e), abi, im)" by simp
    from launch_opened [OF assms False this] show ?thesis .
  next
    case failed: False
    then have "\<not> launchable E desc s"
      using openBareModule_result(1) [OF o] by (auto simp: launchable_def list_all_iff split: option.splits)
    moreover have "(r, ds, s') = (NotLaunched, [], s\<lparr>ip_images := im\<rparr>)"
      using assms False failed o by (simp add: inproc_launch_def inproc_hasModule_def del: set_map)
    ultimately show ?thesis by simp
  qed
qed

definition sample_env :: inproc_env where
  "sample_env = \<lparr>ie_loader = \<lparr>isRegularFile = (\<lambda>_. True), imageAt = (\<lambda>_. Some 7), exports = (\<lambda>_ _. True), loaderError = (\<lambda>p. p)\<rparr>,
     ie_hostMajor = 1, ie_hostVersion = ''1.0'', ie_protocolVersion = (\<lambda>_. Some ''1.2''), ie_contract = (\<lambda>_. None),
     ie_parse = (\<lambda>_. None), ie_absolute = (\<lambda>p. p), ie_forIdentity = (\<lambda>_ _. True), ie_registerObject = (\<lambda>n. n \<noteq> ''bad''),
     ie_adoptCredentialFor = (\<lambda>_ _. True), ie_cpuReported = (\<lambda>_. True), ie_workerStops = (\<lambda>g. g_name g \<noteq> ''stuck''), ie_cpuClock = (\<lambda>_. 1),
     ie_imageStats = (\<lambda>_. \<lparr>is_resolved = False, is_residentKnown = False, is_residentBytes = 0, is_mappedBytes = 0\<rparr>), ie_hash = (\<lambda>xs. xs)\<rparr>"

definition sample_launch :: "string \<Rightarrow> inproc \<Rightarrow> inproc" where
  "sample_launch name s = snd (snd (inproc_launch sample_env (emptyDescriptor\<lparr>d_name := name, d_path := ''/m/x''\<rparr>) [] [] s))"

lemma sample_launchable: "launchable sample_env (emptyDescriptor\<lparr>d_name := ''bad'', d_path := ''/m/x''\<rparr>) (setHostApi True emptyInproc)"
  by code_simp

theorem inproc_launch_verdict_witness:
  "liveApis (sample_launch ''bad'' (setHostApi True emptyInproc)) = [0] \<and> ip_modules (sample_launch ''bad'' (setHostApi True emptyInproc)) = []"
proof -
  let ?d = "emptyDescriptor\<lparr>d_name := ''bad'', d_path := ''/m/x''\<rparr>"
  let ?s = "setHostApi True emptyInproc"
  obtain r ds s' where l: "inproc_launch sample_env ?d [] [] ?s = (r, ds, s')" by (metis prod.exhaust)
  have "m_hostApi ?s" "\<not> ie_registerObject sample_env (d_name ?d)" "liveApis ?s = []" "nextApi ?s = 0" "ip_modules ?s = []"
    by (simp_all add: setHostApi_def sample_env_def emptyInproc_def)
  then show ?thesis
    using inproc_launch_verdict [OF l] sample_launchable l by (simp add: sample_launch_def)
qed

section \<open>Stopping a module\<close>

lemma answer_all:
  "fold answerUnloading qs g = g\<lparr>completions := completions g @ map (\<lambda>q. (q_callId q, unloadingAnswer g (q_methodName q), m_eventCallback g)) qs\<rparr>"
proof (induction qs arbitrary: g)
  case (Cons q qs)
  show ?case
    unfolding fold.simps comp_def Cons.IH
    by (simp add: answerUnloading_def deliverCompletion_def unloadingAnswer_def)
qed simp

definition unloading_completions :: "glue \<Rightarrow> (string \<times> qvariant \<times> bool) list" where
  "unloading_completions g = map (\<lambda>q. (q_callId q, unloadingAnswer g (q_methodName q), m_eventCallback g)) (m_queued g)"

lemma stopDispatch_result:
  assumes "stopDispatch stops g = (stopped, g')"
  shows "stopped \<longleftrightarrow> stops \<or> \<not> m_worker g"
    and "m_worker g \<or> m_queued g = [] \<Longrightarrow> completions g' = completions g @ unloading_completions g \<and> m_queued g' = []"
    and "m_dispatch g' = DispatchRetired" and "stopped \<Longrightarrow> \<not> m_worker g'" and "g_abi g' = g_abi g"
    and "stopDispatch b (deleteWorker g') = (True, deleteWorker g'\<lparr>m_dispatch := DispatchRetired\<rparr>)"
  using assms
  by (auto simp: stopDispatch_def retire_glue_def takeQueuedCalls_def answer_all deleteWorker_def unloading_completions_def
      unloadingAnswer_def Let_def split: if_splits)

lemma aboutToUnload_frames:
  "m_worker (aboutToUnload g) = m_worker g" "m_queued (aboutToUnload g) = m_queued g"
  "completions (aboutToUnload g) = completions g" "g_abi (aboutToUnload g) = g_abi g"
  "unloading_completions (aboutToUnload g) = unloading_completions g"
  by (simp_all add: aboutToUnload_def Let_def unloading_completions_def unloadingAnswer_def)

lemma destroyGlue_frames:
  assumes "\<not> m_worker g"
  shows "completions (destroyGlue True g) = completions g"
    "a_setEmitCallback (g_abi g) \<Longrightarrow> last (image_log (destroyGlue True g)) = IcSetEmitCallback False"
  using assms by (simp_all add: destroyGlue_def stopDispatch_def retire_glue_def image_call_def Let_def)



section \<open>Images stay mapped\<close>

definition held_by :: "inproc \<Rightarrow> nat \<Rightarrow> nat" where
  "held_by s h = count_list (map (a_handle \<circ> i_abi) (map snd (ip_modules s) @ m_abandoned s)) (Some h)"

definition images_inv :: "inproc \<Rightarrow> bool" where
  "images_inv s \<longleftrightarrow> umap_ok (ip_modules s) \<and> owned (held_by s) (ip_images s)
     \<and> (\<forall>i \<in> set (map snd (ip_modules s) @ m_abandoned s). a_handle (i_abi i) \<noteq> None)"

datatype inproc_op =
    IpHost bool
  | IpLaunch ModuleDescriptor
  | IpToken string string
  | IpAwait string nat
  | IpTerminate string
  | IpTerminateAll

fun inproc_step :: "inproc_env \<Rightarrow> inproc_op \<Rightarrow> inproc \<Rightarrow> inproc" where
  "inproc_step E (IpHost api) s = setHostApi api s"
| "inproc_step E (IpLaunch desc) s = snd (snd (inproc_launch E desc [] [] s))"
| "inproc_step E (IpToken name token) s = snd (snd (inproc_sendToken E name token s))"
| "inproc_step E (IpAwait name ms) s = snd (snd (inproc_awaitLoad name ms s))"
| "inproc_step E (IpTerminate name) s = snd (inproc_terminate E name s)"
| "inproc_step E IpTerminateAll s = snd (inproc_terminateAll E s)"

lemma count_delete:
  assumes "umap_ok m" and "map_of m k = Some v"
  shows "count_list (map f (map snd m)) x = (if f v = x then 1 else 0) + count_list (map f (map snd (AList.delete k m))) x"
  using assms
proof (induction m)
  case (Cons e m)
  obtain k' v' where e: "e = (k', v')" by (cases e)
  show ?case
  proof (cases "k' = k")
    case True
    then have "k \<notin> fst ` set m" using Cons.prems(1) by (auto simp: umap_ok_def e)
    then have "AList.delete k m = m" by (rule delete_id)
    then show ?thesis using Cons.prems(2) True by (simp add: e AList.delete_eq)
  next
    case False
    then show ?thesis using Cons by (simp add: e AList.delete_eq umap_ok_def)
  qed
qed simp

lemma set_delete_snd: "x \<in> set (map snd (AList.delete k m)) \<Longrightarrow> x \<in> set (map snd m)"
  by (auto simp: AList.delete_eq)

lemma update_new: "k \<notin> fst ` set m \<Longrightarrow> AList.update k v m = m @ [(k, v)]"
  by (induction m) auto

lemma held_new:
  assumes "map_of (ip_modules s) n = None" and "ip_modules s' = AList.update n i (ip_modules s)" and "m_abandoned s' = m_abandoned s"
  shows "held_by s' h = held_by s h + (if a_handle (i_abi i) = Some h then 1 else 0)"
  using assms by (simp add: held_by_def map_of_eq_None_iff update_new)

lemma held_frame: "ip_modules s' = ip_modules s \<Longrightarrow> m_abandoned s' = m_abandoned s \<Longrightarrow> held_by s' = held_by s"
  by (rule ext) (simp add: held_by_def)

lemma images_inv_frame:
  "images_inv s \<Longrightarrow> ip_modules s' = ip_modules s \<Longrightarrow> m_abandoned s' = m_abandoned s \<Longrightarrow> owned (held_by s) (ip_images s') \<Longrightarrow> images_inv s'"
  by (simp add: images_inv_def held_frame [of s' s])

lemma owned_fun: "owned f im \<Longrightarrow> (\<And>h. g h \<le> f h) \<Longrightarrow> owned g im"
  unfolding owned_def by (meson add_le_mono le_trans order_refl)

lemma publish_images:
  assumes "images_inv s" and "map_of (ip_modules s) (d_name desc) = None" and "a_handle abi = Some h"
    and "owned ((held_by s)(h := Suc (held_by s h))) (ip_images s)" and "publish E desc abi g s = (r, ds, s')"
  shows "images_inv s' \<and> set (retained (ip_images s)) \<subseteq> set (retained (ip_images s'))"
proof (cases "\<exists>out. r = Launched out")
  case True
  then obtain i where s': "ip_modules s' = AList.update (d_name desc) i (ip_modules s)" "i_abi i = abi"
    "m_abandoned s' = m_abandoned s" "ip_images s' = ip_images s"
    using assms(5) by (auto simp: publish_def startInstance_def Let_def split: if_splits)
  have "held_by s' x = ((held_by s)(h := Suc (held_by s h))) x" for x
    using held_new [OF assms(2) s'(1,3), of x] assms(3) s'(2) by simp
  then have "held_by s' = (held_by s)(h := Suc (held_by s h))" by (rule ext)
  moreover have "set (map snd (AList.update (d_name desc) i (ip_modules s))) \<subseteq> insert i (set (map snd (ip_modules s)))"
    using assms(2) by (simp add: map_of_eq_None_iff update_new)
  ultimately show ?thesis using assms(1,3,4) s' by (auto simp: images_inv_def)
next
  case False
  then have s': "ip_images s' = snd (closeBareModule abi (ip_images s))" "ip_modules s' = ip_modules s" "m_abandoned s' = m_abandoned s"
    using assms(5) by (auto simp: publish_def startInstance_def Let_def split: if_splits)
  have c: "owned (held_by s) (ip_images s')"
    using owned_close(1) [OF assms(4,3), of "held_by s h"] by (simp add: s')
  show ?thesis
    using images_inv_frame [OF assms(1) s'(2,3) c] owned_close(2) [OF assms(4,3), of "held_by s h"] by (auto simp: s')
qed

lemma launch_images:
  assumes "images_inv s" and "inproc_launch E desc host args s = (r, ds, s')"
  shows "images_inv s' \<and> set (retained (ip_images s)) \<subseteq> set (retained (ip_images s'))"
proof (cases "d_name desc \<in> set (keys (ip_modules s))")
  case True
  then show ?thesis using assms by (simp add: inproc_launch_def)
next
  case False
  then have new: "map_of (ip_modules s) (d_name desc) = None" by (simp add: map_of_eq_None_iff)
  obtain ok e abi im where o: "openBareModule (ie_loader E) (d_path desc) emptyAbi (ip_images s) = ((ok, e), abi, im)"
    by (metis prod.exhaust)
  have own: "owned (held_by s) (ip_images s)" using assms(1) by (simp add: images_inv_def)
  show ?thesis
  proof (cases ok)
    case False
    then have s': "s' = s\<lparr>ip_images := im\<rparr>"
      using assms(2) o \<open>d_name desc \<notin> _\<close> by (simp add: inproc_launch_def del: set_map)
    have "owned (held_by s) im" "retained im = retained (ip_images s)"
      using owned_open(2) [OF own o False] by simp_all
    then show ?thesis using images_inv_frame [OF assms(1), of s'] s' by simp
  next
    case True
    obtain h where h: "a_handle abi = Some h" "owned ((held_by s)(h := Suc (held_by s h))) im" "retained im = retained (ip_images s)"
      using owned_open(1) [OF own o True] by blast
    let ?s = "s\<lparr>ip_images := im\<rparr>"
    have less: "owned (held_by s) im" by (rule owned_fun [OF h(2)]) simp
    have inv: "images_inv ?s" by (rule images_inv_frame [OF assms(1)]) (simp_all add: less)
    have hb: "held_by ?s = held_by s" by (rule held_frame) simp_all
    from assms(2) o True False consider (closed) "s' = s\<lparr>ip_images := snd (closeBareModule abi im)\<rparr>"
      | (threw) "s' = ?s"
      | (published) g where "publish E desc abi g ?s = (r, ds, s')"
      by (auto simp: inproc_launch_def Let_def simp del: set_map split: prod.splits if_splits sum.splits)
    then show ?thesis
    proof cases
      case closed
      have "owned (held_by s) (ip_images s')"
        using owned_close(1) [OF h(2,1), of "held_by s h"] by (simp add: closed)
      then show ?thesis
        using images_inv_frame [OF assms(1), of s'] closed owned_close(2) [OF h(2,1), of "held_by s h"] h(3) by auto
    next
      case threw
      then show ?thesis using inv h(3) by simp
    next
      case published
      have "owned ((held_by ?s)(h := Suc (held_by ?s h))) (ip_images ?s)" using h(2) by (simp add: hb)
      from publish_images [OF inv _ h(1) this published] show ?thesis using new h(3) by simp
    qed
  qed
qed

lemma terminate_images:
  assumes "images_inv s" and "inproc_terminate E name s = (ds, s')"
  shows "images_inv s' \<and> set (retained (ip_images s)) \<subseteq> set (retained (ip_images s'))"
proof (cases "map_of (ip_modules s) name")
  case None
  then show ?thesis using assms by (simp add: inproc_terminate_def)
next
  case (Some inst)
  have ok: "umap_ok (ip_modules s)" and own: "owned (held_by s) (ip_images s)"
    and hs: "\<forall>i \<in> set (map snd (ip_modules s) @ m_abandoned s). a_handle (i_abi i) \<noteq> None"
    using assms(1) by (simp_all add: images_inv_def)
  have "inst \<in> set (map snd (ip_modules s))" using Some by (force dest: map_of_SomeD)
  then obtain h where h: "a_handle (i_abi inst) = Some h" using hs by (metis UnCI not_None_eq set_append)
  note cnt = count_delete [OF ok Some, of "a_handle \<circ> i_abi"]
  let ?g = "aboutToUnload (i_glue inst)"
  obtain stopped g' where st: "stopDispatch (ie_workerStops E ?g) ?g = (stopped, g')" by (metis prod.exhaust)
  have sub: "\<forall>i \<in> set (map snd (AList.delete name (ip_modules s))). a_handle (i_abi i) \<noteq> None"
    using hs set_delete_snd [of _ name "ip_modules s"] by auto
  show ?thesis
  proof (cases stopped)
    case False
    then have s': "s' = s\<lparr>ip_modules := AList.delete name (ip_modules s), m_abandoned := m_abandoned s @ [inst\<lparr>i_glue := g'\<rparr>]\<rparr>"
      using assms(2) Some st by (auto simp: inproc_terminate_def Let_def)
    have "held_by s' x = held_by s x" for x
      using cnt [of "Some x"] by (simp add: held_by_def s')
    then have "held_by s' = held_by s" by (rule ext)
    then show ?thesis using ok own hs sub h s' by (auto simp: images_inv_def)
  next
    case True
    then have s': "ip_modules s' = AList.delete name (ip_modules s)" "m_abandoned s' = m_abandoned s"
      "ip_images s' = snd (closeBareModule (i_abi inst) (ip_images s))"
      using assms(2) Some st by (cases "i_api inst"; auto simp: inproc_terminate_def Let_def)+
    have held: "held_by s x = held_by s' x + (if x = h then 1 else 0)" for x
      using cnt [of "Some x"] h by (auto simp: held_by_def s')
    have "held_by s' = (held_by s)(h := held_by s' h)" by (rule ext) (simp add: held)
    then have "owned (held_by s') (ip_images s')"
      using owned_close(1) [OF own h, of "held_by s' h"] held [of h] by (simp add: s')
    then show ?thesis
      using owned_close(2) [OF own h, of "held_by s' h"] held [of h] ok hs sub by (auto simp: images_inv_def s')
  qed
qed

lemma terminate_each_images:
  "images_inv s \<Longrightarrow> terminate_each E ns s = (ds, s') \<Longrightarrow>
   images_inv s' \<and> set (retained (ip_images s)) \<subseteq> set (retained (ip_images s'))"
proof (induction ns arbitrary: s ds)
  case (Cons n ns)
  obtain d1 s1 where t: "inproc_terminate E n s = (d1, s1)" by (metis prod.exhaust)
  obtain d2 where e: "terminate_each E ns s1 = (d2, s')" using Cons.prems(2) t by (auto split: prod.splits)
  show ?case using terminate_images [OF Cons.prems(1) t] Cons.IH [OF _ e] by blast
qed simp

lemma step_images:
  assumes "images_inv s"
  shows "images_inv (inproc_step E op s) \<and> set (retained (ip_images s)) \<subseteq> set (retained (ip_images (inproc_step E op s)))"
proof (cases op)
  case (IpHost api)
  have "images_inv (setHostApi api s)"
    by (rule images_inv_frame [OF assms]) (use assms in \<open>simp_all add: setHostApi_def images_inv_def\<close>)
  then show ?thesis by (simp add: IpHost) (simp add: setHostApi_def)
next
  case (IpLaunch desc)
  then show ?thesis using launch_images [OF assms, of E desc "[]" "[]"] by (cases "inproc_launch E desc [] [] s") auto
next
  case (IpToken name token)
  then show ?thesis using assms by (simp add: inproc_sendToken_def split: option.split)
next
  case (IpAwait name ms)
  then show ?thesis using assms by (simp add: inproc_awaitLoad_def)
next
  case (IpTerminate name)
  then show ?thesis using terminate_images [OF assms, of E name] by (cases "inproc_terminate E name s") auto
next
  case IpTerminateAll
  then show ?thesis
    using terminate_each_images [OF assms, of E "ie_hash E (keys (ip_modules s))"]
    by (cases "terminate_each E (ie_hash E (keys (ip_modules s))) s") (auto simp: inproc_terminateAll_def)
qed



end
