(* ===== verification/ModuleManager.thy ===== *)
theory ModuleManager
  imports ManagerState InProcContainer
begin

text \<open>
  \<open>src/logos_core/module_manager.{h,cpp}\<close>, second part: loading, unloading and the public functions.
  An exception that a loader lets out of \<open>load\<close> leaves the load path too, so a load answers a value
  of \<open>exn + bool\<close>. A function that resolves dependencies answers \<open>None\<close> only where the resolver
  would not end. The names a loader call announced dead are handled by \<open>onTerminated\<close> right after it.
\<close>

section \<open>Deaths\<close>

definition superviseUnexpectedExit :: "mgr_env \<Rightarrow> string \<Rightarrow> 'c world \<Rightarrow> 'c world" where
  "superviseUnexpectedExit E name w =
     (let (v, sup) = onUnexpectedExit name (e_steady E) (w_supervisor w); w = w\<lparr>w_supervisor := sup\<rparr> in
      case decision v of
        Disabled \<Rightarrow> w
      | BudgetExhausted \<Rightarrow> w
      | Restart \<Rightarrow> w\<lparr>scheduledRestarts := scheduledRestarts w @ [(delay v, name)]\<rparr>)"

definition onTerminated :: "mgr_env \<Rightarrow> string \<Rightarrow> 'c world \<Rightarrow> 'c world" where
  "onTerminated E n w =
     (let (owned, w) = recordTerminationDuringLoad n w in
      if owned then w
      else let (wanted, w) = consumeExpectedExit n w in
        if wanted then flushFeed E (record_edge n kStopping kUnloaded None None None w)
        else superviseUnexpectedExit E n
          (flushFeed E (record_edge n kLoaded kError None None (Some ''module exited without being asked to'') w)))"

definition handleDeaths :: "mgr_env \<Rightarrow> string list \<Rightarrow> 'c world \<Rightarrow> 'c world" where
  "handleDeaths E ds w = fold (onTerminated E) ds w"

section \<open>Loading one module\<close>

definition dependencyGateFor :: "mgr_env \<Rightarrow> string \<Rightarrow> 'c world \<Rightarrow> DependencyGateResult" where
  "dependencyGateFor E name w =
     evaluateDependencyGate (e_validRange E) (e_satisfies E) (moduleDependencyEntries (w_registry w) name)
       (moduleVersion (w_registry w))"

definition moduleFormatOf :: "string \<Rightarrow> 'c world \<Rightarrow> string" where
  "moduleFormatOf name w =
     (let f = moduleFormat (w_registry w) name in if f = [] then ''qt-plugin'' else f)"

text \<open>The persistence identity: the instance id where there is one, and the path.\<close>

definition resolvePersistence :: "mgr_env \<Rightarrow> string \<Rightarrow> 'c world \<Rightarrow> string option \<times> string" where
  "resolvePersistence E name w =
     (if persistenceBasePath w = [] then (None, [])
      else let (i, p) = e_resolveInstance E (persistenceBasePath w) name in (if i = [] then None else Some i, p))"

text \<open>The metadata read from the artifact, for the descriptor: \<open>null\<close> where there is none.\<close>

definition artifactMetadata :: "mgr_env \<Rightarrow> string \<Rightarrow> json" where
  "artifactMetadata E modPath =
     (case e_extractMetadata E modPath of
        None \<Rightarrow> JNull
      | Some raw \<Rightarrow> (case e_parse E raw of None \<Rightarrow> JObject [] | Some j \<Rightarrow> j))"

definition protocolStamp :: "json \<Rightarrow> string" where
  "protocolStamp meta = (case jfind meta ''logos_protocol_version'' of Some (JString v) \<Rightarrow> v | _ \<Rightarrow> [])"

definition buildDescriptor :: "mgr_env \<Rightarrow> string \<Rightarrow> 'c world \<Rightarrow> ModuleDescriptor" where
  "buildDescriptor E name w =
     (let modPath = modulePath (w_registry w) name in
      \<lparr>d_name = name, d_path = modPath, d_format = moduleFormatOf name w,
       d_dependencies = directDependencies (w_registry w) name, d_modulesDirs = modulesDirs (w_registry w),
       instancePersistencePath = snd (resolvePersistence E name w),
       transportSetJson = (case map_of (moduleTransportsMap w) name of None \<Rightarrow> [] | Some j \<Rightarrow> j),
       d_rawMetadata = artifactMetadata E modPath, loaderConfig = JNull\<rparr>)"

definition loadFailed :: "string \<Rightarrow> string option \<Rightarrow> int option \<Rightarrow> string \<Rightarrow> 'c world \<Rightarrow> (exn + bool) \<times> 'c world" where
  "loadFailed name inst pid reason w = (Inr False, record_edge name kLoading kError inst pid (Some reason) w)"

text \<open>What follows a committed load.\<close>

definition finishLoad :: "mgr_env \<Rightarrow> string \<Rightarrow> string option \<Rightarrow> int option \<Rightarrow> string \<Rightarrow> 'c world \<Rightarrow> 'c world" where
  "finishLoad E name inst pid authToken w =
     (let w = saveToken name authToken w;
          w = notifyCapabilityModule E name authToken w;
          w = refreshDerivedRestrictionsForDependenciesOf E name w;
          w = record_edge name kLoading kLoaded inst pid None w;
          w = (if name = kModulesState then enableModulesStateFeed E w else w)
      in armReadinessWatch E name inst pid w)"

text \<open>The verdict of the loader, and the commit.\<close>

definition settleLoad ::
  "mgr_env \<Rightarrow> string \<Rightarrow> nat \<Rightarrow> 'c ModuleLoader \<Rightarrow> LoadedModuleHandle \<Rightarrow> string option \<Rightarrow> int option \<Rightarrow> string \<Rightarrow>
   'c world \<Rightarrow> (exn + bool) \<times> 'c world" where
  "settleLoad E name ld l h inst pid authToken w =
     (let (outcome, ds, c) = l_awaitLoad l name (if hostStaysSilent w then kSilentHostGrace else kLoadVerdictTimeout) (w_containers w);
          w = handleDeaths E ds (w\<lparr>w_containers := c\<rparr>) in
      if verdict outcome = VerdictFailed then
        (let (ds, c) = l_terminate l name (w_containers w); w = handleDeaths E ds (w\<lparr>w_containers := c\<rparr>)
         in loadFailed name inst pid (lo_reason outcome) (abandonLoadAttempt name w))
      else
        let w = (if verdict outcome = VerdictUnknown then w\<lparr>hostStaysSilent := True\<rparr> else w);
            (committed, w) = commitLoad (e_now E) name ld h w in
        if \<not> committed then loadFailed name inst pid ''the module process exited while it was loading'' w
        else (Inr True, finishLoad E name inst pid authToken w))"

text \<open>From the first call of the loader on.\<close>

definition attemptLoad ::
  "mgr_env \<Rightarrow> string \<Rightarrow> nat \<Rightarrow> 'c ModuleLoader \<Rightarrow> ModuleDescriptor \<Rightarrow> string option \<Rightarrow> 'c world \<Rightarrow> (exn + bool) \<times> 'c world" where
  "attemptLoad E name ld l desc inst w =
     (let w = beginLoadAttempt name w;
          (started, ds, c) = l_load l desc (w_containers w);
          w = handleDeaths E ds (w\<lparr>w_containers := c\<rparr>) in
      case started of
        LaunchThrew x \<Rightarrow> (Inl x, w)
      | NotLaunched \<Rightarrow> loadFailed name inst None ''loader failed to start the module'' (abandonLoadAttempt name w)
      | Launched h \<Rightarrow>
          (let pid = (if 0 \<le> h_pid h then Some (h_pid h) else None);
               authToken = e_uuid E (minted w);
               w = w\<lparr>minted := Suc (minted w)\<rparr>;
               (sent, ds, c) = l_sendToken l name authToken (w_containers w);
               w = handleDeaths E ds (w\<lparr>w_containers := c\<rparr>) in
           if \<not> sent then
             (let w = markExitExpected name w;
                  (ds, c) = l_terminate l name (w_containers w);
                  w = handleDeaths E ds (w\<lparr>w_containers := c\<rparr>);
                  w = snd (consumeExpectedExit name w)
              in loadFailed name inst pid (''failed to deliver the module'' @ CHR 0x27 # ''s auth token'') (abandonLoadAttempt name w))
           else settleLoad E name ld l h inst pid authToken w))"

definition loadModuleInternal :: "mgr_env \<Rightarrow> string \<Rightarrow> 'c world \<Rightarrow> (exn + bool) \<times> 'c world" where
  "loadModuleInternal E name w =
     (if \<not> isKnown (w_registry w) name then (Inr False, w)
      else if isLoaded (w_registry w) name then (Inr True, w)
      else case containerPolicyMismatch (containerPolicyValue w) name (moduleFormatOf name w) of
        Some mismatch \<Rightarrow> (Inr False, record_edge name kUnloaded kError None None (Some mismatch) w)
      | None \<Rightarrow>
          (let desc = buildDescriptor E name w;
               inst = fst (resolvePersistence E name w);
               w = record_edge name kUnloaded kLoading inst None None w;
               stamp = protocolStamp (d_rawMetadata desc);
               gate = evaluateProtocolGate stamp (e_hostMajor E);
               depGate = dependencyGateFor E name w in
           if pgDecision gate = PgRefuse then
             loadFailed name inst None (''incompatible logos-protocol major: module '' @ stamp) w
           else if dgDecision depGate = DgRefuse then loadFailed name inst None (dgReason depGate) w
           else case select (w_loaders w) desc of
             Inl x \<Rightarrow> (Inl x, w)
           | Inr None \<Rightarrow> loadFailed name inst None ''no loader available for this module format'' w
           | Inr (Some ld) \<Rightarrow> attemptLoad E name ld (w_loaders w ! ld) desc inst w))"

section \<open>Unloading one module\<close>

definition finishUnload :: "mgr_env \<Rightarrow> string \<Rightarrow> 'c world \<Rightarrow> bool \<times> 'c world" where
  "finishUnload E name w =
     (let w = w\<lparr>w_registry := markUnloaded name (w_registry w), w_supervisor := forget name (w_supervisor w)\<rparr>;
          w = refreshDerivedRestrictionsForDependenciesOf E name w;
          (marked, w) = consumeExpectedExit name w;
          w = (if marked then record_edge name kStopping kUnloaded None None None w else w)
      in (True, if name = kModulesState then disableModulesStateFeed w else w))"

definition unloadModuleInternal :: "mgr_env \<Rightarrow> string \<Rightarrow> 'c world \<Rightarrow> bool \<times> 'c world" where
  "unloadModuleInternal E name w =
     (if \<not> isLoaded (w_registry w) name then (False, w)
      else let w = record_edge name kLoaded kStopping None None None w in
        case loaderFor (w_registry w) name of
          Some ld \<Rightarrow>
            (let l = w_loaders w ! ld in
             if \<not> l_hasModule l name (w_containers w)
             then (False, record_edge name kStopping kLoaded None None (Some ''no module entry found; teardown not started'') w)
             else let w = markExitExpected name w;
                 (ds, c) = l_terminate l name (w_containers w)
               in finishUnload E name (handleDeaths E ds (w\<lparr>w_containers := c\<rparr>)))
        | None \<Rightarrow>
            (let w = markExitExpected name w;
                 (found, ds, c) = loaders_terminate (w_loaders w) name (w_containers w);
                 w = handleDeaths E ds (w\<lparr>w_containers := c\<rparr>) in
             if \<not> found
             then (False, record_edge name kStopping kLoaded None None (Some ''no live module entry; teardown not started'')
                (snd (consumeExpectedExit name w)))
             else finishUnload E name w))"

section \<open>The public functions\<close>

text \<open>\<open>ScopedLoadEntry\<close> and \<open>ScopedModuleStateFlush\<close> around a body; a body that does not return is \<open>None\<close>.\<close>

definition refuseReentrantLoad :: "string \<Rightarrow> 'c world \<Rightarrow> exn + bool" where
  "refuseReentrantLoad name w = Inr (isLoaded (w_registry w) name)"

definition withEntry :: "mgr_env \<Rightarrow> 'r \<Rightarrow> ('c world \<Rightarrow> ('r \<times> 'c world) option) \<Rightarrow> 'c world \<Rightarrow> ('r \<times> 'c world) option" where
  "withEntry E refused body w =
     (if insideLoad w then Some (refused, flushFeed E w)
      else case body (w\<lparr>insideLoad := True\<rparr>) of
        None \<Rightarrow> None
      | Some (r, w) \<Rightarrow> Some (r, flushFeed E (w\<lparr>insideLoad := False\<rparr>)))"

definition forgetDeaths :: "string \<Rightarrow> 'c world \<Rightarrow> 'c world" where
  "forgetDeaths name w = w\<lparr>w_supervisor := forget name (w_supervisor w)\<rparr>"

definition mgr_loadModule :: "mgr_env \<Rightarrow> string \<Rightarrow> 'c world \<Rightarrow> ((exn + bool) \<times> 'c world) option" where
  "mgr_loadModule E name w =
     (let w = forgetDeaths name w in
      withEntry E (refuseReentrantLoad name w) (\<lambda>w. Some (loadModuleInternal E name w)) w)"

definition restartModule :: "mgr_env \<Rightarrow> string \<Rightarrow> 'c world \<Rightarrow> ((exn + bool) \<times> 'c world) option" where
  "restartModule E name w = withEntry E (refuseReentrantLoad name w) (\<lambda>w. Some (loadModuleInternal E name w)) w"

text \<open>The closure handed to the restart scheduler, when its time has come.\<close>

definition scheduledRestart :: "mgr_env \<Rightarrow> string \<Rightarrow> 'c world \<Rightarrow> 'c world" where
  "scheduledRestart E name w =
     (if \<not> isKnown (w_registry w) name then w
      else case restartModule E name w of None \<Rightarrow> w | Some (_, w') \<Rightarrow> w')"

text \<open>The modules of an order one after the other; only a failure outside \<open>tolerated\<close> shows in the result.\<close>

fun loadEach :: "mgr_env \<Rightarrow> (string \<Rightarrow> bool) \<Rightarrow> string list \<Rightarrow> 'c world \<Rightarrow> (exn + bool) \<times> 'c world" where
  "loadEach E tolerated [] w = (Inr True, w)"
| "loadEach E tolerated (n # ns) w =
     (case loadModuleInternal E n w of
        (Inl x, w) \<Rightarrow> (Inl x, w)
      | (Inr done', w) \<Rightarrow>
          (case loadEach E tolerated ns w of
             (Inl x, w) \<Rightarrow> (Inl x, w)
           | (Inr rest, w) \<Rightarrow> (Inr ((done' \<or> tolerated n) \<and> rest), w)))"

definition resolveFor :: "mgr_env \<Rightarrow> string list \<Rightarrow> OptionalLoad \<Rightarrow> 'c world \<Rightarrow> ResolveResult option" where
  "resolveFor E requested opt w =
     resolve (e_hash E) requested (isKnown (w_registry w)) (directDependencies (w_registry w))
       (Some (moduleOptionalDependencies (w_registry w))) opt"

definition mgr_loadModuleWithDependencies ::
  "mgr_env \<Rightarrow> string \<Rightarrow> OptionalLoad \<Rightarrow> 'c world \<Rightarrow> ((exn + bool) \<times> 'c world) option" where
  "mgr_loadModuleWithDependencies E name opt w =
     (let w = forgetDeaths name w in
      withEntry E (refuseReentrantLoad name w)
        (\<lambda>w. case resolveFor E [name] opt w of
           None \<Rightarrow> None
         | Some resolved \<Rightarrow> Some
             (if \<not> rr_ok resolved \<or> rr_order resolved = [] \<or> name \<notin> set (rr_order resolved) then (Inr False, w)
              else loadEach E (isBestEffort resolved) (rr_order resolved) w)) w)"

definition initializeModulesState :: "mgr_env \<Rightarrow> 'c world \<Rightarrow> ((exn + bool) \<times> 'c world) option" where
  "initializeModulesState E w =
     withEntry E (refuseReentrantLoad kModulesState w)
       (\<lambda>w. Some (if \<not> isKnown (w_registry w) kModulesState then (Inr False, w)
                  else loadModuleInternal E kModulesState w)) w"

definition initializeCapabilityModule :: "mgr_env \<Rightarrow> 'c world \<Rightarrow> ((exn + bool) \<times> 'c world) option" where
  "initializeCapabilityModule E w =
     withEntry E (refuseReentrantLoad kCapabilityModule w)
       (\<lambda>w. Some (if \<not> isKnown (w_registry w) kCapabilityModule then (Inr False, w)
          else case loadModuleInternal E kCapabilityModule w of
            (Inr True, w) \<Rightarrow> (Inr True, runOnOwner E JobDerivedAll (pushAccessRestrictionsToCapabilityModule E w))
          | failed \<Rightarrow> failed)) w"

definition mgr_unloadModule :: "mgr_env \<Rightarrow> string \<Rightarrow> 'c world \<Rightarrow> (bool \<times> 'c world) option" where
  "mgr_unloadModule E name w = withEntry E False (\<lambda>w. Some (unloadModuleInternal E name w)) w"

text \<open>The order of a cascade: the target and its loaded dependents, leaves first.\<close>

definition teardownOrder :: "mgr_env \<Rightarrow> string \<Rightarrow> registry \<Rightarrow> string list option" where
  "teardownOrder E name r =
     (case moduleDependents r name True of
        None \<Rightarrow> None
      | Some ds \<Rightarrow>
          (let isloaded = loadedModuleNames (e_hash E) r;
               teardownSet = fold uset_insert (filter (\<lambda>d. d \<in> set isloaded) ds) [name] in
           case resolve (e_hash E) teardownSet (isKnown r) (directDependencies r) None OrderOnly of
             None \<Rightarrow> None
           | Some resolved \<Rightarrow> Some (fold uset_insert teardownSet
               (fold uset_insert (filter (\<lambda>n. n \<in> set teardownSet) (rev (rr_order resolved))) []))))"

fun unloadEach :: "mgr_env \<Rightarrow> string list \<Rightarrow> 'c world \<Rightarrow> bool \<times> 'c world" where
  "unloadEach E [] w = (True, w)"
| "unloadEach E (n # ns) w =
     (if \<not> isLoaded (w_registry w) n then unloadEach E ns w
      else let (gone, w) = unloadModuleInternal E n w; (rest, w) = unloadEach E ns w in (gone \<and> rest, w))"

definition mgr_unloadModuleWithDependents :: "mgr_env \<Rightarrow> string \<Rightarrow> 'c world \<Rightarrow> (bool \<times> 'c world) option" where
  "mgr_unloadModuleWithDependents E name w =
     withEntry E False
       (\<lambda>w. if \<not> isLoaded (w_registry w) name then Some (False, w)
            else case teardownOrder E name (w_registry w) of
              None \<Rightarrow> None
            | Some order \<Rightarrow> Some (unloadEach E order w)) w"

definition teardownFleet :: "mgr_env \<Rightarrow> 'c world \<Rightarrow> 'c world" where
  "teardownFleet E w =
     (let w = markAllLoadedExitsExpected E w;
          (ds, c) = loaders_terminateAll (w_loaders w) (w_containers w);
          w = handleDeaths E ds (w\<lparr>w_containers := c\<rparr>)
      in clearExpectedExits w)"

definition mgr_terminateAll :: "mgr_env \<Rightarrow> 'c world \<Rightarrow> (unit \<times> 'c world) option" where
  "mgr_terminateAll E w =
     withEntry E () (\<lambda>w. let w = teardownFleet E w in Some ((), w\<lparr>w_registry := clearLoaded (w_registry w)\<rparr>)) w"

definition mgr_clear :: "mgr_env \<Rightarrow> 'c world \<Rightarrow> (unit \<times> 'c world) option" where
  "mgr_clear E w =
     withEntry E () (\<lambda>w. let w = teardownFleet E w in
       Some ((), w\<lparr>w_registry := clearRegistry (w_registry w), moduleTransportsMap := [], accessPolicyJson := [],
         parsedEnforcePolicy := None, hostStaysSilent := False, w_supervisor := clearDeaths (w_supervisor w)\<rparr>)) w"

section \<open>Configuration\<close>

definition mgr_setModulesDir :: "string \<Rightarrow> 'c world \<Rightarrow> 'c world" where
  "mgr_setModulesDir dir w = w\<lparr>w_registry := setModulesDir dir (w_registry w)\<rparr>"

definition mgr_addModulesDir :: "string \<Rightarrow> 'c world \<Rightarrow> 'c world" where
  "mgr_addModulesDir dir w = w\<lparr>w_registry := addModulesDir dir (w_registry w)\<rparr>"

definition setPersistenceBasePath :: "string \<Rightarrow> 'c world \<Rightarrow> 'c world" where
  "setPersistenceBasePath p w = w\<lparr>persistenceBasePath := p\<rparr>"

definition setModuleTransports :: "string \<Rightarrow> string \<Rightarrow> 'c world \<Rightarrow> 'c world" where
  "setModuleTransports name transports w =
     w\<lparr>moduleTransportsMap := (if transports = [] then AList.delete name (moduleTransportsMap w)
        else AList.update name transports (moduleTransportsMap w))\<rparr>"

text \<open>An ill-typed policy throws after the old one is gone.\<close>

definition setAccessPolicy :: "mgr_env \<Rightarrow> string \<Rightarrow> 'c world \<Rightarrow> (exn + unit) \<times> 'c world" where
  "setAccessPolicy E policyJson w =
     (let w = w\<lparr>accessPolicyJson := policyJson, parsedEnforcePolicy := None\<rparr> in
      if policyJson = [] then (Inr (), w)
      else case parseAccessPolicy (e_parse E) policyJson of
        Inl x \<Rightarrow> (Inl x, w)
      | Inr None \<Rightarrow> (Inr (), w)
      | Inr (Some parsed) \<Rightarrow> (Inr (), if enforce parsed then w\<lparr>parsedEnforcePolicy := Some parsed\<rparr> else w))"

definition setContainerPolicy :: "string \<Rightarrow> 'c world \<Rightarrow> bool \<times> 'c world" where
  "setContainerPolicy p w =
     (let wanted = (if p = [] then ''auto'' else p) in
      if wanted \<notin> {''auto'', ''inproc'', ''subprocess'', ''web''} then (False, w)
      else (True, w\<lparr>containerPolicyValue := wanted\<rparr>))"

definition mgr_discoverInstalledModules ::
  "mgr_env \<Rightarrow> (string \<Rightarrow> PluginMetadata option) \<Rightarrow> (string list \<Rightarrow> InstalledPackage list) \<Rightarrow> 'c world \<Rightarrow> 'c world" where
  "mgr_discoverInstalledModules E meta scan w =
     (let (r, ob) = discoverInstalledModules (e_hash E) meta (e_dump E) scan (w_registry w, w_observer w)
      in deliverSince E (w_observer w) (w\<lparr>w_registry := r, w_observer := ob\<rparr>))"

definition mgr_processModule ::
  "mgr_env \<Rightarrow> (string \<Rightarrow> PluginMetadata option) \<Rightarrow> string \<Rightarrow> 'c world \<Rightarrow> string option \<times> 'c world" where
  "mgr_processModule E meta p w =
     (let (name, r, ob) = processModule (e_hash E) meta p (w_registry w, w_observer w)
      in (if name = [] then None else Some name, deliverSince E (w_observer w) (w\<lparr>w_registry := r, w_observer := ob\<rparr>)))"

definition mgr_addEmbeddedBareModule ::
  "mgr_env \<Rightarrow> (string \<Rightarrow> bool) \<Rightarrow> string \<Rightarrow> string \<Rightarrow> 'c world \<Rightarrow> (exn + string option) \<times> 'c world" where
  "mgr_addEmbeddedBareModule E isFile metadata img w =
     (let (res, r, ob) = addEmbeddedBareModule (e_hash E) (e_parse E) (e_dump E) isFile metadata img (w_registry w, w_observer w)
      in (case res of Inl x \<Rightarrow> Inl x | Inr name \<Rightarrow> Inr (if name = [] then None else Some name),
          deliverSince E (w_observer w) (w\<lparr>w_registry := r, w_observer := ob\<rparr>)))"

section \<open>Queries\<close>

definition resolveDependencies :: "mgr_env \<Rightarrow> string list \<Rightarrow> 'c world \<Rightarrow> string list option" where
  "resolveDependencies E requested w = map_option rr_order (resolveFor E requested OrderOnly w)"

definition resolveDependenciesBestEffort :: "mgr_env \<Rightarrow> string list \<Rightarrow> 'c world \<Rightarrow> ResolveResult option" where
  "resolveDependenciesBestEffort E requested w = resolveFor E requested BestEffort w"

definition optionalLoadEntry :: "SkippedOptional \<Rightarrow> json" where
  "optionalLoadEntry s = JObject
     ((if sk_detail s = [] then [] else [(''missing'', JString (sk_detail s))])
      @ [(''module'', JString (sk_module s)), (''named_by'', JString (namedBy s)), (''reason'', JString (sk_reason s))])"

definition optionalLoadReportJson :: "mgr_env \<Rightarrow> string \<Rightarrow> 'c world \<Rightarrow> string option" where
  "optionalLoadReportJson E name w =
     map_option (\<lambda>r. e_dump E (JArray (map optionalLoadEntry (skippedOptional r))))
       (resolveDependenciesBestEffort E [name] w)"

definition getDependencies :: "string \<Rightarrow> bool \<Rightarrow> 'c world \<Rightarrow> string list option" where
  "getDependencies name recursive w =
     map_option (filter (isKnown (w_registry w))) (moduleDependencies (w_registry w) name recursive)"

definition getOptionalDependencies :: "string \<Rightarrow> 'c world \<Rightarrow> string list" where
  "getOptionalDependencies name w = filter (isKnown (w_registry w)) (moduleOptionalDependencies (w_registry w) name)"

definition getDependents :: "string \<Rightarrow> bool \<Rightarrow> 'c world \<Rightarrow> string list option" where
  "getDependents name recursive w = moduleDependents (w_registry w) name recursive"

definition getModulesInfoJson :: "mgr_env \<Rightarrow> 'c world \<Rightarrow> string" where
  "getModulesInfoJson E w = e_dump E (allModulesInfo (e_hash E) (e_parse E) (w_registry w))"

definition getModuleProcessIds :: "'c world \<Rightarrow> int umap" where
  "getModuleProcessIds w = getAllPids (w_loaders w) (w_containers w)"

definition getModuleResourceUsage :: "'c world \<Rightarrow> ModuleResourceUsage umap" where
  "getModuleResourceUsage w = getAllResourceUsage (w_loaders w) (w_containers w)"

definition buildSnapshotListingJson :: "mgr_env \<Rightarrow> 'c world \<Rightarrow> string \<times> 'c world" where
  "buildSnapshotListingJson E w = (let (j, w) = buildSnapshotListing E w in (e_dump E j, w))"

end
