(* ===== verification/ManagerFrames.thy ===== *)
theory ManagerFrames
  imports ModuleManager
begin

text \<open>
  What the operations of the manager leave alone. The calls that go out to \<open>capability_module\<close> and
  \<open>modules_state\<close> change only the log of calls and the owner's queue; a flush of the feed changes only
  what is still buffered; a death inside a load attempt changes only the attempt and the registry.
\<close>

section \<open>Calls that go out\<close>

text \<open>The world without what goes out.\<close>

definition inward :: "'c world \<Rightarrow> 'c world" where
  "inward w = w\<lparr>rpcs := [], ownerQueue := []\<rparr>"

lemma inward_fields:
  assumes "inward w' = inward w"
  shows "w_registry w' = w_registry w" "w_observer w' = w_observer w" "w_supervisor w' = w_supervisor w"
    "w_loaders w' = w_loaders w" "w_containers w' = w_containers w" "inFlightLoads w' = inFlightLoads w"
    "expectedExits w' = expectedExits w" "hostStaysSilent w' = hostStaysSilent w"
    "containerPolicyValue w' = containerPolicyValue w" "persistenceBasePath w' = persistenceBasePath w"
    "moduleTransportsMap w' = moduleTransportsMap w" "accessPolicyJson w' = accessPolicyJson w"
    "parsedEnforcePolicy w' = parsedEnforcePolicy w" "tokens w' = tokens w" "minted w' = minted w"
    "scheduledRestarts w' = scheduledRestarts w" "insideLoad w' = insideLoad w"
  using assms by (cases w; cases w'; simp add: inward_def)+

lemma inward_fold: "(\<And>x w. inward (f x w) = inward w) \<Longrightarrow> inward (fold f xs w) = inward w"
  by (induction xs arbitrary: w) simp_all

lemma inward_call [simp]: "inward (call_rpc c w) = inward w"
  by (simp add: call_rpc_def inward_def)

lemma inward_derived [simp]: "inward (pushDerivedRestrictionForTarget n w) = inward w"
  by (simp add: pushDerivedRestrictionForTarget_def registerRestrictionRpc_def Let_def)

lemma inward_runJob [simp]: "inward (runJob E job w) = inward w"
  by (cases job) (simp_all add: runJob_def registerRestrictionRpc_def Let_def inward_fold)

lemma inward_runOnOwner [simp]: "inward (runOnOwner E job w) = inward w"
  by (simp add: runOnOwner_def) (simp add: inward_def)

lemma inward_serveOwner [simp]: "inward (serveOwner E w) = inward w"
  by (simp add: serveOwner_def split: list.split) (simp add: inward_def)

lemma inward_outgoing [simp]:
  "inward (pushAccessRestrictionsToCapabilityModule E w) = inward w"
  "inward (refreshDerivedRestrictionsForDependenciesOf E n w) = inward w"
  "inward (notifyCapabilityModule E n t w) = inward w"
  "inward (pushTransitions E batch w) = inward w"
  by (simp_all add: pushAccessRestrictionsToCapabilityModule_def refreshDerivedRestrictionsForDependenciesOf_def
      notifyCapabilityModule_def pushTransitions_def split: option.split)

lemma inward_deliverSince [simp]: "inward (deliverSince E ob w) = inward w"
  unfolding deliverSince_def by (rule inward_fold) auto

lemmas outgoing_frames [simp] =
  inward_outgoing [THEN inward_fields(1)] inward_outgoing [THEN inward_fields(2)] inward_outgoing [THEN inward_fields(3)]
  inward_outgoing [THEN inward_fields(4)] inward_outgoing [THEN inward_fields(5)] inward_outgoing [THEN inward_fields(6)]
  inward_outgoing [THEN inward_fields(7)] inward_outgoing [THEN inward_fields(8)] inward_outgoing [THEN inward_fields(13)]
  inward_outgoing [THEN inward_fields(16)] inward_outgoing [THEN inward_fields(17)]

lemmas owner_frames [simp] =
  inward_fields [OF inward_runOnOwner] inward_fields [OF inward_serveOwner] inward_fields [OF inward_deliverSince]

section \<open>Flushing\<close>

lemma flushFeed_frames [simp]:
  "w_registry (flushFeed E w) = w_registry w" "w_supervisor (flushFeed E w) = w_supervisor w"
  "w_loaders (flushFeed E w) = w_loaders w" "w_containers (flushFeed E w) = w_containers w"
  "inFlightLoads (flushFeed E w) = inFlightLoads w" "expectedExits (flushFeed E w) = expectedExits w"
  "hostStaysSilent (flushFeed E w) = hostStaysSilent w" "insideLoad (flushFeed E w) = insideLoad w"
  "parsedEnforcePolicy (flushFeed E w) = parsedEnforcePolicy w"
  "scheduledRestarts (flushFeed E w) = scheduledRestarts w"
  "w_observer (flushFeed E w) = flush (w_observer w)"
  by (simp_all add: flushFeed_def)

definition world_feed :: "'c world \<Rightarrow> (string \<times> string \<times> string) list" where
  "world_feed w = map (\<lambda>t. (t_module t, oldState t, newState t)) (feed (w_observer w))"

definition listening :: "'c world \<Rightarrow> bool" where
  "listening w \<longleftrightarrow> hasSink (w_observer w)"

lemma flush_world [simp]: "world_feed (flushFeed E w) = world_feed w" "listening (flushFeed E w) = listening w"
  by (simp_all add: world_feed_def listening_def frame_simps hasSink_def step_sink)

lemma states_not_Nil [simp]:
  "kAbsent \<noteq> []" "kUnloaded \<noteq> []" "kLoading \<noteq> []" "kLoaded \<noteq> []" "kReady \<noteq> []" "kStopping \<noteq> []" "kError \<noteq> []"
  by (simp_all add: module_states)

lemma states_distinct [simp]:
  "distinct [kAbsent, kUnloaded, kLoading, kLoaded, kReady, kStopping, kError]"
  by (simp add: module_states)

lemma states_distinct_rev:
  "distinct [kError, kStopping, kReady, kLoaded, kLoading, kUnloaded, kAbsent]"
  by (simp add: module_states)

lemmas state_neqs_rev [simp] = states_distinct_rev [unfolded distinct.simps list.set insert_iff empty_iff de_Morgan_disj simp_thms]
lemmas state_neqs [simp] = states_distinct [unfolded distinct.simps list.set insert_iff empty_iff de_Morgan_disj simp_thms]

lemma record_edge_frames [simp]:
  "w_registry (record_edge n a b i p r w) = w_registry w" "w_supervisor (record_edge n a b i p r w) = w_supervisor w"
  "w_loaders (record_edge n a b i p r w) = w_loaders w" "w_containers (record_edge n a b i p r w) = w_containers w"
  "inFlightLoads (record_edge n a b i p r w) = inFlightLoads w" "expectedExits (record_edge n a b i p r w) = expectedExits w"
  "hostStaysSilent (record_edge n a b i p r w) = hostStaysSilent w" "insideLoad (record_edge n a b i p r w) = insideLoad w"
  "containerPolicyValue (record_edge n a b i p r w) = containerPolicyValue w"
  "persistenceBasePath (record_edge n a b i p r w) = persistenceBasePath w"
  "moduleTransportsMap (record_edge n a b i p r w) = moduleTransportsMap w"
  "parsedEnforcePolicy (record_edge n a b i p r w) = parsedEnforcePolicy w"
  "minted (record_edge n a b i p r w) = minted w"
  "scheduledRestarts (record_edge n a b i p r w) = scheduledRestarts w"
  "listening (record_edge n a b i p r w) = listening w"
  by (simp_all add: record_edge_def listening_def hasSink_def step_sink)

lemma world_feed_record:
  "world_feed (record_edge n a b i p r w) = world_feed w @
     (if n = [] \<or> a = [] \<or> b = [] \<or> a = b \<or> \<not> listening w then [] else [(n, a, b)])"
  by (simp add: record_edge_def world_feed_def listening_def hasSink_def feed_record)

lemma world_feed_cong: "feed (w_observer w') = feed (w_observer w) \<Longrightarrow> world_feed w' = world_feed w"
  by (simp add: world_feed_def)

lemma feed_field_updates [simp]:
  "world_feed (w\<lparr>w_registry := a\<rparr>) = world_feed w" "world_feed (w\<lparr>w_containers := c\<rparr>) = world_feed w"
  "world_feed (w\<lparr>inFlightLoads := m\<rparr>) = world_feed w" "world_feed (w\<lparr>expectedExits := x\<rparr>) = world_feed w"
  "world_feed (w\<lparr>hostStaysSilent := b\<rparr>) = world_feed w" "world_feed (w\<lparr>minted := k\<rparr>) = world_feed w"
  "world_feed (w\<lparr>w_supervisor := s\<rparr>) = world_feed w" "world_feed (w\<lparr>insideLoad := b\<rparr>) = world_feed w"
  "world_feed (w\<lparr>scheduledRestarts := l\<rparr>) = world_feed w" "world_feed (w\<lparr>tokens := t\<rparr>) = world_feed w"
  "listening (w\<lparr>w_registry := a\<rparr>) = listening w" "listening (w\<lparr>w_containers := c\<rparr>) = listening w"
  "listening (w\<lparr>inFlightLoads := m\<rparr>) = listening w" "listening (w\<lparr>expectedExits := x\<rparr>) = listening w"
  "listening (w\<lparr>hostStaysSilent := b\<rparr>) = listening w" "listening (w\<lparr>minted := k\<rparr>) = listening w"
  "listening (w\<lparr>w_supervisor := s\<rparr>) = listening w" "listening (w\<lparr>insideLoad := b\<rparr>) = listening w"
  "listening (w\<lparr>scheduledRestarts := l\<rparr>) = listening w" "listening (w\<lparr>tokens := t\<rparr>) = listening w"
  by (simp_all add: world_feed_def listening_def)

lemma inward_feed:
  "inward w' = inward w \<Longrightarrow> world_feed w' = world_feed w"
  "inward w' = inward w \<Longrightarrow> listening w' = listening w"
  using inward_fields(2) [of w' w] by (simp_all add: world_feed_def listening_def)

lemmas outgoing_feed [simp] =
  inward_outgoing [THEN inward_feed(1)] inward_outgoing [THEN inward_feed(2)]
  inward_feed [OF inward_runOnOwner] inward_feed [OF inward_serveOwner] inward_feed [OF inward_deliverSince]

section \<open>Announced exits and attempts\<close>

lemma mark_frames [simp]:
  "w_registry (markExitExpected n w) = w_registry w" "w_observer (markExitExpected n w) = w_observer w"
  "w_loaders (markExitExpected n w) = w_loaders w" "w_containers (markExitExpected n w) = w_containers w"
  "w_supervisor (markExitExpected n w) = w_supervisor w"
  "inFlightLoads (markExitExpected n w) = inFlightLoads w" "insideLoad (markExitExpected n w) = insideLoad w"
  "hostStaysSilent (markExitExpected n w) = hostStaysSilent w" "scheduledRestarts (markExitExpected n w) = scheduledRestarts w"
  "set (expectedExits (markExitExpected n w)) = insert n (set (expectedExits w))"
  "w_registry (snd (consumeExpectedExit n w)) = w_registry w" "w_observer (snd (consumeExpectedExit n w)) = w_observer w"
  "w_loaders (snd (consumeExpectedExit n w)) = w_loaders w" "w_containers (snd (consumeExpectedExit n w)) = w_containers w"
  "w_supervisor (snd (consumeExpectedExit n w)) = w_supervisor w"
  "inFlightLoads (snd (consumeExpectedExit n w)) = inFlightLoads w" "insideLoad (snd (consumeExpectedExit n w)) = insideLoad w"
  "hostStaysSilent (snd (consumeExpectedExit n w)) = hostStaysSilent w" "scheduledRestarts (snd (consumeExpectedExit n w)) = scheduledRestarts w"
  "expectedExits (snd (consumeExpectedExit n w)) = removeAll n (expectedExits w)"
  "fst (consumeExpectedExit n w) \<longleftrightarrow> n \<in> set (expectedExits w)"
  by (simp_all add: markExitExpected_def consumeExpectedExit_def)

lemma mark_feed [simp]:
  "world_feed (markExitExpected n w) = world_feed w" "listening (markExitExpected n w) = listening w"
  "world_feed (snd (consumeExpectedExit n w)) = world_feed w" "listening (snd (consumeExpectedExit n w)) = listening w"
  by (simp_all add: world_feed_def listening_def)

lemma isLoaded_markUnloaded [simp]: "isLoaded (markUnloaded n r) m \<longleftrightarrow> m \<noteq> n \<and> isLoaded r m"
  by (simp add: isLoaded_def markUnloaded_def lookup_simps split: option.split)

lemma loaderFor_markUnloaded [simp]: "loaderFor (markUnloaded n r) m = loaderFor r m"
  by (simp add: loaderFor_def markUnloaded_def lookup_simps split: option.split)

lemma isLoaded_markLoadedBy [simp]: "isLoaded (markLoadedBy now n ld h r) m \<longleftrightarrow> m = n \<or> isLoaded r m"
  by (simp add: isLoaded_def markLoadedBy_def lookup_simps stampLoaded_def split: option.split)

lemma loaderFor_markLoadedBy [simp]: "loaderFor (markLoadedBy now n ld h r) m = (if m = n then ld else loaderFor r m)"
  by (simp add: loaderFor_def markLoadedBy_def lookup_simps stampLoaded_def split: option.split)

lemma known_if_loaded: "isLoaded r n \<Longrightarrow> isKnown r n"
  by (simp add: isLoaded_def isKnown_find split: option.splits)

lemma markUnloaded_idem [simp]: "markUnloaded n (markUnloaded n r) = markUnloaded n r"
  by (auto simp: markUnloaded_def adjust_def umap_adjust_def intro!: arg_cong [where f = "\<lambda>m. r\<lparr>m_modules := m\<rparr>"])

text \<open>A death announced while its load is in flight belongs to the load: the feed and the marks stay.\<close>

definition diedInFlight :: "string \<Rightarrow> 'c world \<Rightarrow> 'c world" where
  "diedInFlight n w = w\<lparr>w_registry := markUnloaded n (w_registry w), inFlightLoads := AList.update n True (inFlightLoads w)\<rparr>"

lemma onTerminated_inFlight: "map_of (inFlightLoads w) n \<noteq> None \<Longrightarrow> onTerminated E n w = diedInFlight n w"
  by (auto simp: onTerminated_def recordTerminationDuringLoad_def diedInFlight_def Let_def)

lemma update_idem: "AList.update k v (AList.update k v m) = AList.update k v m"
  by (induction m) auto

lemma diedInFlight_idem: "diedInFlight n (diedInFlight n w) = diedInFlight n w"
  by (simp add: diedInFlight_def update_idem)

lemma handleDeaths_inFlight:
  assumes "map_of (inFlightLoads w) n \<noteq> None" and "set ds \<subseteq> {n}"
  shows "handleDeaths E ds w = (if ds = [] then w else diedInFlight n w)"
proof -
  have *: "fold (onTerminated E) ds (diedInFlight n w) = diedInFlight n w" if "set ds \<subseteq> {n}" for ds
    using that
  proof (induction ds)
    case (Cons d ds)
    have "map_of (inFlightLoads (diedInFlight n w)) n \<noteq> None" by (simp add: diedInFlight_def)
    from onTerminated_inFlight [OF this] Cons.prems have "onTerminated E d (diedInFlight n w) = diedInFlight n w"
      by (simp add: diedInFlight_idem)
    then show ?case using Cons by simp
  qed simp
  show ?thesis
    using assms onTerminated_inFlight [of w n E] *
    by (cases ds) (auto simp: handleDeaths_def)
qed

end
