(* ===== verification/ManagerSample.thy ===== *)
theory ManagerSample
  imports ModuleManager
begin

text \<open>
  The loader table of a host with the Native container alone keeps the contract \<open>loader_fleet\<close>; and a
  small host on it, for the concrete instances of the manager's theorems: two Bare modules \<open>a\<close> and \<open>b\<close>
  are installed, \<open>b\<close> depends on \<open>a\<close>, and a consumer listens to the feed.
\<close>

section \<open>The Native container as a loader table\<close>

definition nativeLoaders :: "inproc_env \<Rightarrow> inproc loaders" where
  "nativeLoaders E = [compositeModuleLoader (inprocContainer E) (bareModuleFormatLoader ''bare'')]"

interpretation native: loader_fleet "nativeLoaders E" "inproc_names_ok E" for E
  by (rule loader_fleet.intro) (simp_all add: nativeLoaders_def inproc.runner.module_runner_axioms)

section \<open>A small host\<close>

definition sampleMgr :: mgr_env where
  "sampleMgr = \<lparr>e_hash = (\<lambda>xs. xs), e_hostMajor = 1, e_extractMetadata = (\<lambda>_. None), e_parse = (\<lambda>_. None), e_dump = (\<lambda>_. []),
     e_resolveInstance = (\<lambda>_ _. ([], [])), e_validRange = (\<lambda>_. True), e_satisfies = (\<lambda>_ _. True), e_now = 5, e_steady = 7,
     e_uuid = (\<lambda>_. ''t''), e_onOwner = True\<rparr>"

definition sampleRegistry :: registry where
  "sampleRegistry = registerDependencies (\<lambda>xs. xs) ''b'' [''a''] (fst (sample_scan [''a'', ''b'']))"

definition sampleWorld :: "inproc world" where
  "sampleWorld = (newWorld (nativeLoaders sample_env) (setHostApi True emptyInproc))
     \<lparr>w_registry := sampleRegistry, w_observer := setSink (Some 1) new_observer\<rparr>"

end
