(* ===== verification/ManagerLoad.thy ===== *)
theory ManagerLoad
  imports ManagerFrames ManagerSample
begin

text \<open>
  What a load does (\<open>loadModuleInternal\<close>, \<open>module_manager.cpp\<close> 872-1180), on a loader table that keeps
  the contract \<open>loader_fleet\<close>. \<open>fleet_inv\<close> is the state between two operations: no announced exit is
  outstanding, an attempt is registered only for a module that is not loaded, and a module a container
  runs is marked loaded, under the loader that runs it. \<open>attempt_inv\<close> is the state inside an attempt.
\<close>

section \<open>The part of the registry that a load leaves alone\<close>

definition graph_part :: "ModuleInfo \<Rightarrow> ModuleInfo" where
  "graph_part i = i\<lparr>loaded := False, loadedAt := 0, published := None, publishedAt := 0, epoch := 0,
     loader := None, handle := emptyHandle\<rparr>"

definition graph_of :: "registry \<Rightarrow> string \<Rightarrow> ModuleInfo option" where
  "graph_of r n = map_option graph_part (find_module r n)"

lemma graph_part_fields [simp]:
  "path (graph_part i) = path i" "version (graph_part i) = version i" "dependencies (graph_part i) = dependencies i"
  "dependents (graph_part i) = dependents i" "optionalDependencies (graph_part i) = optionalDependencies i"
  "optionalDependents (graph_part i) = optionalDependents i" "format (graph_part i) = format i"
  "metadataJson (graph_part i) = metadataJson i"
  by (simp_all add: graph_part_def)

lemma graph_part_life:
  "graph_part (i\<lparr>loaded := a, loadedAt := b, published := c, publishedAt := d\<rparr>) = graph_part i"
  "graph_part (i\<lparr>published := c\<rparr>) = graph_part i"
  "graph_part (stampLoaded now i\<lparr>loader := l, handle := h\<rparr>) = graph_part i"
  by (simp_all add: graph_part_def stampLoaded_def)

lemma graph_adjust: "(\<And>i. graph_part (f i) = graph_part i) \<Longrightarrow> graph_of (adjust n f r) = graph_of r"
  by (rule ext) (auto simp: graph_of_def lookup_simps option.map_comp comp_def)

lemma graph_markUnloaded [simp]: "graph_of (markUnloaded n r) = graph_of r"
  by (simp add: markUnloaded_def graph_adjust graph_part_life)

lemma graph_beginPublishWatch [simp]: "graph_of (beginPublishWatch n r) = graph_of r"
  by (simp add: beginPublishWatch_def graph_adjust graph_part_life)

lemma graph_markLoadedBy [simp]: "isKnown r n \<Longrightarrow> graph_of (markLoadedBy now n ld h r) = graph_of r"
  by (rule ext) (auto simp: graph_of_def markLoadedBy_def lookup_simps graph_part_life isKnown_find)

lemma graph_read:
  "(\<And>i. g (graph_part i) = g i) \<Longrightarrow>
   (case find_module r n of None \<Rightarrow> d | Some i \<Rightarrow> g i) = (case graph_of r n of None \<Rightarrow> d | Some i \<Rightarrow> g i)"
  by (simp add: graph_of_def split: option.split)

lemma graph_same:
  assumes "graph_of r' = graph_of r"
  shows "isKnown r' = isKnown r" "directDependencies r' = directDependencies r" "directDependents r' = directDependents r"
    "moduleOptionalDependencies r' = moduleOptionalDependencies r" "moduleOptionalDependents r' = moduleOptionalDependents r"
    "modulePath r' = modulePath r" "moduleVersion r' = moduleVersion r" "moduleFormat r' = moduleFormat r"
    "moduleDependencyEntries r' = moduleDependencyEntries r"
proof -
  have "isKnown r n \<longleftrightarrow> graph_of r n \<noteq> None" for r n by (simp add: graph_of_def isKnown_find)
  then show "isKnown r' = isKnown r" using assms by (simp add: fun_eq_iff)
  show e: "moduleDependencyEntries r' = moduleDependencyEntries r" "directDependents r' = directDependents r"
    "moduleOptionalDependents r' = moduleOptionalDependents r"
    "modulePath r' = modulePath r" "moduleVersion r' = moduleVersion r" "moduleFormat r' = moduleFormat r"
    by (simp_all add: fun_eq_iff moduleDependencyEntries_def directDependents_def moduleOptionalDependents_def modulePath_def
        moduleVersion_def moduleFormat_def graph_read assms)
  have "moduleOptionalDependencyEntries r' = moduleOptionalDependencyEntries r"
    by (simp add: fun_eq_iff moduleOptionalDependencyEntries_def graph_read assms)
  with e(1) show "directDependencies r' = directDependencies r"
    "moduleOptionalDependencies r' = moduleOptionalDependencies r"
    by (simp_all add: fun_eq_iff directDependencies_def moduleOptionalDependencies_def)
qed

section \<open>States\<close>

text \<open>Only \<open>name\<close> was moved, and the graph of the registry stays.\<close>

definition only_moves :: "string \<Rightarrow> 'c world \<Rightarrow> 'c world \<Rightarrow> bool" where
  "only_moves name w w' \<longleftrightarrow> graph_of (w_registry w') = graph_of (w_registry w)
     \<and> (\<forall>n. n \<noteq> name \<longrightarrow> isLoaded (w_registry w') n = isLoaded (w_registry w) n)"

lemma only_moves_refl [simp]: "only_moves name w w"
  by (simp add: only_moves_def)

lemma only_moves_trans: "only_moves name w w' \<Longrightarrow> only_moves name w' w'' \<Longrightarrow> only_moves name w w''"
  by (simp add: only_moves_def)

lemma isLoaded_beginPublishWatch [simp]: "isLoaded (beginPublishWatch n r) m = isLoaded r m"
  by (simp add: isLoaded_def beginPublishWatch_def lookup_simps split: option.split)

lemma loaderFor_beginPublishWatch [simp]: "loaderFor (beginPublishWatch n r) m = loaderFor r m"
  by (simp add: loaderFor_def beginPublishWatch_def lookup_simps split: option.split)

text \<open>A registry whose loaded modules name loaders of the table.\<close>

definition registry_fit :: "'c loaders \<Rightarrow> registry \<Rightarrow> bool" where
  "registry_fit ls r \<longleftrightarrow> registry_ok r \<and> (\<forall>n i. isLoaded r n \<longrightarrow> loaderFor r n = Some i \<longrightarrow> i < length ls)"

lemma registry_ok_life [simp]:
  "registry_ok (markUnloaded n r) = registry_ok r" "registry_ok (beginPublishWatch n r) = registry_ok r"
  "registry_ok r \<Longrightarrow> registry_ok (markLoadedBy now n ld h r)"
  by (simp_all add: markUnloaded_def beginPublishWatch_def markLoadedBy_def)

lemma registry_fit_simps [simp]:
  "registry_fit ls r \<Longrightarrow> registry_fit ls (markUnloaded n r)"
  "registry_fit ls r \<Longrightarrow> i < length ls \<Longrightarrow> registry_fit ls (markLoadedBy now n (Some i) h r)"
  "registry_fit ls (beginPublishWatch n r) = registry_fit ls r"
  by (auto simp: registry_fit_def)

definition fleet_inv :: "'c loaders \<Rightarrow> ('c \<Rightarrow> bool) \<Rightarrow> 'c world \<Rightarrow> bool" where
  "fleet_inv ls ok w \<longleftrightarrow> w_loaders w = ls \<and> ok (w_containers w) \<and> expectedExits w = []
     \<and> registry_fit ls (w_registry w) \<and> (\<forall>n. isLoaded (w_registry w) n \<longrightarrow> map_of (inFlightLoads w) n = None)
     \<and> (\<forall>i n. i < length ls \<longrightarrow> l_hasModule (ls ! i) n (w_containers w) \<longrightarrow>
          isLoaded (w_registry w) n \<and> loaderFor (w_registry w) n = Some i)"

definition attempt_inv :: "'c loaders \<Rightarrow> ('c \<Rightarrow> bool) \<Rightarrow> string \<Rightarrow> nat \<Rightarrow> 'c world \<Rightarrow> bool" where
  "attempt_inv ls ok name i w \<longleftrightarrow> w_loaders w = ls \<and> ok (w_containers w) \<and> expectedExits w = []
     \<and> map_of (inFlightLoads w) name \<noteq> None \<and> \<not> isLoaded (w_registry w) name
     \<and> registry_fit ls (w_registry w) \<and> (\<forall>n. isLoaded (w_registry w) n \<longrightarrow> map_of (inFlightLoads w) n = None)
     \<and> (\<forall>j n. j < length ls \<longrightarrow> l_hasModule (ls ! j) n (w_containers w) \<longrightarrow>
          (if n = name then j = i \<and> map_of (inFlightLoads w) name = Some False
           else isLoaded (w_registry w) n \<and> loaderFor (w_registry w) n = Some j))"

lemma attempt_has:
  assumes "attempt_inv ls ok name i w" and "j < length ls" and "l_hasModule (ls ! j) n (w_containers w)"
  shows "n = name \<Longrightarrow> j = i \<and> map_of (inFlightLoads w) name = Some False"
    and "n \<noteq> name \<Longrightarrow> isLoaded (w_registry w) n \<and> loaderFor (w_registry w) n = Some j"
  using assms unfolding attempt_inv_def by presburger+

lemma attempt_begin:
  "fleet_inv ls ok w \<Longrightarrow> \<not> isLoaded (w_registry w) name \<Longrightarrow> attempt_inv ls ok name i (beginLoadAttempt name w)"
  by (auto simp: fleet_inv_def attempt_inv_def beginLoadAttempt_def)

lemma attempt_abandon:
  "attempt_inv ls ok name i w \<Longrightarrow> i < length ls \<Longrightarrow> \<not> l_hasModule (ls ! i) name (w_containers w) \<Longrightarrow>
   fleet_inv ls ok (abandonLoadAttempt name w)"
  unfolding fleet_inv_def attempt_inv_def abandonLoadAttempt_def
  by (simp split: if_splits) (metis (full_types))

lemma diedInFlight_frames [simp]:
  "w_loaders (diedInFlight n w) = w_loaders w" "w_containers (diedInFlight n w) = w_containers w"
  "w_observer (diedInFlight n w) = w_observer w" "expectedExits (diedInFlight n w) = expectedExits w"
  "w_registry (diedInFlight n w) = markUnloaded n (w_registry w)" "hostStaysSilent (diedInFlight n w) = hostStaysSilent w"
  "inFlightLoads (diedInFlight n w) = AList.update n True (inFlightLoads w)" "minted (diedInFlight n w) = minted w"
  "insideLoad (diedInFlight n w) = insideLoad w" "world_feed (diedInFlight n w) = world_feed w"
  "listening (diedInFlight n w) = listening w"
  by (simp_all add: diedInFlight_def)

text \<open>A loader call inside an attempt and the deaths it announces: nothing but the attempt hears of them.\<close>

lemma attempt_call:
  assumes inv: "attempt_inv ls ok name i w" and i: "i < length ls" and ok: "ok c" and dead: "set ds \<subseteq> {name}"
    and self: "l_hasModule (ls ! i) name c \<Longrightarrow> ds = [] \<and> map_of (inFlightLoads w) name = Some False"
    and others: "\<And>j n. j < length ls \<Longrightarrow> n \<noteq> name \<or> j \<noteq> i \<Longrightarrow> l_hasModule (ls ! j) n c = l_hasModule (ls ! j) n (w_containers w)"
    and w': "w' = handleDeaths E ds (w\<lparr>w_containers := c\<rparr>)"
  shows "attempt_inv ls ok name i w'" and "only_moves name w w'"
    and "world_feed w' = world_feed w" and "listening w' = listening w" and "w_containers w' = c"
    and "insideLoad w' = insideLoad w"
proof -
  have flight: "map_of (inFlightLoads (w\<lparr>w_containers := c\<rparr>)) name \<noteq> None"
    using inv by (simp add: attempt_inv_def)
  have eq: "w' = (if ds = [] then w\<lparr>w_containers := c\<rparr> else diedInFlight name (w\<lparr>w_containers := c\<rparr>))"
    unfolding w' by (rule handleDeaths_inFlight [OF flight dead])
  have name: "j = i \<and> ds = [] \<and> map_of (inFlightLoads w) name = Some False"
    if "j < length ls" and "l_hasModule (ls ! j) name c" for j
  proof (cases "j = i")
    case True
    then show ?thesis using that self by blast
  next
    case False
    then have "l_hasModule (ls ! j) name (w_containers w)" using that others [OF that(1)] by blast
    then show ?thesis using attempt_has(1) [OF inv that(1)] False by blast
  qed
  have rest: "isLoaded (w_registry w) n \<and> loaderFor (w_registry w) n = Some j"
    if "j < length ls" and "l_hasModule (ls ! j) n c" and "n \<noteq> name" for j n
    using that others [of j n] attempt_has(2) [OF inv, of j n] by simp
  show "attempt_inv ls ok name i w'"
  proof (cases "ds = []")
    case True
    have "if n = name then j = i \<and> map_of (inFlightLoads w) name = Some False
        else isLoaded (w_registry w) n \<and> loaderFor (w_registry w) n = Some j"
      if "j < length ls" "l_hasModule (ls ! j) n c" for j n
      using name [OF that(1)] rest [OF that] that(2) by auto
    with True show ?thesis using inv ok by (simp add: eq attempt_inv_def)
  next
    case False
    then have "\<not> l_hasModule (ls ! j) name c" if "j < length ls" for j using name [OF that] by blast
    with rest False show ?thesis using inv ok by (fastforce simp: eq attempt_inv_def)
  qed
  show "only_moves name w w'" "world_feed w' = world_feed w" "listening w' = listening w" "w_containers w' = c"
    "insideLoad w' = insideLoad w"
    by (auto simp: eq only_moves_def)
qed

text \<open>What one call leaves behind, as one fact.\<close>

definition attempt_step :: "'c loaders \<Rightarrow> ('c \<Rightarrow> bool) \<Rightarrow> string \<Rightarrow> nat \<Rightarrow> 'c world \<Rightarrow> 'c world \<Rightarrow> bool" where
  "attempt_step ls ok name i w w' \<longleftrightarrow> attempt_inv ls ok name i w' \<and> only_moves name w w'
     \<and> world_feed w' = world_feed w \<and> listening w' = listening w \<and> insideLoad w' = insideLoad w"

lemma attempt_stepD:
  assumes "attempt_step ls ok name i w w'"
  shows "attempt_inv ls ok name i w'" "only_moves name w w'" "world_feed w' = world_feed w" "listening w' = listening w"
    "insideLoad w' = insideLoad w"
  using assms by (simp_all add: attempt_step_def)

lemma attempt_step_trans:
  "attempt_step ls ok name i w w' \<Longrightarrow> attempt_step ls ok name i w' w'' \<Longrightarrow> attempt_step ls ok name i w w''"
  unfolding attempt_step_def using only_moves_trans by metis

lemma attempt_ends:
  assumes "attempt_inv ls ok name i w" and "i < length ls"
    and "ends_only ok (l_hasModule (ls ! i)) name (w_containers w) ds c"
    and "\<And>j n. j < length ls \<Longrightarrow> j \<noteq> i \<Longrightarrow> l_hasModule (ls ! j) n c = l_hasModule (ls ! j) n (w_containers w)"
  shows "attempt_step ls ok name i w (handleDeaths E ds (w\<lparr>w_containers := c\<rparr>))"
    and "w_containers (handleDeaths E ds (w\<lparr>w_containers := c\<rparr>)) = c"
proof -
  have "ds = [] \<and> map_of (inFlightLoads w) name = Some False" if "l_hasModule (ls ! i) name c"
    using that assms(3) attempt_has(1) [OF assms(1,2), of name] by (cases ds) (auto simp: ends_only_def)
  moreover have "l_hasModule (ls ! j) n c = l_hasModule (ls ! j) n (w_containers w)"
    if "j < length ls" "n \<noteq> name \<or> j \<noteq> i" for j n
    using that assms(3) assms(4) [of j n] by (cases "j = i") (auto simp: ends_only_def)
  moreover have "ok c" "set ds \<subseteq> {name}" using assms(3) by (auto simp: ends_only_def)
  ultimately show "attempt_step ls ok name i w (handleDeaths E ds (w\<lparr>w_containers := c\<rparr>))"
    "w_containers (handleDeaths E ds (w\<lparr>w_containers := c\<rparr>)) = c"
    using attempt_call [OF assms(1,2) _ _ _ _ refl, of c ds E] unfolding attempt_step_def by blast+
qed

lemma attempt_starts:
  assumes "attempt_inv ls ok name i w" and "i < length ls" and "map_of (inFlightLoads w) name = Some False"
    and "starts_only ok (l_hasModule (ls ! i)) name (w_containers w) ds c"
    and "\<And>j n. j < length ls \<Longrightarrow> j \<noteq> i \<Longrightarrow> l_hasModule (ls ! j) n c = l_hasModule (ls ! j) n (w_containers w)"
  shows "attempt_step ls ok name i w (handleDeaths E ds (w\<lparr>w_containers := c\<rparr>))"
proof -
  have "l_hasModule (ls ! j) n c = l_hasModule (ls ! j) n (w_containers w)"
    if "j < length ls" "n \<noteq> name \<or> j \<noteq> i" for j n
    using that assms(4) assms(5) [of j n] by (cases "j = i") (auto simp: starts_only_def)
  moreover have "ok c" "set ds \<subseteq> {name}" "l_hasModule (ls ! i) name c \<Longrightarrow> ds = [] \<and> map_of (inFlightLoads w) name = Some False"
    using assms(3,4) by (auto simp: starts_only_def)
  ultimately show ?thesis
    using attempt_call [OF assms(1,2) _ _ _ _ refl, of c ds E] unfolding attempt_step_def by blast
qed

lemma attempt_field_updates:
  "attempt_inv ls ok name i (w\<lparr>minted := k\<rparr>) = attempt_inv ls ok name i w"
  "attempt_inv ls ok name i (w\<lparr>hostStaysSilent := b\<rparr>) = attempt_inv ls ok name i w"
  "fleet_inv ls ok (record_edge n a b' i' p r w) = fleet_inv ls ok w"
  "attempt_step ls ok name i v (w\<lparr>minted := k\<rparr>) = attempt_step ls ok name i v w"
  "attempt_step ls ok name i v (w\<lparr>hostStaysSilent := b\<rparr>) = attempt_step ls ok name i v w"
  by (simp_all add: attempt_step_def attempt_inv_def fleet_inv_def only_moves_def)

section \<open>The end of an attempt\<close>

definition load_result :: "'c loaders \<Rightarrow> ('c \<Rightarrow> bool) \<Rightarrow> string \<Rightarrow> 'c world \<Rightarrow> exn + bool \<Rightarrow> 'c world \<Rightarrow> bool" where
  "load_result ls ok name w r w' \<longleftrightarrow> fleet_inv ls ok w' \<and> only_moves name w w' \<and> insideLoad w' = insideLoad w
     \<and> (\<forall>b. r = Inr b \<longrightarrow> isLoaded (w_registry w') name = b) \<and> (listening w \<longrightarrow> listening w')
     \<and> world_feed w' = world_feed w @ (if listening w \<and> name \<noteq> [] then
          (case r of Inl _ \<Rightarrow> [] | Inr b \<Rightarrow> [(name, kLoading, if b then kLoaded else kError)]) else [])"

lemma load_result_step:
  "attempt_step ls ok name i w w1 \<Longrightarrow> load_result ls ok name w1 r w' \<Longrightarrow> load_result ls ok name w r w'"
  using attempt_stepD(2-5) [of ls ok name i w w1] by (simp add: load_result_def only_moves_def)

lemma loadFailed_result:
  assumes "fleet_inv ls ok w" and "\<not> isLoaded (w_registry w) name" and "loadFailed name inst pid reason w = (r, w')"
  shows "load_result ls ok name w r w'"
  using assms(2,3) assms(1) attempt_field_updates(3) [of ls ok name kLoading kError inst pid "Some reason" w]
  by (auto simp: loadFailed_def load_result_def world_feed_record only_moves_def)

lemma abandon_fields [simp]:
  "w_registry (abandonLoadAttempt n w) = w_registry w" "world_feed (abandonLoadAttempt n w) = world_feed w"
  "listening (abandonLoadAttempt n w) = listening w" "insideLoad (abandonLoadAttempt n w) = insideLoad w"
  "w_containers (abandonLoadAttempt n w) = w_containers w"
  by (simp_all add: abandonLoadAttempt_def)

lemma attempt_failed:
  assumes step: "attempt_step ls ok name i w v" and i: "i < length ls"
    and gone: "\<not> l_hasModule (ls ! i) name (w_containers v)"
    and failed: "loadFailed name inst pid reason (abandonLoadAttempt name v) = (r, w')"
  shows "load_result ls ok name w r w'"
proof -
  note inv = attempt_stepD(1) [OF step]
  have "load_result ls ok name (abandonLoadAttempt name v) r w'"
    using loadFailed_result [OF attempt_abandon [OF inv i gone] _ failed] inv by (simp add: attempt_inv_def)
  then show ?thesis
    using step only_moves_trans [of name w v w'] by (auto simp: load_result_def attempt_step_def only_moves_def)
qed

lemma fleet_outgoing: "inward w' = inward w \<Longrightarrow> fleet_inv ls ok w' = fleet_inv ls ok w"
  using inward_fields [of w' w] by (simp add: fleet_inv_def)

lemmas fleet_outgoings [simp] =
  inward_outgoing [THEN fleet_outgoing] fleet_outgoing [OF inward_runOnOwner] fleet_outgoing [OF inward_deliverSince]
  fleet_outgoing [OF inward_serveOwner]

lemma saveToken_frames [simp]:
  "w_registry (saveToken n t w) = w_registry w" "fleet_inv ls ok (saveToken n t w) = fleet_inv ls ok w"
  "world_feed (saveToken n t w) = world_feed w" "listening (saveToken n t w) = listening w" "insideLoad (saveToken n t w) = insideLoad w"
  by (simp_all add: saveToken_def fleet_inv_def)

lemma enable_frames [simp]:
  "w_registry (enableModulesStateFeed E w) = w_registry w" "fleet_inv ls ok (enableModulesStateFeed E w) = fleet_inv ls ok w"
  "world_feed (enableModulesStateFeed E w) = world_feed w" "listening (enableModulesStateFeed E w)"
  "insideLoad (enableModulesStateFeed E w) = insideLoad w"
  by (simp_all add: enableModulesStateFeed_def fleet_inv_def)
    (simp_all add: world_feed_def listening_def frame_simps hasSink_def step_sink)

lemma watch_frames [simp]:
  "isLoaded (w_registry (armReadinessWatch E n i p w)) m = isLoaded (w_registry w) m"
  "graph_of (w_registry (armReadinessWatch E n i p w)) = graph_of (w_registry w)"
  "fleet_inv ls ok (armReadinessWatch E n i p w) = fleet_inv ls ok w"
  "world_feed (armReadinessWatch E n i p w) = world_feed w" "listening (armReadinessWatch E n i p w) = listening w"
  "insideLoad (armReadinessWatch E n i p w) = insideLoad w"
  by (simp_all add: armReadinessWatch_def Let_def) (simp add: fleet_inv_def)

lemma finishLoad_frames:
  "isLoaded (w_registry (finishLoad E n inst pid t w)) m = isLoaded (w_registry w) m"
  "graph_of (w_registry (finishLoad E n inst pid t w)) = graph_of (w_registry w)"
  "fleet_inv ls ok (finishLoad E n inst pid t w) = fleet_inv ls ok w"
  "listening w \<Longrightarrow> listening (finishLoad E n inst pid t w)"
  "insideLoad (finishLoad E n inst pid t w) = insideLoad w"
  "world_feed (finishLoad E n inst pid t w) = world_feed w @ (if listening w \<and> n \<noteq> [] then [(n, kLoading, kLoaded)] else [])"
  by (simp_all add: finishLoad_def Let_def attempt_field_updates world_feed_record)

lemma commit_result:
  assumes "attempt_inv ls ok name i w" and "i < length ls" and "isKnown (w_registry w) name"
    and "commitLoad now name i h w = (committed, w')"
  shows "fleet_inv ls ok w'" and "isLoaded (w_registry w') name = committed" and "only_moves name w w'"
    and "world_feed w' = world_feed w" and "listening w' = listening w" and "insideLoad w' = insideLoad w"
proof -
  note has = attempt_has [OF assms(1)]
  show "fleet_inv ls ok w'"
  proof (cases "map_of (inFlightLoads w) name = Some True")
    case True
    have "isLoaded (w_registry w) n \<and> loaderFor (w_registry w) n = Some j"
      if "j < length ls" "l_hasModule (ls ! j) n (w_containers w)" for j n
      using has [OF that] True by (cases "n = name") auto
    with True assms(1,4) show ?thesis by (auto simp: commitLoad_def attempt_inv_def fleet_inv_def)
  next
    case False
    have w': "w' = w\<lparr>inFlightLoads := AList.delete name (inFlightLoads w),
        w_registry := markLoadedBy now name (Some i) h (w_registry w)\<rparr>"
      using False assms(4) by (simp add: commitLoad_def Let_def)
    show ?thesis unfolding fleet_inv_def
    proof (intro conjI allI impI)
      fix j n assume "j < length ls" "l_hasModule (ls ! j) n (w_containers w')"
      with has [of j n] show "isLoaded (w_registry w') n" "loaderFor (w_registry w') n = Some j"
        by (cases "n = name"; simp add: w')+
    qed (use assms(1,2) in \<open>auto simp: w' attempt_inv_def\<close>)
  qed
  show "isLoaded (w_registry w') name = committed" "only_moves name w w'" "world_feed w' = world_feed w"
    "listening w' = listening w" "insideLoad w' = insideLoad w"
    using assms(1,3,4) by (auto simp: commitLoad_def attempt_inv_def only_moves_def Let_def split: if_splits)
qed

section \<open>The load\<close>

context loader_fleet begin

lemma settle_result:
  assumes inv: "attempt_inv ls ok name i w" and i: "i < length ls" and known: "isKnown (w_registry w) name"
    and settle: "settleLoad E name i (ls ! i) h inst pid authToken w = (r, w')"
  shows "load_result ls ok name w r w'"
proof -
  have okw: "ok (w_containers w)" using inv by (simp add: attempt_inv_def)
  define timeout where "timeout = (if hostStaysSilent w then kSilentHostGrace else kLoadVerdictTimeout)"
  obtain outcome ds c where await: "l_awaitLoad (ls ! i) name timeout (w_containers w) = (outcome, ds, c)"
    by (cases "l_awaitLoad (ls ! i) name timeout (w_containers w)")
  let ?w1 = "handleDeaths E ds (w\<lparr>w_containers := c\<rparr>)"
  have step: "attempt_step ls ok name i w ?w1" and c: "w_containers ?w1 = c"
    using attempt_ends [OF inv i await_ends [OF i okw await]] others(3) [OF i _ _ await] by metis+
  note inv1 = attempt_stepD(1) [OF step]
  show ?thesis
  proof (cases "verdict outcome = VerdictFailed")
    case True
    obtain ds' c' where stopped: "l_terminate (ls ! i) name (w_containers ?w1) = (ds', c')"
      by (cases "l_terminate (ls ! i) name (w_containers ?w1)")
    let ?w2 = "handleDeaths E ds' (?w1\<lparr>w_containers := c'\<rparr>)"
    have okc: "ok (w_containers ?w1)" using inv1 by (simp add: attempt_inv_def)
    have step2: "attempt_step ls ok name i ?w1 ?w2" and c': "w_containers ?w2 = c'"
      using attempt_ends [OF inv1 i terminate_ends [OF i okc stopped]] others(4) [OF i _ _ stopped] by metis+
    have "loadFailed name inst pid (lo_reason outcome) (abandonLoadAttempt name ?w2) = (r, w')"
      using settle True await stopped by (simp add: settleLoad_def timeout_def Let_def)
    with attempt_failed [OF attempt_step_trans [OF step step2] i] terminate_gone [OF i okc stopped] c'
    show ?thesis by simp
  next
    case False
    define w2 where "w2 = (if verdict outcome = VerdictUnknown then ?w1\<lparr>hostStaysSilent := True\<rparr> else ?w1)"
    have step2: "attempt_step ls ok name i w w2"
      using step by (simp add: w2_def attempt_field_updates)
    obtain committed w3 where commit: "commitLoad (e_now E) name i h w2 = (committed, w3)"
      by (cases "commitLoad (e_now E) name i h w2")
    have known2: "isKnown (w_registry w2) name"
      using known attempt_stepD(2) [OF step2] graph_same(1) [of "w_registry w2" "w_registry w"] by (simp add: only_moves_def)
    note com = commit_result [OF attempt_stepD(1) [OF step2] i known2 commit]
    have rest: "(r, w') = (if \<not> committed then loadFailed name inst pid ''the module process exited while it was loading'' w3
        else (Inr True, finishLoad E name inst pid authToken w3))"
      using settle False await commit by (simp add: settleLoad_def timeout_def Let_def w2_def split: if_splits)
    have "load_result ls ok name w3 r w'"
    proof (cases committed)
      case True
      with rest com(1,2) show ?thesis
        by (simp add: load_result_def only_moves_def finishLoad_frames)
    next
      case False
      with rest loadFailed_result [OF com(1)] com(2) show ?thesis by simp
    qed
    then have "load_result ls ok name w2 r w'"
      using com by (auto simp: load_result_def only_moves_def)
    then show ?thesis by (rule load_result_step [OF step2])
  qed
qed

lemma begin_frames [simp]:
  "w_registry (beginLoadAttempt n w) = w_registry w" "w_containers (beginLoadAttempt n w) = w_containers w"
  "world_feed (beginLoadAttempt n w) = world_feed w" "listening (beginLoadAttempt n w) = listening w"
  "insideLoad (beginLoadAttempt n w) = insideLoad w" "map_of (inFlightLoads (beginLoadAttempt n w)) n = Some False"
  by (simp_all add: beginLoadAttempt_def)

lemma begin_step: "attempt_step ls ok name i (beginLoadAttempt name w) v \<Longrightarrow> load_result ls ok name v r w' \<Longrightarrow>
   load_result ls ok name w r w'"
  using load_result_step [of ls ok name i "beginLoadAttempt name w" v r w'] by (simp add: load_result_def only_moves_def)

lemma known_after: "attempt_step ls ok name i w v \<Longrightarrow> isKnown (w_registry v) = isKnown (w_registry w)"
  using attempt_stepD(2) graph_same(1) by (metis only_moves_def)

lemma send_result:
  assumes inv: "attempt_inv ls ok name i w" and i: "i < length ls"
    and sent: "l_sendToken (ls ! i) name authToken (w_containers w) = (b, ds, c)"
  shows "attempt_step ls ok name i w (handleDeaths E ds (w\<lparr>w_containers := c\<rparr>))"
proof -
  have "ok (w_containers w)" using inv by (simp add: attempt_inv_def)
  then show ?thesis using attempt_ends [OF inv i token_ends [OF i _ sent]] others(2) [OF i _ _ sent] by metis
qed

text \<open>The announced end of a module that did not take its token: the mark is gone again.\<close>

lemma marked_call:
  assumes "map_of (inFlightLoads w) name \<noteq> None" and "set ds \<subseteq> {name}" and "expectedExits w = []"
  shows "snd (consumeExpectedExit name (handleDeaths E ds ((markExitExpected name w)\<lparr>w_containers := c\<rparr>)))
    = handleDeaths E ds (w\<lparr>w_containers := c\<rparr>)"
proof -
  have "map_of (inFlightLoads ((markExitExpected name w)\<lparr>w_containers := c\<rparr>)) name \<noteq> None"
    "map_of (inFlightLoads (w\<lparr>w_containers := c\<rparr>)) name \<noteq> None"
    using assms(1) by simp_all
  from handleDeaths_inFlight [OF this(1) assms(2)] handleDeaths_inFlight [OF this(2) assms(2)] assms(3) show ?thesis
    by (cases w) (simp add: diedInFlight_def consumeExpectedExit_def markExitExpected_def uset_insert_def)
qed

lemma attempt_result:
  assumes fleet: "fleet_inv ls ok w" and i: "i < length ls" and known: "isKnown (w_registry w) name"
    and unloaded: "\<not> isLoaded (w_registry w) name" and name: "d_name desc = name"
    and attempt: "attemptLoad E name i (ls ! i) desc inst w = (r, w')"
  shows "load_result ls ok name w r w'"
proof -
  let ?w0 = "beginLoadAttempt name w"
  note inv0 = attempt_begin [OF fleet unloaded, of i]
  have ok0: "ok (w_containers ?w0)" using fleet by (simp add: fleet_inv_def)
  have free: "\<not> l_hasModule (ls ! i) name (w_containers ?w0)" using fleet unloaded i by (auto simp: fleet_inv_def)
  obtain started ds c where load: "l_load (ls ! i) desc (w_containers ?w0) = (started, ds, c)"
    by (cases "l_load (ls ! i) desc (w_containers ?w0)")
  let ?w1 = "handleDeaths E ds (?w0\<lparr>w_containers := c\<rparr>)"
  note others' = others(1) [OF i _ _ load]
  show ?thesis
  proof (cases "\<exists>h. started = Launched h")
    case False
    then have ends: "ends_only ok (l_hasModule (ls ! i)) name (w_containers ?w0) ds c"
      using load_ends [OF i ok0 load] name by simp
    have step: "attempt_step ls ok name i ?w0 ?w1" and c: "w_containers ?w1 = c"
      using attempt_ends [OF inv0 i ends] others' by metis+
    have gone: "\<not> l_hasModule (ls ! i) name (w_containers ?w1)" using ends free c by (auto simp: ends_only_def)
    show ?thesis
    proof (cases started)
      case NotLaunched
      with attempt load have "loadFailed name inst None ''loader failed to start the module'' (abandonLoadAttempt name ?w1) = (r, w')"
        by (simp add: attemptLoad_def Let_def)
      with attempt_failed [OF step i gone] show ?thesis by (simp add: load_result_def only_moves_def)
    next
      case (LaunchThrew x)
      with attempt load have "r = Inl x" "w' = ?w1" by (simp_all add: attemptLoad_def Let_def)
      moreover have "fleet_inv ls ok ?w1"
        using attempt_abandon [OF attempt_stepD(1) [OF step] i gone] attempt_stepD(1) [OF step]
        by (simp add: fleet_inv_def abandonLoadAttempt_def attempt_inv_def)
      ultimately show ?thesis using step by (simp add: load_result_def attempt_step_def only_moves_def)
    qed (use False in simp)
  next
    case True
    then obtain h where h: "started = Launched h" ..
    have starts: "starts_only ok (l_hasModule (ls ! i)) name (w_containers ?w0) ds c"
      using load_starts [OF i ok0] load h name by blast
    have step: "attempt_step ls ok name i ?w0 ?w1"
      using attempt_starts [OF inv0 i _ starts] others' by simp
    define pid where "pid = (if 0 \<le> h_pid h then Some (h_pid h) else None)"
    define token where "token = e_uuid E (minted ?w1)"
    define w2 where "w2 = ?w1\<lparr>minted := Suc (minted ?w1)\<rparr>"
    have step2: "attempt_step ls ok name i ?w0 w2" using step by (simp add: w2_def attempt_field_updates)
    obtain b ds' c' where send: "l_sendToken (ls ! i) name token (w_containers w2) = (b, ds', c')"
      by (cases "l_sendToken (ls ! i) name token (w_containers w2)")
    let ?w3 = "handleDeaths E ds' (w2\<lparr>w_containers := c'\<rparr>)"
    have step3: "attempt_step ls ok name i ?w0 ?w3"
      using attempt_step_trans [OF step2 send_result [OF attempt_stepD(1) [OF step2] i send]] .
    note inv3 = attempt_stepD(1) [OF step3]
    have rest: "(r, w') = (if b then settleLoad E name i (ls ! i) h inst pid token ?w3
      else let (ds, c) = l_terminate (ls ! i) name (w_containers ?w3);
          v = snd (consumeExpectedExit name (handleDeaths E ds ((markExitExpected name ?w3)\<lparr>w_containers := c\<rparr>)))
        in loadFailed name inst pid (''failed to deliver the module'' @ CHR 0x27 # ''s auth token'') (abandonLoadAttempt name v))"
      using attempt load h send by (simp add: attemptLoad_def Let_def pid_def token_def w2_def split: if_splits prod.splits)
    show ?thesis
    proof (cases b)
      case True
      have "isKnown (w_registry ?w3) name" using known_after [OF step3] known by simp
      from settle_result [OF inv3 i this] rest True have "load_result ls ok name ?w3 r w'" by metis
      then show ?thesis by (rule begin_step [OF step3])
    next
      case False
      obtain ds2 c2 where stopped: "l_terminate (ls ! i) name (w_containers ?w3) = (ds2, c2)"
        by (cases "l_terminate (ls ! i) name (w_containers ?w3)")
      let ?v = "handleDeaths E ds2 (?w3\<lparr>w_containers := c2\<rparr>)"
      have ok3: "ok (w_containers ?w3)" and quiet: "map_of (inFlightLoads ?w3) name \<noteq> None" "expectedExits ?w3 = []"
        using inv3 by (simp_all add: attempt_inv_def)
      note ends = terminate_ends [OF i ok3 stopped]
      have step4: "attempt_step ls ok name i ?w3 ?v" and c: "w_containers ?v = c2"
        using attempt_ends [OF inv3 i ends] others(4) [OF i _ _ stopped] by metis+
      have "set ds2 \<subseteq> {name}" using ends by (auto simp: ends_only_def)
      note marked = marked_call [OF quiet(1) this quiet(2), of E c2]
      have "loadFailed name inst pid (''failed to deliver the module'' @ CHR 0x27 # ''s auth token'') (abandonLoadAttempt name ?v) = (r, w')"
        using rest False stopped marked by simp
      with attempt_failed [OF attempt_step_trans [OF step3 step4] i] terminate_gone [OF i ok3 stopped] c
      show ?thesis by (simp add: load_result_def only_moves_def)
    qed
  qed
qed

text \<open>What a load tells the feed.\<close>

end

definition load_edges :: "string \<Rightarrow> 'c world \<Rightarrow> exn + bool \<Rightarrow> (string \<times> string \<times> string) list" where
  "load_edges name w r =
     (if \<not> isKnown (w_registry w) name \<or> isLoaded (w_registry w) name then []
      else if containerPolicyMismatch (containerPolicyValue w) name (moduleFormatOf name w) \<noteq> None
      then [(name, kUnloaded, kError)]
      else (name, kUnloaded, kLoading) #
        (case r of Inl _ \<Rightarrow> [] | Inr b \<Rightarrow> [(name, kLoading, if b then kLoaded else kError)]))"

definition load_done :: "'c loaders \<Rightarrow> ('c \<Rightarrow> bool) \<Rightarrow> string \<Rightarrow> 'c world \<Rightarrow> exn + bool \<Rightarrow> 'c world \<Rightarrow> bool" where
  "load_done ls ok name w r w' \<longleftrightarrow> fleet_inv ls ok w' \<and> only_moves name w w' \<and> insideLoad w' = insideLoad w
     \<and> (\<forall>b. r = Inr b \<longrightarrow> isLoaded (w_registry w') name = b) \<and> (listening w \<longrightarrow> listening w')
     \<and> world_feed w' = world_feed w @ (if listening w \<and> name \<noteq> [] then load_edges name w r else [])"

lemma select_lt: "select ls desc = Inr (Some i) \<Longrightarrow> i < length ls"
  by (auto simp: select_def firstLoader_Some split: option.splits json.splits)

lemma moduleFormatOf_record [simp]: "moduleFormatOf n (record_edge m a b i p r w) = moduleFormatOf n w"
  by (simp add: moduleFormatOf_def)

lemma record_fleet [simp]: "fleet_inv ls ok (record_edge n a b' i' p r w) = fleet_inv ls ok w"
  by (rule attempt_field_updates(3))

context loader_fleet begin

lemma load_done_after_loading:
  assumes "load_result ls ok name (record_edge name kUnloaded kLoading inst None None w) r w'"
    and "isKnown (w_registry w) name" and "\<not> isLoaded (w_registry w) name"
    and "containerPolicyMismatch (containerPolicyValue w) name (moduleFormatOf name w) = None"
  shows "load_done ls ok name w r w'"
  using assms by (simp add: load_result_def load_done_def load_edges_def only_moves_def world_feed_record)

lemma load_done:
  assumes fleet: "fleet_inv ls ok w" and load: "loadModuleInternal E name w = (r, w')"
  shows "load_done ls ok name w r w'"
proof (cases "isKnown (w_registry w) name \<and> \<not> isLoaded (w_registry w) name")
  case False
  then show ?thesis
    using fleet load known_if_loaded [of "w_registry w" name]
    by (auto simp: loadModuleInternal_def load_done_def load_edges_def)
next
  case True
  then have known: "isKnown (w_registry w) name" and unloaded: "\<not> isLoaded (w_registry w) name" by simp_all
  show ?thesis
  proof (cases "containerPolicyMismatch (containerPolicyValue w) name (moduleFormatOf name w)")
    case (Some m)
    then have "r = Inr False" "w' = record_edge name kUnloaded kError None None (Some m) w"
      using load True by (simp_all add: loadModuleInternal_def)
    then show ?thesis
      using fleet True Some by (simp add: load_done_def load_edges_def world_feed_record only_moves_def)
  next
    case None
    define desc where "desc = buildDescriptor E name w"
    define inst where "inst = fst (resolvePersistence E name w)"
    define v where "v = record_edge name kUnloaded kLoading inst None None w"
    have fv: "fleet_inv ls ok v" "\<not> isLoaded (w_registry v) name" "isKnown (w_registry v) name"
      using fleet known unloaded by (simp_all add: v_def)
    have ls: "w_loaders v = ls" using fv(1) by (simp add: fleet_inv_def)
    have failed: "load_result ls ok name v r w'" if "loadFailed name inst None reason v = (r, w')" for reason
      by (rule loadFailed_result [OF fv(1,2) that])
    have "load_result ls ok name v r w'"
    proof (cases "pgDecision (evaluateProtocolGate (protocolStamp (d_rawMetadata desc)) (e_hostMajor E)) = PgRefuse
        \<or> dgDecision (dependencyGateFor E name v) = DgRefuse")
      case True
      with load known unloaded None show ?thesis
        using failed by (auto simp: loadModuleInternal_def Let_def desc_def inst_def v_def split: if_splits)
    next
      case False
      then have sel: "(case select ls desc of
          Inl x \<Rightarrow> (Inl x, v)
        | Inr None \<Rightarrow> loadFailed name inst None ''no loader available for this module format'' v
        | Inr (Some ld) \<Rightarrow> attemptLoad E name ld (ls ! ld) desc inst v) = (r, w')"
        using load known unloaded None ls
        by (auto simp: loadModuleInternal_def Let_def desc_def inst_def v_def split: sum.splits option.splits)
      show ?thesis
      proof (cases "select ls desc")
        case (Inl x)
        with sel fv show ?thesis by (auto simp: load_result_def)
      next
        case (Inr sl)
        show ?thesis
        proof (cases sl)
          case None
          with sel Inr failed show ?thesis by simp
        next
          case (Some ld)
          have "d_name desc = name" by (simp add: desc_def buildDescriptor_def Let_def)
          with attempt_result [OF fv(1) select_lt fv(3,2)] sel Inr Some show ?thesis by simp
        qed
      qed
    qed
    then show ?thesis using load_done_after_loading known unloaded None by (simp add: v_def)
  qed
qed

end

section \<open>Properties\<close>

lemma fleet_inv_fresh:
  assumes "ok (w_containers w)" and "\<And>i n. i < length (w_loaders w) \<Longrightarrow> \<not> l_hasModule (w_loaders w ! i) n (w_containers w)"
    and "expectedExits w = []" and "registry_ok (w_registry w)" and "\<And>n. \<not> isLoaded (w_registry w) n"
  shows "fleet_inv (w_loaders w) ok w"
  using assms by (simp add: fleet_inv_def registry_fit_def)

lemma sample_fleet: "fleet_inv (nativeLoaders sample_env) (inproc_names_ok sample_env) sampleWorld"
proof -
  have "\<forall>n \<in> set (keys (m_modules sampleRegistry)). \<not> isLoaded sampleRegistry n" by code_simp
  then have "\<not> isLoaded sampleRegistry n" for n using known_if_loaded [of sampleRegistry n] by (auto simp: isKnown_def)
  moreover have "registry_ok sampleRegistry" by code_simp
  moreover have "inproc_names_ok sample_env (setHostApi True emptyInproc)"
    by (simp add: inproc_names_ok_def sample_env_def hash_order_id setHostApi_def emptyInproc_def)
  ultimately have "fleet_inv (w_loaders sampleWorld) (inproc_names_ok sample_env) sampleWorld"
    by (intro fleet_inv_fresh) (simp_all add: sampleWorld_def newWorld_def nativeLoaders_def compositeModuleLoader_def
        inprocContainer_def inproc_hasModule_def setHostApi_def emptyInproc_def)
  then show ?thesis by (simp add: sampleWorld_def newWorld_def)
qed

lemma sample_load: "fst (loadModuleInternal sampleMgr ''a'' sampleWorld) = Inr True"
  by code_simp

text \<open>
  C1. A load answers true exactly when the module is marked loaded when it returns, on every path, errors
  and deaths during the load included; no other module's entry moves, and the state between
  operations is kept: no announced exit is left over, no attempt stays registered for a loaded
  module, and no container runs a module that is not marked loaded under its loader. A listener's feed gets exactly the
  edges of \<open>load_edges\<close>: none for a module that is not known or already loaded, one for a refused container, and otherwise
  the begin of the load and one end, as the call answered.
\<close>

theorem load_outcome:
  assumes "loader_fleet ls ok" and "fleet_inv ls ok w" and "loadModuleInternal E name w = (r, w')"
  shows "fleet_inv ls ok w' \<and> (\<forall>b. r = Inr b \<longrightarrow> isLoaded (w_registry w') name = b)
    \<and> (\<forall>n. n \<noteq> name \<longrightarrow> isLoaded (w_registry w') n = isLoaded (w_registry w) n)
    \<and> world_feed w' = world_feed w @ (if listening w \<and> name \<noteq> [] then load_edges name w r else [])"
  using loader_fleet.load_done [OF assms] by (simp add: load_done_def only_moves_def)

theorem load_outcome_witness:
  "fleet_inv (nativeLoaders sample_env) (inproc_names_ok sample_env) (snd (loadModuleInternal sampleMgr ''a'' sampleWorld))
   \<and> isLoaded (w_registry (snd (loadModuleInternal sampleMgr ''a'' sampleWorld))) ''a''"
  using load_outcome [OF native.loader_fleet_axioms sample_fleet, of sampleMgr "''a''"] sample_load
  by (metis prod.collapse)

text \<open>
  The feed of one load is exact: nothing for a module that is not known or already loaded, one
  \<open>unloaded -> error\<close> for a container the operator refused, and otherwise \<open>unloaded -> loading\<close> followed by
  one \<open>loading -> loaded\<close> or \<open>loading -> error\<close> as the call answered, deaths of the module during the
  load included; only an exception leaves the module in \<open>loading\<close>.
\<close>

theorem load_feed_exact:
  assumes "loader_fleet ls ok" and "fleet_inv ls ok w" and "loadModuleInternal E name w = (r, w')"
    and "listening w" and "name \<noteq> []"
  shows "world_feed w' = world_feed w @ load_edges name w r"
  using loader_fleet.load_done [OF assms(1-3)] assms(4,5) by (simp add: load_done_def)

theorem load_feed_exact_witness:
  "world_feed (snd (loadModuleInternal sampleMgr ''a'' sampleWorld)) =
     world_feed sampleWorld @ [(''a'', kUnloaded, kLoading), (''a'', kLoading, kLoaded)]"
proof -
  have "listening sampleWorld" "load_edges ''a'' sampleWorld (Inr True) = [(''a'', kUnloaded, kLoading), (''a'', kLoading, kLoaded)]"
    by code_simp+
  then show ?thesis
    using load_feed_exact [OF native.loader_fleet_axioms sample_fleet, of sampleMgr "''a''"] sample_load
    by (metis list.distinct(1) prod.collapse)
qed

text \<open>
  The three gates stand before the module runs: when the operator's container policy, the
  protocol gate or the dependency gate refuses, the load answers false and no loader was called, no
  attempt is registered and no token is minted.
\<close>

theorem load_refused_early:
  assumes "isKnown (w_registry w) name" and "\<not> isLoaded (w_registry w) name"
    and "containerPolicyMismatch (containerPolicyValue w) name (moduleFormatOf name w) \<noteq> None
      \<or> pgDecision (evaluateProtocolGate (protocolStamp (artifactMetadata E (modulePath (w_registry w) name))) (e_hostMajor E)) = PgRefuse
      \<or> dgDecision (dependencyGateFor E name w) = DgRefuse"
  shows "\<exists>w'. loadModuleInternal E name w = (Inr False, w') \<and> w_containers w' = w_containers w
    \<and> inFlightLoads w' = inFlightLoads w \<and> minted w' = minted w \<and> tokens w' = tokens w \<and> w_registry w' = w_registry w"
proof -
  have gate: "dependencyGateFor E name (record_edge name a b i p r w) = dependencyGateFor E name w" for a b i p r
    by (simp add: dependencyGateFor_def)
  have tok: "tokens (record_edge name a b i p r v) = tokens v" for a b i p r and v :: "'c world"
    by (simp add: record_edge_def)
  show ?thesis
    using assms
    by (auto simp: loadModuleInternal_def Let_def gate loadFailed_def tok buildDescriptor_def split: option.split)
qed

theorem load_refused_early_witness:
  "\<exists>w'. loadModuleInternal sampleMgr ''a'' (sampleWorld\<lparr>containerPolicyValue := ''web''\<rparr>) = (Inr False, w')
     \<and> w_containers w' = w_containers (sampleWorld\<lparr>containerPolicyValue := ''web''\<rparr>)
     \<and> inFlightLoads w' = inFlightLoads (sampleWorld\<lparr>containerPolicyValue := ''web''\<rparr>)
     \<and> minted w' = minted (sampleWorld\<lparr>containerPolicyValue := ''web''\<rparr>)
     \<and> tokens w' = tokens (sampleWorld\<lparr>containerPolicyValue := ''web''\<rparr>)
     \<and> w_registry w' = w_registry (sampleWorld\<lparr>containerPolicyValue := ''web''\<rparr>)"
proof (rule load_refused_early)
  let ?w = "sampleWorld\<lparr>containerPolicyValue := ''web''\<rparr>"
  show "isKnown (w_registry ?w) ''a''" "\<not> isLoaded (w_registry ?w) ''a''" by code_simp+
  have "containerPolicyMismatch (containerPolicyValue ?w) ''a'' (moduleFormatOf ''a'' ?w) \<noteq> None" by code_simp
  then show "containerPolicyMismatch (containerPolicyValue ?w) ''a'' (moduleFormatOf ''a'' ?w) \<noteq> None
      \<or> pgDecision (evaluateProtocolGate (protocolStamp (artifactMetadata sampleMgr (modulePath (w_registry ?w) ''a''))) (e_hostMajor sampleMgr)) = PgRefuse
      \<or> dgDecision (dependencyGateFor sampleMgr ''a'' ?w) = DgRefuse" by simp
qed

end
