(* ===== verification/ManagerUnload.thy ===== *)
theory ManagerUnload
  imports ManagerLoad
begin

text \<open>
  Unloading, deaths and the teardown of the fleet (\<open>module_manager.cpp\<close> 1054-1077, 1200-1310,
  1624-1751), on a loader table that keeps the contract.
\<close>

section \<open>Deaths outside a load\<close>

text \<open>A death that an unload announced.\<close>

definition diedExpected :: "mgr_env \<Rightarrow> string \<Rightarrow> 'c world \<Rightarrow> 'c world" where
  "diedExpected E n w = flushFeed E (record_edge n kStopping kUnloaded None None None
     (w\<lparr>w_registry := markUnloaded n (w_registry w), expectedExits := removeAll n (expectedExits w)\<rparr>))"

text \<open>A death nobody asked for, before the supervisor judges it.\<close>

definition diedAlone :: "mgr_env \<Rightarrow> string \<Rightarrow> 'c world \<Rightarrow> 'c world" where
  "diedAlone E n w = flushFeed E (record_edge n kLoaded kError None None (Some ''module exited without being asked to'')
     (w\<lparr>w_registry := markUnloaded n (w_registry w), expectedExits := removeAll n (expectedExits w)\<rparr>))"

lemma onTerminated_quiet:
  assumes "map_of (inFlightLoads w) n = None"
  shows "n \<in> set (expectedExits w) \<Longrightarrow> onTerminated E n w = diedExpected E n w"
    and "n \<notin> set (expectedExits w) \<Longrightarrow> onTerminated E n w = superviseUnexpectedExit E n (diedAlone E n w)"
  using assms
  by (simp_all add: onTerminated_def recordTerminationDuringLoad_def consumeExpectedExit_def Let_def diedExpected_def diedAlone_def)

lemma died_frames [simp]:
  "w_registry (diedExpected E n w) = markUnloaded n (w_registry w)" "w_containers (diedExpected E n w) = w_containers w"
  "w_loaders (diedExpected E n w) = w_loaders w" "inFlightLoads (diedExpected E n w) = inFlightLoads w"
  "expectedExits (diedExpected E n w) = removeAll n (expectedExits w)" "insideLoad (diedExpected E n w) = insideLoad w"
  "w_supervisor (diedExpected E n w) = w_supervisor w" "scheduledRestarts (diedExpected E n w) = scheduledRestarts w"
  "listening (diedExpected E n w) = listening w"
  "world_feed (diedExpected E n w) = world_feed w @ (if listening w \<and> n \<noteq> [] then [(n, kStopping, kUnloaded)] else [])"
  "w_registry (diedAlone E n w) = markUnloaded n (w_registry w)" "w_containers (diedAlone E n w) = w_containers w"
  "w_loaders (diedAlone E n w) = w_loaders w" "inFlightLoads (diedAlone E n w) = inFlightLoads w"
  "expectedExits (diedAlone E n w) = removeAll n (expectedExits w)" "insideLoad (diedAlone E n w) = insideLoad w"
  "w_supervisor (diedAlone E n w) = w_supervisor w" "scheduledRestarts (diedAlone E n w) = scheduledRestarts w"
  "listening (diedAlone E n w) = listening w"
  "world_feed (diedAlone E n w) = world_feed w @ (if listening w \<and> n \<noteq> [] then [(n, kLoaded, kError)] else [])"
  by (simp_all add: diedExpected_def diedAlone_def world_feed_record)

lemma supervise_frames [simp]:
  "w_registry (superviseUnexpectedExit E n w) = w_registry w" "w_containers (superviseUnexpectedExit E n w) = w_containers w"
  "w_loaders (superviseUnexpectedExit E n w) = w_loaders w" "inFlightLoads (superviseUnexpectedExit E n w) = inFlightLoads w"
  "expectedExits (superviseUnexpectedExit E n w) = expectedExits w" "insideLoad (superviseUnexpectedExit E n w) = insideLoad w"
  "world_feed (superviseUnexpectedExit E n w) = world_feed w" "listening (superviseUnexpectedExit E n w) = listening w"
  by (simp_all add: superviseUnexpectedExit_def Let_def split: prod.split Decision.split)

lemma supervise_result:
  "w_supervisor (superviseUnexpectedExit E n w) = snd (onUnexpectedExit n (e_steady E) (w_supervisor w))"
  "scheduledRestarts (superviseUnexpectedExit E n w) = scheduledRestarts w @
     (let v = fst (onUnexpectedExit n (e_steady E) (w_supervisor w)) in if decision v = Restart then [(delay v, n)] else [])"
  by (simp_all add: superviseUnexpectedExit_def Let_def split: prod.split Decision.split)

section \<open>One unload\<close>

text \<open>What an unload tells the feed.\<close>

definition unload_edges :: "string \<Rightarrow> 'c world \<Rightarrow> bool \<Rightarrow> (string \<times> string \<times> string) list" where
  "unload_edges name w b =
     (if \<not> isLoaded (w_registry w) name then []
      else [(name, kLoaded, kStopping), (name, kStopping, if b then kUnloaded else kLoaded)])"

definition running :: "'c loaders \<Rightarrow> string \<Rightarrow> 'c \<Rightarrow> bool" where
  "running ls n c \<longleftrightarrow> (\<exists>i < length ls. l_hasModule (ls ! i) n c)"

definition unload_done :: "'c loaders \<Rightarrow> ('c \<Rightarrow> bool) \<Rightarrow> string \<Rightarrow> 'c world \<Rightarrow> bool \<Rightarrow> 'c world \<Rightarrow> bool" where
  "unload_done ls ok name w b w' \<longleftrightarrow> fleet_inv ls ok w' \<and> only_moves name w w' \<and> insideLoad w' = insideLoad w
     \<and> b = running ls name (w_containers w) \<and> isLoaded (w_registry w') name = (isLoaded (w_registry w) name \<and> \<not> b)
     \<and> \<not> running ls name (w_containers w') \<and> (\<forall>n. n \<noteq> name \<longrightarrow> running ls n (w_containers w') = running ls n (w_containers w))
     \<and> scheduledRestarts w' = scheduledRestarts w \<and> (listening w \<and> name \<noteq> kModulesState \<longrightarrow> listening w')
     \<and> world_feed w' = world_feed w @ (if listening w \<and> name \<noteq> [] then unload_edges name w b else [])"

lemma fleet_not_running: "fleet_inv ls ok w \<Longrightarrow> \<not> isLoaded (w_registry w) n \<Longrightarrow> \<not> running ls n (w_containers w)"
  by (auto simp: fleet_inv_def running_def)

lemma fleet_has:
  assumes "fleet_inv ls ok w" and "i < length ls" and "l_hasModule (ls ! i) n (w_containers w)"
  shows "isLoaded (w_registry w) n" and "loaderFor (w_registry w) n = Some i"
  using assms unfolding fleet_inv_def by blast+

lemma fleet_bounded: "fleet_inv ls ok w \<Longrightarrow> isLoaded (w_registry w) n \<Longrightarrow> loaderFor (w_registry w) n = Some i \<Longrightarrow> i < length ls"
  unfolding fleet_inv_def registry_fit_def by blast

lemma fleet_basic:
  assumes "fleet_inv ls ok w"
  shows "w_loaders w = ls" "ok (w_containers w)" "expectedExits w = []" "registry_fit ls (w_registry w)"
    "isLoaded (w_registry w) n \<Longrightarrow> map_of (inFlightLoads w) n = None"
  using assms by (simp_all add: fleet_inv_def)

lemma fleet_running: "fleet_inv ls ok w \<Longrightarrow> loaderFor (w_registry w) n = Some i \<Longrightarrow> i < length ls \<Longrightarrow>
   running ls n (w_containers w) \<longleftrightarrow> l_hasModule (ls ! i) n (w_containers w)"
  by (auto simp: fleet_inv_def running_def)

lemma loaders_terminate_none:
  "(\<And>l. l \<in> set ls \<Longrightarrow> \<not> l_hasModule l n c) \<Longrightarrow> loaders_terminate ls n c = (False, [], c)"
  by (induction ls) simp_all

lemma disable_frames [simp]:
  "w_registry (disableModulesStateFeed w) = w_registry w" "w_containers (disableModulesStateFeed w) = w_containers w"
  "w_loaders (disableModulesStateFeed w) = w_loaders w" "inFlightLoads (disableModulesStateFeed w) = inFlightLoads w"
  "expectedExits (disableModulesStateFeed w) = expectedExits w" "insideLoad (disableModulesStateFeed w) = insideLoad w"
  "scheduledRestarts (disableModulesStateFeed w) = scheduledRestarts w" "w_supervisor (disableModulesStateFeed w) = w_supervisor w"
  "world_feed (disableModulesStateFeed w) = world_feed w"
  by (simp_all add: disableModulesStateFeed_def world_feed_def frame_simps)

text \<open>What follows a teardown, before the feed of \<open>modules_state\<close> itself is cut.\<close>

definition unloadedState :: "mgr_env \<Rightarrow> string \<Rightarrow> 'c world \<Rightarrow> 'c world" where
  "unloadedState E name w =
     (let v = snd (consumeExpectedExit name (refreshDerivedRestrictionsForDependenciesOf E name
        (w\<lparr>w_registry := markUnloaded name (w_registry w), w_supervisor := forget name (w_supervisor w)\<rparr>)))
      in if name \<in> set (expectedExits w) then record_edge name kStopping kUnloaded None None None v else v)"

lemma finishUnload_eq:
  "finishUnload E name w =
     (True, if name = kModulesState then disableModulesStateFeed (unloadedState E name w) else unloadedState E name w)"
  by (simp add: finishUnload_def Let_def split_beta unloadedState_def)

lemma unloadedState_frames:
  "w_registry (unloadedState E name w) = markUnloaded name (w_registry w)"
  "w_containers (unloadedState E name w) = w_containers w" "w_loaders (unloadedState E name w) = w_loaders w"
  "inFlightLoads (unloadedState E name w) = inFlightLoads w"
  "expectedExits (unloadedState E name w) = removeAll name (expectedExits w)"
  "insideLoad (unloadedState E name w) = insideLoad w" "scheduledRestarts (unloadedState E name w) = scheduledRestarts w"
  "listening (unloadedState E name w) = listening w" "w_supervisor (unloadedState E name w) = forget name (w_supervisor w)"
  "world_feed (unloadedState E name w) = world_feed w @
     (if listening w \<and> name \<noteq> [] \<and> name \<in> set (expectedExits w) then [(name, kStopping, kUnloaded)] else [])"
  by (simp_all add: unloadedState_def Let_def world_feed_record)

lemma finishUnload_frames:
  assumes "finishUnload E name w = (b, w')"
  shows "b" "w_registry w' = markUnloaded name (w_registry w)" "w_containers w' = w_containers w" "w_loaders w' = w_loaders w"
    "inFlightLoads w' = inFlightLoads w" "expectedExits w' = removeAll name (expectedExits w)" "insideLoad w' = insideLoad w"
    "scheduledRestarts w' = scheduledRestarts w" "name \<noteq> kModulesState \<Longrightarrow> listening w' = listening w"
    "w_supervisor w' = forget name (w_supervisor w)"
    "world_feed w' = world_feed w @ (if listening w \<and> name \<noteq> [] \<and> name \<in> set (expectedExits w) then [(name, kStopping, kUnloaded)] else [])"
  using assms by (auto simp: finishUnload_eq unloadedState_frames split: if_splits)

context loader_fleet begin

lemma marked_alone: "expectedExits w = [] \<Longrightarrow> expectedExits (markExitExpected n (record_edge m a b i p r w)) = [n]"
  by (simp add: markExitExpected_def uset_insert_def)

text \<open>The teardown of a module its loader runs, from the mark to the end.\<close>

lemma teardown_done:
  assumes fleet: "fleet_inv ls ok w" and loaded: "isLoaded (w_registry w) name" and i: "i < length ls"
    and has: "l_hasModule (ls ! i) name (w_containers w)"
    and stop: "l_terminate (ls ! i) name (w_containers w) = (ds, c)"
    and fin: "finishUnload E name (handleDeaths E ds (markExitExpected name (record_edge name kLoaded kStopping None None None w)\<lparr>w_containers := c\<rparr>)) = (b, w')"
  shows "unload_done ls ok name w b w'"
proof -
  let ?v = "markExitExpected name (record_edge name kLoaded kStopping None None None w)\<lparr>w_containers := c\<rparr>"
  have okw: "ok (w_containers w)" and quiet: "expectedExits w = []" "map_of (inFlightLoads w) name = None"
    and ldr: "loaderFor (w_registry w) name = Some i"
    using fleet loaded i has by (auto simp: fleet_inv_def)
  note ends = terminate_ends [OF i okw stop] and gone = terminate_gone [OF i okw stop]
  have v: "map_of (inFlightLoads ?v) name = None" "name \<in> set (expectedExits ?v)" using quiet by simp_all
  have ds: "ds = [] \<or> ds = [name]" using ends by (simp add: ends_only_def)
  let ?u = "handleDeaths E ds ?v"
  have u: "?u = (if ds = [] then ?v else diedExpected E name ?v)"
    using ds onTerminated_quiet(1) [OF v, of E] by (auto simp: handleDeaths_def)
  note f = finishUnload_frames [OF fin, unfolded u]
  have reg: "w_registry w' = markUnloaded name (w_registry w)" using f(2) by (simp split: if_splits)
  have cont: "w_containers w' = c" using f(3) by (simp split: if_splits)
  have nobody: "\<not> l_hasModule (ls ! j) name c" if "j < length ls" for j
    using that gone others(4) [OF i that _ stop, of name] fleet_has(2) [OF fleet that, of name] ldr by (cases "j = i") auto
  have same: "l_hasModule (ls ! j) n c = l_hasModule (ls ! j) n (w_containers w)" if "j < length ls" "n \<noteq> name" for j n
    using that ends others(4) [OF i that(1) _ stop, of n] by (cases "j = i") (auto simp: ends_only_def)
  have basic: "w_loaders w' = ls" "expectedExits w' = []" "inFlightLoads w' = inFlightLoads w"
    using f(4-6) fleet_basic(1) [OF fleet] marked_alone [OF quiet(1)] by (simp_all split: if_splits)
  have "isLoaded (w_registry w') n \<and> loaderFor (w_registry w') n = Some j" if "j < length ls" "l_hasModule (ls ! j) n c" for j n
    using that nobody [OF that(1)] same [OF that(1), of n] fleet_has [OF fleet that(1), of n] by (cases "n = name") (auto simp: reg)
  moreover have "ok c" using ends by (simp add: ends_only_def)
  ultimately have "fleet_inv ls ok w'"
    using basic fleet_basic(4,5) [OF fleet] unfolding fleet_inv_def reg cont by simp
  moreover have "world_feed w' = world_feed w @ (if listening w \<and> name \<noteq> [] then unload_edges name w True else [])"
    using f(11) loaded quiet by (auto simp: unload_edges_def world_feed_record)
  ultimately show ?thesis
    using f(1,7-9) i has nobody same loaded reg cont unfolding unload_done_def only_moves_def running_def
    by auto
qed

lemma unload_done:
  assumes fleet: "fleet_inv ls ok w" and unload: "unloadModuleInternal E name w = (b, w')"
  shows "unload_done ls ok name w b w'"
proof (cases "isLoaded (w_registry w) name")
  case False
  then show ?thesis
    using unload fleet fleet_not_running [OF fleet False] by (simp add: unloadModuleInternal_def unload_done_def unload_edges_def)
next
  case True
  let ?v = "record_edge name kLoaded kStopping None None None w"
  have ls: "w_loaders w = ls" using fleet by (simp add: fleet_inv_def)
  have undone: "unload_done ls ok name w False (record_edge name kStopping kLoaded None None r ?v)"
    if "\<not> running ls name (w_containers w)" for r
    using that fleet True by (simp add: unload_done_def only_moves_def unload_edges_def world_feed_record)
  show ?thesis
  proof (cases "loaderFor (w_registry w) name")
    case None
    then have none: "\<not> running ls name (w_containers w)" using fleet by (auto simp: fleet_inv_def running_def)
    then have "loaders_terminate ls name (w_containers w) = (False, [], w_containers w)"
      by (intro loaders_terminate_none) (auto simp: running_def in_set_conv_nth)
    with unload True None ls have b: "\<not> b" and
      w': "w' = record_edge name kStopping kLoaded None None (Some ''no live module entry; teardown not started'')
        (snd (consumeExpectedExit name (handleDeaths E [] (markExitExpected name ?v\<lparr>w_containers := w_containers w\<rparr>))))"
      by (auto simp: unloadModuleInternal_def Let_def)
    have "snd (consumeExpectedExit name (handleDeaths E [] (markExitExpected name ?v\<lparr>w_containers := w_containers w\<rparr>))) = ?v"
      using fleet by (cases w) (simp add: handleDeaths_def consumeExpectedExit_def markExitExpected_def record_edge_def
          fleet_inv_def uset_insert_def)
    then show ?thesis using undone [OF none] b w' by simp
  next
    case (Some i)
    have i: "i < length ls" by (rule fleet_bounded [OF fleet True Some])
    note run = fleet_running [OF fleet Some i]
    obtain ds c where stop: "l_terminate (ls ! i) name (w_containers w) = (ds, c)"
      by (cases "l_terminate (ls ! i) name (w_containers w)")
    show ?thesis
    proof (cases "l_hasModule (ls ! i) name (w_containers w)")
      case False
      with unload True Some ls have "(b, w') = (False, record_edge name kStopping kLoaded None None
          (Some ''no module entry found; teardown not started'') ?v)"
        by (simp add: unloadModuleInternal_def Let_def)
      with undone False run show ?thesis by simp
    next
      case has: True
      from unload True Some ls has stop
      have "finishUnload E name (handleDeaths E ds (markExitExpected name ?v\<lparr>w_containers := c\<rparr>)) = (b, w')"
        by (simp add: unloadModuleInternal_def Let_def)
      with teardown_done [OF fleet True i has stop] show ?thesis by simp
    qed
  qed
qed

end

section \<open>A death nobody asked for\<close>

text \<open>A container announces that module \<open>n\<close>, which loader \<open>i\<close> ran, has ended.\<close>

definition container_death :: "'c loaders \<Rightarrow> ('c \<Rightarrow> bool) \<Rightarrow> nat \<Rightarrow> string \<Rightarrow> 'c \<Rightarrow> 'c \<Rightarrow> bool" where
  "container_death ls ok i n c c' \<longleftrightarrow> i < length ls \<and> l_hasModule (ls ! i) n c
     \<and> ends_only ok (l_hasModule (ls ! i)) n c [n] c'
     \<and> (\<forall>j m. j < length ls \<longrightarrow> j \<noteq> i \<longrightarrow> l_hasModule (ls ! j) m c' = l_hasModule (ls ! j) m c)"

lemma crash_fleet:
  assumes fleet: "fleet_inv ls ok w" and death: "container_death ls ok i n (w_containers w) c'"
    and w': "w' = onTerminated E n (w\<lparr>w_containers := c'\<rparr>)"
  shows "fleet_inv ls ok w'" and "only_moves n w w'" and "\<not> isLoaded (w_registry w') n"
    and "isLoaded (w_registry w) n" and "insideLoad w' = insideLoad w" and "listening w' = listening w"
    and "world_feed w' = world_feed w @ (if listening w \<and> n \<noteq> [] then [(n, kLoaded, kError)] else [])"
    and "scheduledRestarts w' = scheduledRestarts w @
      (let v = fst (onUnexpectedExit n (e_steady E) (w_supervisor w)) in if decision v = Restart then [(delay v, n)] else [])"
    and "w_supervisor w' = snd (onUnexpectedExit n (e_steady E) (w_supervisor w))"
proof -
  have i: "i < length ls" "l_hasModule (ls ! i) n (w_containers w)" using death by (simp_all add: container_death_def)
  note loaded = fleet_has [OF fleet i]
  show "isLoaded (w_registry w) n" by (rule loaded(1))
  let ?v = "w\<lparr>w_containers := c'\<rparr>"
  have "map_of (inFlightLoads ?v) n = None" "n \<notin> set (expectedExits ?v)"
    using fleet_basic(3,5) [OF fleet] loaded(1) by simp_all
  then have eq: "w' = superviseUnexpectedExit E n (diedAlone E n ?v)"
    unfolding w' by (rule onTerminated_quiet(2))
  have has: "l_hasModule (ls ! j) m (w_containers w) \<and> m \<noteq> n" if "j < length ls" "l_hasModule (ls ! j) m c'" for j m
  proof (cases "j = i")
    case True
    then show ?thesis using that death by (auto simp: container_death_def ends_only_def)
  next
    case False
    then have "l_hasModule (ls ! j) m (w_containers w)" using that death by (simp add: container_death_def)
    moreover from this have "m \<noteq> n" using fleet_has(2) [OF fleet that(1)] loaded(2) False by auto
    ultimately show ?thesis by simp
  qed
  have run: "isLoaded (w_registry w') m \<and> loaderFor (w_registry w') m = Some j" if "j < length ls" "l_hasModule (ls ! j) m c'" for j m
    using has [OF that] fleet_has [OF fleet that(1)] by (simp add: eq)
  have "ok c'" using death by (simp add: container_death_def ends_only_def)
  then show "fleet_inv ls ok w'"
    using fleet_basic [OF fleet] run unfolding fleet_inv_def by (simp add: eq)
  show "only_moves n w w'" "\<not> isLoaded (w_registry w') n" "insideLoad w' = insideLoad w" "listening w' = listening w"
    "world_feed w' = world_feed w @ (if listening w \<and> n \<noteq> [] then [(n, kLoaded, kError)] else [])"
    by (simp_all add: eq only_moves_def)
  show "scheduledRestarts w' = scheduledRestarts w @
      (let v = fst (onUnexpectedExit n (e_steady E) (w_supervisor w)) in if decision v = Restart then [(delay v, n)] else [])"
    "w_supervisor w' = snd (onUnexpectedExit n (e_steady E) (w_supervisor w))"
    by (simp_all add: eq supervise_result)
qed

section \<open>Properties\<close>

text \<open>
  C12. An unload answers true exactly when a container ran the module. Then the module is gone from its
  container and from the loaded set, the feed got \<open>loaded -> stopping\<close> and exactly one
  \<open>stopping -> unloaded\<close>, whether or not the container called back, no restart was scheduled and no announced
  exit is left over to disguise the next crash. Otherwise the entry stays as it was and the feed is
  walked back.
\<close>

theorem unload_outcome:
  assumes "loader_fleet ls ok" and "fleet_inv ls ok w" and "unloadModuleInternal E name w = (b, w')"
  shows "b = running ls name (w_containers w) \<and> \<not> running ls name (w_containers w')
    \<and> isLoaded (w_registry w') name = (isLoaded (w_registry w) name \<and> \<not> b)
    \<and> (\<forall>n. n \<noteq> name \<longrightarrow> isLoaded (w_registry w') n = isLoaded (w_registry w) n
          \<and> running ls n (w_containers w') = running ls n (w_containers w))
    \<and> expectedExits w' = [] \<and> scheduledRestarts w' = scheduledRestarts w
    \<and> world_feed w' = world_feed w @ (if listening w \<and> name \<noteq> [] then unload_edges name w b else [])"
  using loader_fleet.unload_done [OF assms] by (simp add: unload_done_def only_moves_def fleet_inv_def)

definition sampleLoaded :: "inproc world" where
  "sampleLoaded = snd (loadModuleInternal sampleMgr ''a'' sampleWorld)"

lemma sample_loaded_fleet: "fleet_inv (nativeLoaders sample_env) (inproc_names_ok sample_env) sampleLoaded"
  using native.load_done [OF sample_fleet, of sampleMgr "''a''"]
  by (metis load_done_def prod.collapse sampleLoaded_def)

theorem unload_outcome_witness:
  "fst (unloadModuleInternal sampleMgr ''a'' sampleLoaded)
   \<and> \<not> isLoaded (w_registry (snd (unloadModuleInternal sampleMgr ''a'' sampleLoaded))) ''a''
   \<and> world_feed (snd (unloadModuleInternal sampleMgr ''a'' sampleLoaded)) =
       world_feed sampleLoaded @ [(''a'', kLoaded, kStopping), (''a'', kStopping, kUnloaded)]"
proof -
  have "fst (unloadModuleInternal sampleMgr ''a'' sampleLoaded)" "listening sampleLoaded"
    "unload_edges ''a'' sampleLoaded True = [(''a'', kLoaded, kStopping), (''a'', kStopping, kUnloaded)]"
    unfolding sampleLoaded_def by code_simp+
  moreover obtain b w' where u: "unloadModuleInternal sampleMgr ''a'' sampleLoaded = (b, w')"
    by (cases "unloadModuleInternal sampleMgr ''a'' sampleLoaded")
  ultimately show ?thesis
    using unload_outcome [OF native.loader_fleet_axioms sample_loaded_fleet u] by simp
qed

text \<open>
  A module that ends without being asked to is marked not loaded, is reported once as
  \<open>loaded -> error\<close>, and is handed to the supervisor, whose verdict alone decides whether a restart
  is scheduled. No other module is touched.
\<close>

theorem crash_supervised:
  assumes "fleet_inv ls ok w" and "container_death ls ok i n (w_containers w) c'" and "listening w" and "n \<noteq> []"
  shows "let w' = onTerminated E n (w\<lparr>w_containers := c'\<rparr>); v = fst (onUnexpectedExit n (e_steady E) (w_supervisor w)) in
      fleet_inv ls ok w' \<and> \<not> isLoaded (w_registry w') n
    \<and> (\<forall>m. m \<noteq> n \<longrightarrow> isLoaded (w_registry w') m = isLoaded (w_registry w) m)
    \<and> world_feed w' = world_feed w @ [(n, kLoaded, kError)]
    \<and> scheduledRestarts w' = scheduledRestarts w @ (if decision v = Restart then [(delay v, n)] else [])"
  using crash_fleet [OF assms(1,2) refl] assms(3,4) by (simp add: Let_def only_moves_def)

text \<open>A worker that took its module down with it: the entry is gone from the container.\<close>

definition sampleCrashed :: inproc where
  "sampleCrashed = (w_containers sampleLoaded)\<lparr>ip_modules := []\<rparr>"

theorem crash_supervised_witness:
  "let w' = onTerminated sampleMgr ''a'' (sampleLoaded\<lparr>w_containers := sampleCrashed\<rparr>) in
      fleet_inv (nativeLoaders sample_env) (inproc_names_ok sample_env) w' \<and> \<not> isLoaded (w_registry w') ''a''
    \<and> world_feed w' = world_feed sampleLoaded @ [(''a'', kLoaded, kError)]"
proof -
  have "keys (ip_modules (w_containers sampleLoaded)) = [''a'']" unfolding sampleLoaded_def by code_simp
  moreover have "inproc_names_ok sample_env (w_containers sampleLoaded)" by (rule fleet_basic(2) [OF sample_loaded_fleet])
  ultimately have "container_death (nativeLoaders sample_env) (inproc_names_ok sample_env) 0 ''a'' (w_containers sampleLoaded) sampleCrashed"
    by (auto simp: container_death_def nativeLoaders_def compositeModuleLoader_def inprocContainer_def inproc_hasModule_def
        ends_only_def sampleCrashed_def inproc_names_ok_def)
  moreover have "listening sampleLoaded" unfolding sampleLoaded_def by code_simp
  ultimately show ?thesis
    using crash_supervised [OF sample_loaded_fleet, of 0 "''a''" sampleCrashed sampleMgr] by (simp add: Let_def)
qed

end
