(* ===== verification/ManagerFleet.thy ===== *)
theory ManagerFleet
  imports ManagerUnload
begin

text \<open>
  The operations on many modules at once: a load with dependencies, a cascade, the teardown of the fleet
  (\<open>module_manager.cpp\<close> 1486-1751), on a loader table that keeps the contract.
\<close>

section \<open>Announced deaths of several modules\<close>

text \<open>What the deaths \<open>ds\<close>, all announced, leave behind.\<close>

definition all_expected :: "string list \<Rightarrow> 'c world \<Rightarrow> 'c world \<Rightarrow> bool" where
  "all_expected ds w w' \<longleftrightarrow> graph_of (w_registry w') = graph_of (w_registry w)
     \<and> (\<forall>n. isLoaded (w_registry w') n = (isLoaded (w_registry w) n \<and> n \<notin> set ds))
     \<and> (\<forall>n. loaderFor (w_registry w') n = loaderFor (w_registry w) n)
     \<and> registry_ok (w_registry w') = registry_ok (w_registry w)
     \<and> w_containers w' = w_containers w \<and> w_loaders w' = w_loaders w \<and> inFlightLoads w' = inFlightLoads w
     \<and> insideLoad w' = insideLoad w \<and> listening w' = listening w
     \<and> w_supervisor w' = w_supervisor w \<and> scheduledRestarts w' = scheduledRestarts w
     \<and> world_feed w' = world_feed w @ (if listening w then map (\<lambda>n. (n, kStopping, kUnloaded)) (filter (\<lambda>n. n \<noteq> []) ds) else [])"

lemma handleDeaths_expected:
  assumes "distinct ds" and "\<And>n. n \<in> set ds \<Longrightarrow> n \<in> set (expectedExits w) \<and> map_of (inFlightLoads w) n = None"
  shows "all_expected ds w (handleDeaths E ds w)"
  using assms
proof (induction ds arbitrary: w)
  case Nil
  then show ?case by (simp add: handleDeaths_def all_expected_def)
next
  case (Cons d ds)
  let ?v = "diedExpected E d w"
  have v: "onTerminated E d w = ?v" using Cons.prems(2) [of d] onTerminated_quiet(1) [of w d E] by simp
  have "all_expected ds ?v (handleDeaths E ds ?v)"
    using Cons.prems by (intro Cons.IH) auto
  then show ?case
    by (auto simp: handleDeaths_def v all_expected_def)
qed

section \<open>The teardown of the fleet\<close>

lemma fold_mark:
  "expectedExits (fold markExitExpected ns w) = fold uset_insert ns (expectedExits w)"
  "w_registry (fold markExitExpected ns w) = w_registry w" "w_loaders (fold markExitExpected ns w) = w_loaders w"
  "w_containers (fold markExitExpected ns w) = w_containers w" "inFlightLoads (fold markExitExpected ns w) = inFlightLoads w"
  "insideLoad (fold markExitExpected ns w) = insideLoad w" "listening (fold markExitExpected ns w) = listening w"
  "w_supervisor (fold markExitExpected ns w) = w_supervisor w" "scheduledRestarts (fold markExitExpected ns w) = scheduledRestarts w"
  "world_feed (fold markExitExpected ns w) = world_feed w"
  by (induction ns arbitrary: w) (simp_all add: markExitExpected_def [of _ w for w])

lemma set_fold_uset_insert [simp]: "set (fold uset_insert ns xs) = set ns \<union> set xs"
  by (induction ns arbitrary: xs) auto

lemma set_loadedModuleNames:
  "hash_order ho \<Longrightarrow> registry_ok r \<Longrightarrow> set (loadedModuleNames ho r) = {n. isLoaded r n}"
  using hash_orderD(2) [of ho "keys (m_modules r)"] known_if_loaded [of r]
  by (auto simp: loadedModuleNames_def registry_ok_def umap_ok_def isKnown_def)

context loader_fleet begin

text \<open>Every loader tears down its own, the others' modules stay as they are.\<close>

lemma terminateAll_suffix:
  assumes "ok c" and "k \<le> length ls" and "loaders_terminateAll (drop k ls) c = (ds, c')"
    and "\<And>i j n. i < length ls \<Longrightarrow> j < length ls \<Longrightarrow> l_hasModule (ls ! i) n c \<Longrightarrow> l_hasModule (ls ! j) n c \<Longrightarrow> i = j"
  shows "ok c' \<and> distinct ds \<and> (\<forall>n \<in> set ds. \<exists>i. k \<le> i \<and> i < length ls \<and> l_hasModule (ls ! i) n c)
    \<and> (\<forall>i n. i < length ls \<longrightarrow> l_hasModule (ls ! i) n c' = (i < k \<and> l_hasModule (ls ! i) n c))"
  using assms
proof (induction "length ls - k" arbitrary: k c ds)
  case 0
  then have "drop k ls = []" by simp
  then show ?case using 0 by auto
next
  case (Suc m)
  then have k: "k < length ls" by simp
  obtain d1 c1 where first: "l_terminateAll (ls ! k) c = (d1, c1)" by (cases "l_terminateAll (ls ! k) c")
  obtain d2 where rest: "loaders_terminateAll (drop (Suc k) ls) c1 = (d2, c')" and ds: "ds = d1 @ d2"
    using Suc.prems(3) first by (auto simp: Cons_nth_drop_Suc [OF k, symmetric] split: prod.splits)
  note ok1 = terminateAll_ok [OF k Suc.prems(1) first]
  have has1: "l_hasModule (ls ! i) n c1 = (i \<noteq> k \<and> l_hasModule (ls ! i) n c)" if "i < length ls" for i n
    using others(5) [OF k that _ first, of n] terminateAll_gone [OF k Suc.prems(1) first, of n] by (cases "i = k") auto
  have "ok c' \<and> distinct d2 \<and> (\<forall>n \<in> set d2. \<exists>i. Suc k \<le> i \<and> i < length ls \<and> l_hasModule (ls ! i) n c1)
    \<and> (\<forall>i n. i < length ls \<longrightarrow> l_hasModule (ls ! i) n c' = (i < Suc k \<and> l_hasModule (ls ! i) n c1))"
    using Suc.hyps(2) k ok1 rest Suc.prems(4) has1 by (intro Suc.hyps(1)) auto
  moreover have "set d1 \<inter> set d2 = {}"
    using calculation ok1 has1 Suc.prems(4) [of k] k by fastforce
  ultimately show ?case
    using ok1 has1 k unfolding ds by (auto simp: less_Suc_eq) (metis Suc_leD le_refl)+
qed

text \<open>The announced teardown: nothing runs afterwards, and the feed gets one orderly end for each death
  that was announced.\<close>

definition orderly :: "string list \<Rightarrow> 'c world \<Rightarrow> 'c world \<Rightarrow> bool" where
  "orderly ds w w' \<longleftrightarrow> distinct ds \<and> (\<forall>n \<in> set ds. isLoaded (w_registry w) n)
     \<and> world_feed w' = world_feed w @ (if listening w then map (\<lambda>n. (n, kStopping, kUnloaded)) (filter (\<lambda>n. n \<noteq> []) ds) else [])"

lemma teardown_fleet:
  assumes fleet: "fleet_inv ls ok w" and ho: "hash_order (e_hash E)"
  shows "\<exists>ds. orderly ds w (teardownFleet E w)" and "\<not> running ls n (w_containers (teardownFleet E w))"
    and "w_loaders (teardownFleet E w) = ls" and "ok (w_containers (teardownFleet E w))"
    and "expectedExits (teardownFleet E w) = []" and "insideLoad (teardownFleet E w) = insideLoad w"
    and "inFlightLoads (teardownFleet E w) = inFlightLoads w" and "listening (teardownFleet E w) = listening w"
    and "scheduledRestarts (teardownFleet E w) = scheduledRestarts w" and "w_supervisor (teardownFleet E w) = w_supervisor w"
    and "registry_ok (w_registry (teardownFleet E w))" and "graph_of (w_registry (teardownFleet E w)) = graph_of (w_registry w)"
proof -
  let ?m = "markAllLoadedExitsExpected E w"
  have m: "w_loaders ?m = ls" "w_containers ?m = w_containers w" "w_registry ?m = w_registry w" "inFlightLoads ?m = inFlightLoads w"
    "insideLoad ?m = insideLoad w" "listening ?m = listening w" "scheduledRestarts ?m = scheduledRestarts w"
    "w_supervisor ?m = w_supervisor w" "world_feed ?m = world_feed w"
    using fleet_basic(1) [OF fleet] by (simp_all add: markAllLoadedExitsExpected_def fold_mark)
  have reg: "registry_ok (w_registry w)" using fleet_basic(4) [OF fleet] by (simp add: registry_fit_def)
  have marked: "set (expectedExits ?m) = {n. isLoaded (w_registry w) n}"
    using set_loadedModuleNames [OF ho reg] fleet_basic(3) [OF fleet] by (simp add: markAllLoadedExitsExpected_def fold_mark)
  obtain ds c where down: "loaders_terminateAll ls (w_containers w) = (ds, c)" by (cases "loaders_terminateAll ls (w_containers w)")
  have unique: "i = j" if "i < length ls" "j < length ls" "l_hasModule (ls ! i) n (w_containers w)" "l_hasModule (ls ! j) n (w_containers w)"
    for i j n
    using fleet_has(2) [OF fleet that(1,3)] fleet_has(2) [OF fleet that(2,4)] by simp
  have t: "ok c" "distinct ds" "\<forall>n \<in> set ds. \<exists>i < length ls. l_hasModule (ls ! i) n (w_containers w)"
    "\<forall>i n. i < length ls \<longrightarrow> \<not> l_hasModule (ls ! i) n c"
    using terminateAll_suffix [OF fleet_basic(2) [OF fleet], of 0 ds c] down unique by auto
  have loaded: "isLoaded (w_registry w) n" if "n \<in> set ds" for n
    using t(3) that fleet_has(1) [OF fleet] by blast
  let ?u = "handleDeaths E ds (?m\<lparr>w_containers := c\<rparr>)"
  have u: "all_expected ds (?m\<lparr>w_containers := c\<rparr>) ?u"
    using t(2) loaded marked fleet_basic(5) [OF fleet] by (intro handleDeaths_expected) (auto simp: m)
  have eq: "teardownFleet E w = clearExpectedExits ?u"
    by (simp add: teardownFleet_def Let_def m down)
  have "orderly ds w (teardownFleet E w)"
    unfolding orderly_def
  proof (intro conjI ballI)
    show "world_feed (teardownFleet E w) = world_feed w @
        (if listening w then map (\<lambda>n. (n, kStopping, kUnloaded)) (filter (\<lambda>n. n \<noteq> []) ds) else [])"
      using u unfolding all_expected_def eq by (simp add: m clearExpectedExits_def)
  qed (use t(2) loaded in simp_all)
  then show "\<exists>ds. orderly ds w (teardownFleet E w)" by blast
  show "\<not> running ls n (w_containers (teardownFleet E w))" using u t(4)
    by (simp add: eq clearExpectedExits_def running_def all_expected_def)
  show "w_loaders (teardownFleet E w) = ls" "ok (w_containers (teardownFleet E w))"
    "expectedExits (teardownFleet E w) = []" "insideLoad (teardownFleet E w) = insideLoad w"
    "inFlightLoads (teardownFleet E w) = inFlightLoads w" "listening (teardownFleet E w) = listening w"
    "scheduledRestarts (teardownFleet E w) = scheduledRestarts w" "w_supervisor (teardownFleet E w) = w_supervisor w"
    "registry_ok (w_registry (teardownFleet E w))" "graph_of (w_registry (teardownFleet E w)) = graph_of (w_registry w)"
    using u t(1) reg by (simp_all add: eq clearExpectedExits_def all_expected_def m)
qed

end

lemma isLoaded_clear [simp]:
  "\<not> isLoaded (clearLoaded r) n" "\<not> isLoaded (clearRegistry r) n"
  "registry_ok (clearLoaded r) = registry_ok r" "registry_ok (clearRegistry r)"
  by (simp_all add: isLoaded_def clearLoaded_def clearRegistry_def registry_ok_def split: option.split)

text \<open>Nothing runs, nothing is loaded, and no death was taken for a crash.\<close>

definition fleet_down :: "'c loaders \<Rightarrow> ('c \<Rightarrow> bool) \<Rightarrow> 'c world \<Rightarrow> 'c world \<Rightarrow> bool" where
  "fleet_down ls ok w w' \<longleftrightarrow> fleet_inv ls ok w' \<and> \<not> insideLoad w' \<and> (\<forall>n. \<not> isLoaded (w_registry w') n)
     \<and> (\<forall>n. \<not> running ls n (w_containers w')) \<and> scheduledRestarts w' = scheduledRestarts w
     \<and> (\<exists>ds. distinct ds \<and> (\<forall>n \<in> set ds. isLoaded (w_registry w) n)
          \<and> world_feed w' = world_feed w @ (if listening w then map (\<lambda>n. (n, kStopping, kUnloaded)) (filter (\<lambda>n. n \<noteq> []) ds) else []))"

lemma fleet_inv_flush [simp]: "fleet_inv ls ok (flushFeed E w) = fleet_inv ls ok w"
  by (simp add: fleet_inv_def)

context loader_fleet begin

lemma inside_fleet [simp]: "fleet_inv ls ok (w\<lparr>insideLoad := b\<rparr>) = fleet_inv ls ok w"
  by (simp add: fleet_inv_def)

lemma down_fleet:
  assumes "fleet_inv ls ok w" and "hash_order (e_hash E)" and "\<not> insideLoad w"
  shows "mgr_terminateAll E w = Some ((), w') \<Longrightarrow> fleet_down ls ok w w'"
    and "mgr_clear E w = Some ((), w') \<Longrightarrow> fleet_down ls ok w w'"
proof -
  let ?w = "w\<lparr>insideLoad := True\<rparr>"
  have fw: "fleet_inv ls ok ?w" using assms(1) by simp
  note t = teardown_fleet [OF fw assms(2)]
  obtain ds where ds: "orderly ds ?w (teardownFleet E ?w)" using t(1) by blast
  have nobody: "\<not> l_hasModule (ls ! i) n (w_containers (teardownFleet E ?w))" if "i < length ls" for i n
    using t(2) that by (simp add: running_def)
  have "fleet_down ls ok w w'" if w': "w' = flushFeed E v" and v: "world_feed v = world_feed (teardownFleet E ?w)"
      "w_containers v = w_containers (teardownFleet E ?w)" "w_loaders v = w_loaders (teardownFleet E ?w)"
      "expectedExits v = expectedExits (teardownFleet E ?w)" "scheduledRestarts v = scheduledRestarts (teardownFleet E ?w)"
      "\<not> insideLoad v" "registry_ok (w_registry v)" "\<And>n. \<not> isLoaded (w_registry v) n" for v
    unfolding fleet_down_def w'
  proof (intro conjI allI exI [of _ ds])
    show "fleet_inv ls ok (flushFeed E v)"
      using v t(3-5) nobody by (simp add: fleet_inv_def registry_fit_def)
  qed (use v t ds in \<open>simp_all add: orderly_def\<close>)
  note down = this
  show "fleet_down ls ok w w'" if "mgr_terminateAll E w = Some ((), w')"
  proof -
    have "w' = flushFeed E (teardownFleet E ?w\<lparr>w_registry := clearLoaded (w_registry (teardownFleet E ?w)), insideLoad := False\<rparr>)"
      using that assms(3) by (simp add: mgr_terminateAll_def withEntry_def Let_def)
    then show ?thesis by (rule down) (use t(11) in simp_all)
  qed
  show "fleet_down ls ok w w'" if "mgr_clear E w = Some ((), w')"
  proof -
    have "w' = flushFeed E (teardownFleet E ?w\<lparr>w_registry := clearRegistry (w_registry (teardownFleet E ?w)), moduleTransportsMap := [],
        accessPolicyJson := [], parsedEnforcePolicy := None, hostStaysSilent := False,
        w_supervisor := clearDeaths (w_supervisor (teardownFleet E ?w)), insideLoad := False\<rparr>)"
      using that assms(3) by (simp add: mgr_clear_def withEntry_def Let_def)
    then show ?thesis by (rule down) (simp_all add: world_feed_def)
  qed
qed

end

section \<open>Several loads and several unloads\<close>

context loader_fleet begin

lemma loadEach_done:
  assumes "fleet_inv ls ok w" and "distinct ns" and "loadEach E tolerated ns w = (r, w')"
  shows "fleet_inv ls ok w' \<and> insideLoad w' = insideLoad w \<and> graph_of (w_registry w') = graph_of (w_registry w)
    \<and> (\<forall>n. isLoaded (w_registry w) n \<longrightarrow> isLoaded (w_registry w') n)
    \<and> (\<forall>n. n \<notin> set ns \<longrightarrow> isLoaded (w_registry w') n = isLoaded (w_registry w) n)
    \<and> (\<forall>b. r = Inr b \<longrightarrow> b = (\<forall>n \<in> set ns. tolerated n \<or> isLoaded (w_registry w') n))"
  using assms
proof (induction ns arbitrary: w r)
  case (Cons n ns)
  obtain r1 w1 where one: "loadModuleInternal E n w = (r1, w1)" by (cases "loadModuleInternal E n w")
  have d: "fleet_inv ls ok w1" "insideLoad w1 = insideLoad w" "graph_of (w_registry w1) = graph_of (w_registry w)"
    "\<And>m. m \<noteq> n \<Longrightarrow> isLoaded (w_registry w1) m = isLoaded (w_registry w) m"
    "\<And>b. r1 = Inr b \<Longrightarrow> isLoaded (w_registry w1) n = b"
    using load_done [OF Cons.prems(1) one] by (simp_all add: load_done_def only_moves_def)
  have "isLoaded (w_registry w1) n" if "isLoaded (w_registry w) n"
    using one that known_if_loaded [OF that] by (simp add: loadModuleInternal_def)
  then have kept: "isLoaded (w_registry w1) m" if "isLoaded (w_registry w) m" for m
    using d(4) [of m] that by (cases "m = n") auto
  show ?case
  proof (cases r1)
    case (Inl x)
    with Cons.prems(3) one d kept show ?thesis by auto
  next
    case (Inr b1)
    obtain r2 where rest: "loadEach E tolerated ns w1 = (r2, w')"
      and r: "r = (case r2 of Inl x \<Rightarrow> Inl x | Inr b \<Rightarrow> Inr ((b1 \<or> tolerated n) \<and> b))"
      using Cons.prems(3) one Inr by (auto split: prod.splits sum.splits)
    note IH = Cons.IH [OF d(1) _ rest]
    have "isLoaded (w_registry w') n = b1" using IH d(5) [OF Inr] Cons.prems(2) by simp
    then show ?thesis using IH d kept Cons.prems(2) r by (auto split: sum.splits)
  qed
qed simp

lemma unloadEach_done:
  assumes "fleet_inv ls ok w" and "distinct ns" and "unloadEach E ns w = (b, w')"
  shows "fleet_inv ls ok w' \<and> insideLoad w' = insideLoad w \<and> graph_of (w_registry w') = graph_of (w_registry w)
    \<and> scheduledRestarts w' = scheduledRestarts w
    \<and> (\<forall>n. isLoaded (w_registry w') n \<longrightarrow> isLoaded (w_registry w) n)
    \<and> (\<forall>n. n \<notin> set ns \<longrightarrow> isLoaded (w_registry w') n = isLoaded (w_registry w) n)
    \<and> b = (\<forall>n \<in> set ns. \<not> isLoaded (w_registry w') n)"
  using assms
proof (induction ns arbitrary: w b)
  case (Cons n ns)
  show ?case
  proof (cases "isLoaded (w_registry w) n")
    case False
    then have "unloadEach E ns w = (b, w')" using Cons.prems(3) by simp
    note IH = Cons.IH [OF Cons.prems(1) _ this]
    with False Cons.prems(2) show ?thesis by auto
  next
    case True
    obtain b1 w1 where one: "unloadModuleInternal E n w = (b1, w1)" by (cases "unloadModuleInternal E n w")
    obtain b2 where rest: "unloadEach E ns w1 = (b2, w')" and b: "b = (b1 \<and> b2)"
      using Cons.prems(3) one True by (auto split: prod.splits)
    have d: "fleet_inv ls ok w1" "insideLoad w1 = insideLoad w" "graph_of (w_registry w1) = graph_of (w_registry w)"
      "scheduledRestarts w1 = scheduledRestarts w"
      "\<And>m. m \<noteq> n \<Longrightarrow> isLoaded (w_registry w1) m = isLoaded (w_registry w) m"
      "isLoaded (w_registry w1) n = (\<not> b1)"
      using unload_done [OF Cons.prems(1) one] True by (simp_all add: unload_done_def only_moves_def)
    note IH = Cons.IH [OF d(1) _ rest]
    have "isLoaded (w_registry w') n = (\<not> b1)" using IH d(6) Cons.prems(2) by simp
    then show ?thesis using IH d True Cons.prems(2) b by auto metis+
  qed
qed simp

end

section \<open>The order of a cascade\<close>

lemma fold_uset_insert_new: "distinct xs \<Longrightarrow> set xs \<inter> set ys = {} \<Longrightarrow> fold uset_insert xs ys = ys @ xs"
  by (induction xs arbitrary: ys) (auto simp: uset_insert_def)

lemma fold_uset_insert_old: "set xs \<subseteq> set ys \<Longrightarrow> fold uset_insert xs ys = ys"
  by (induction xs) (auto simp: uset_insert_def)

lemma distinct_fold_uset_insert: "distinct ys \<Longrightarrow> distinct (fold uset_insert xs ys)"
  by (induction xs arbitrary: ys) auto

lemma load_before_rev:
  assumes "load_before ord d m" and "P d" and "P m"
  shows "load_before (filter P (rev ord)) m d"
proof -
  obtain pre post where ord: "ord = pre @ m # post" "d \<in> set pre" using assms(1) by (auto simp: load_before_def)
  obtain xs ys where "rev pre = xs @ d # ys" using ord(2) by (metis set_rev split_list)
  then have "filter P (rev ord) = (filter P (rev post) @ m # filter P xs) @ d # filter P ys"
    using assms(2,3) by (simp add: ord(1))
  then show ?thesis
    unfolding load_before_def by (intro exI [of _ "filter P (rev post) @ m # filter P xs"] exI [of _ "filter P ys"]) simp
qed

text \<open>The loaded transitive dependents of a module.\<close>

definition loaded_dependents :: "registry \<Rightarrow> string \<Rightarrow> string set" where
  "loaded_dependents r name = {n. isLoaded r n \<and> n \<noteq> name \<and> (name, n) \<in> (succ_rel (directDependents r))\<^sup>+}"

lemma teardownOrder_spec:
  assumes ho: "hash_order (e_hash E)" and reg: "registry_ok r" and loaded: "isLoaded r name"
  shows "\<exists>order. teardownOrder E name r = Some order \<and> distinct order \<and> set order = insert name (loaded_dependents r name)
    \<and> (acyclic (edges_within (required (isKnown r) (directDependencies r) (name # order)) (directDependencies r)) \<longrightarrow>
        (\<forall>m \<in> set order. \<forall>d \<in> set order. d \<in> set (directDependencies r m) \<and> d \<noteq> [] \<longrightarrow> load_before order m d))"
proof -
  have known: "isKnown r name" by (rule known_if_loaded [OF loaded])
  obtain ds where ds: "walk (directDependents r) name = Some ds" "distinct ds"
      "set ds = {n. n \<noteq> name \<and> (name, n) \<in> (succ_rel (directDependents r))\<^sup>+}"
    using walk_closure [OF finite_edges(2)] by blast
  define S where "S = fold uset_insert (filter (\<lambda>d. d \<in> set (loadedModuleNames (e_hash E) r)) ds) [name]"
  have S: "set S = insert name (loaded_dependents r name)"
    using ds(3) set_loadedModuleNames [OF ho reg] by (auto simp: S_def loaded_dependents_def)
  have distS: "distinct S" by (simp add: S_def distinct_fold_uset_insert)
  obtain res mods where res: "resolve (e_hash E) S (isKnown r) (directDependencies r) None OrderOnly = Some res"
    "set mods = required (isKnown r) (directDependencies r) S" "orders (directDependencies r) None mods res"
    by (rule known.resolve_plain [OF ho, of OrderOnly None S r]) auto
  define T where "T = filter (\<lambda>n. n \<in> set S) (rev (rr_order res))"
  have distO: "distinct (rr_order res)" using res(3) by (simp add: orders_def)
  have T: "distinct T" "set T \<subseteq> set S" using distO by (auto simp: T_def)
  define order where "order = fold uset_insert S (fold uset_insert T [])"
  have order: "teardownOrder E name r = Some order"
    using known by (simp add: teardownOrder_def moduleDependents_def isKnown_def ds(1) S_def [symmetric] res(1) T_def order_def del: set_map)
  have setO: "set order = set S" using T by (auto simp: order_def)
  have req: "required (isKnown r) (directDependencies r) (name # order) = required (isKnown r) (directDependencies r) S"
    using setO S by (simp add: required_def insert_absorb)
  have "load_before order m d"
    if ac: "acyclic (edges_within (required (isKnown r) (directDependencies r) (name # order)) (directDependencies r))"
      and m: "m \<in> set order" and d: "d \<in> set order" "d \<in> set (directDependencies r m)" "d \<noteq> []" for m d
  proof -
    have nocycle: "\<not> hasCycle res" using orders_cycle [OF res(3)] ac req res(2) by simp
    have inS: "n \<in> set mods" if "n \<in> set S" for n
      using that S known_if_loaded [of r n] known unfolding res(2) required_def
      by (auto simp: loaded_dependents_def intro: reaches.intros)
    have "load_before (rr_order res) d m"
      using orders_before [OF res(3) nocycle] inS m d setO by simp
    from load_before_rev [OF this, of "\<lambda>n. n \<in> set S"] have "load_before T m d" using m d(1) setO by (simp add: T_def)
    moreover have "set S \<subseteq> set T" using inS orders_full [OF res(3) nocycle] by (auto simp: T_def)
    then have "order = T" using T(1) by (simp add: order_def fold_uset_insert_new fold_uset_insert_old)
    ultimately show ?thesis by simp
  qed
  moreover have "distinct order" by (simp add: order_def distinct_fold_uset_insert)
  ultimately show ?thesis using order setO S by auto
qed

section \<open>The public operations\<close>

lemma withEntry_outside:
  "\<not> insideLoad w \<Longrightarrow> body (w\<lparr>insideLoad := True\<rparr>) = Some (r, v) \<Longrightarrow>
   withEntry E refused body w = Some (r, flushFeed E (v\<lparr>insideLoad := False\<rparr>))"
  by (simp add: withEntry_def)

lemma forget_fleet [simp]: "fleet_inv ls ok (forgetDeaths n w) = fleet_inv ls ok w"
  "w_registry (forgetDeaths n w) = w_registry w" "insideLoad (forgetDeaths n w) = insideLoad w"
  "scheduledRestarts (forgetDeaths n w) = scheduledRestarts w" "world_feed (forgetDeaths n w) = world_feed w"
  "w_containers (forgetDeaths n w) = w_containers w" "listening (forgetDeaths n w) = listening w"
  by (simp_all add: forgetDeaths_def fleet_inv_def)

text \<open>The modules a load of \<open>name\<close> needs, and that it can be resolved.\<close>

definition needed :: "registry \<Rightarrow> string \<Rightarrow> string set" where
  "needed r name = required (isKnown r) (directDependencies r) [name]"

definition resolvable :: "registry \<Rightarrow> string \<Rightarrow> bool" where
  "resolvable r name \<longleftrightarrow> isKnown r name \<and> (\<forall>m \<in> needed r name. \<forall>d \<in> set (hard (directDependencies r) m). isKnown r d)
     \<and> acyclic (edges_within (needed r name) (directDependencies r))"

lemma resolve_needed:
  assumes ho: "hash_order (e_hash E)"
  shows "\<exists>res. resolveFor E [name] OrderOnly w = Some res \<and> rr_ok res = resolvable (w_registry w) name
    \<and> bestEffort res = []
    \<and> (rr_ok res \<longrightarrow> distinct (rr_order res) \<and> set (rr_order res) = needed (w_registry w) name \<and> name \<in> set (rr_order res))"
proof -
  let ?r = "w_registry w"
  obtain res mods where res: "resolve (e_hash E) [name] (isKnown ?r) (directDependencies ?r) (Some (moduleOptionalDependencies ?r)) OrderOnly = Some res"
    "set mods = required (isKnown ?r) (directDependencies ?r) [name]"
    "orders (directDependencies ?r) (Some (moduleOptionalDependencies ?r)) mods res"
    "set (missing res) = {n. \<not> isKnown ?r n \<and> touched (isKnown ?r) (hard (directDependencies ?r)) (set [name]) n}"
    "bestEffort res = []"
    by (rule known.resolve_plain [OF ho, of OrderOnly "Some (moduleOptionalDependencies ?r)" "[name]" ?r]) auto
  have "missing res = [] \<longleftrightarrow> isKnown ?r name \<and> (\<forall>m \<in> needed ?r name. \<forall>d \<in> set (hard (directDependencies ?r) m). isKnown ?r d)"
  proof -
    have "missing res = [] \<longleftrightarrow> set (missing res) = {}" by simp
    also have "\<dots> \<longleftrightarrow> isKnown ?r name \<and> (\<forall>m \<in> needed ?r name. \<forall>d \<in> set (hard (directDependencies ?r) m). isKnown ?r d)"
      unfolding res(4) needed_def required_def touched_def by (auto simp: Ball_def)
    finally show ?thesis .
  qed
  then have ok: "rr_ok res = resolvable ?r name"
    using orders_cycle [OF res(3)] by (auto simp: rr_ok_def resolvable_def res(2) needed_def)
  have "distinct (rr_order res) \<and> set (rr_order res) = needed ?r name \<and> name \<in> set (rr_order res)" if "rr_ok res"
    using orders_full [OF res(3)] that ok res(2) by (auto simp: rr_ok_def needed_def resolvable_def required_def intro: reaches.intros)
  with res(1,5) ok show ?thesis by (auto simp: resolveFor_def)
qed

context loader_fleet begin

lemma fleet_registry_ok: "fleet_inv ls ok w \<Longrightarrow> registry_ok (w_registry w)"
  by (simp add: fleet_inv_def registry_fit_def)

lemma load_dependencies_done:
  assumes fleet: "fleet_inv ls ok w" and out: "\<not> insideLoad w" and ho: "hash_order (e_hash E)"
  shows "\<exists>r w'. mgr_loadModuleWithDependencies E name OrderOnly w = Some (r, w') \<and> fleet_inv ls ok w' \<and> \<not> insideLoad w'
    \<and> (\<forall>n. isLoaded (w_registry w) n \<longrightarrow> isLoaded (w_registry w') n)
    \<and> (\<forall>n. isLoaded (w_registry w') n \<and> \<not> isLoaded (w_registry w) n \<longrightarrow> resolvable (w_registry w) name \<and> n \<in> needed (w_registry w) name)
    \<and> (\<forall>b. r = Inr b \<longrightarrow> b = (resolvable (w_registry w) name \<and> (\<forall>n \<in> needed (w_registry w) name. isLoaded (w_registry w') n)))"
proof -
  let ?v = "(forgetDeaths name w)\<lparr>insideLoad := True\<rparr>"
  have fv: "fleet_inv ls ok ?v" "w_registry ?v = w_registry w" using fleet by simp_all
  obtain res where res: "resolveFor E [name] OrderOnly ?v = Some res" "rr_ok res = resolvable (w_registry w) name" "bestEffort res = []"
    "rr_ok res \<Longrightarrow> distinct (rr_order res) \<and> set (rr_order res) = needed (w_registry w) name \<and> name \<in> set (rr_order res)"
    using resolve_needed [OF ho, of name ?v] unfolding fv(2) by blast
  have nobody: "isBestEffort res n \<longleftrightarrow> False" for n by (simp add: isBestEffort_def res(3))
  show ?thesis
  proof (cases "rr_ok res")
    case False
    then have "mgr_loadModuleWithDependencies E name OrderOnly w = Some (Inr False, flushFeed E (?v\<lparr>insideLoad := False\<rparr>))"
      using res(1) out by (simp add: mgr_loadModuleWithDependencies_def Let_def withEntry_def)
    with False res(2) fleet show ?thesis by simp
  next
    case True
    obtain r v where each: "loadEach E (isBestEffort res) (rr_order res) ?v = (r, v)"
      by (cases "loadEach E (isBestEffort res) (rr_order res) ?v")
    have ne: "rr_order res \<noteq> []" using res(4) [OF True] by auto
    have "name \<in> set (rr_order res)" using res(4) [OF True] by blast
    then have "mgr_loadModuleWithDependencies E name OrderOnly w = Some (r, flushFeed E (v\<lparr>insideLoad := False\<rparr>))"
      using res(1) True out each ne by (simp add: mgr_loadModuleWithDependencies_def Let_def withEntry_def)
    moreover have "distinct (rr_order res)" using res(4) [OF True] by simp
    note d = loadEach_done [OF fv(1) this each]
    ultimately show ?thesis using d res(2) res(4) [OF True] True fv(2) by (auto simp: nobody)
  qed
qed

lemma cascade_done:
  assumes fleet: "fleet_inv ls ok w" and out: "\<not> insideLoad w" and ho: "hash_order (e_hash E)"
  shows "\<exists>b w'. mgr_unloadModuleWithDependents E name w = Some (b, w') \<and> fleet_inv ls ok w' \<and> \<not> insideLoad w'
    \<and> scheduledRestarts w' = scheduledRestarts w
    \<and> (\<forall>n. isLoaded (w_registry w') n \<longrightarrow> isLoaded (w_registry w) n)
    \<and> (\<forall>n. n \<noteq> name \<longrightarrow> n \<notin> loaded_dependents (w_registry w) name \<longrightarrow> isLoaded (w_registry w') n = isLoaded (w_registry w) n)
    \<and> b = (isLoaded (w_registry w) name \<and> (\<forall>n \<in> insert name (loaded_dependents (w_registry w) name). \<not> isLoaded (w_registry w') n))"
proof -
  let ?v = "w\<lparr>insideLoad := True\<rparr>"
  have fv: "fleet_inv ls ok ?v" using fleet by simp
  show ?thesis
  proof (cases "isLoaded (w_registry w) name")
    case False
    then have "mgr_unloadModuleWithDependents E name w = Some (False, flushFeed E (?v\<lparr>insideLoad := False\<rparr>))"
      using out by (simp add: mgr_unloadModuleWithDependents_def withEntry_def)
    with False fleet show ?thesis by (intro exI [of _ False] exI [of _ "flushFeed E (?v\<lparr>insideLoad := False\<rparr>)"]) simp
  next
    case True
    obtain order where order: "teardownOrder E name (w_registry w) = Some order" "distinct order"
      "set order = insert name (loaded_dependents (w_registry w) name)"
      using teardownOrder_spec [OF ho fleet_registry_ok [OF fleet] True] by blast
    obtain b v where each: "unloadEach E order ?v = (b, v)" by (cases "unloadEach E order ?v")
    have "mgr_unloadModuleWithDependents E name w = Some (b, flushFeed E (v\<lparr>insideLoad := False\<rparr>))"
      using out True order(1) each by (simp add: mgr_unloadModuleWithDependents_def withEntry_def)
    with unloadEach_done [OF fv order(2) each] True order(3) show ?thesis by simp
  qed
qed

end

section \<open>Properties\<close>

text \<open>
  C3. A load with dependencies always comes back. It answers true exactly when the request resolves (the
  module and every required dependency, transitively, are known, without a cycle) and every module it
  needs is loaded when it returns; it unloads nothing, and what it newly loads is needed.
\<close>

theorem load_with_dependencies:
  assumes "loader_fleet ls ok" and "fleet_inv ls ok w" and "\<not> insideLoad w" and "hash_order (e_hash E)"
  shows "\<exists>r w'. mgr_loadModuleWithDependencies E name OrderOnly w = Some (r, w') \<and> fleet_inv ls ok w' \<and> \<not> insideLoad w'
    \<and> (\<forall>n. isLoaded (w_registry w) n \<longrightarrow> isLoaded (w_registry w') n)
    \<and> (\<forall>n. isLoaded (w_registry w') n \<and> \<not> isLoaded (w_registry w) n \<longrightarrow> resolvable (w_registry w) name \<and> n \<in> needed (w_registry w) name)
    \<and> (\<forall>b. r = Inr b \<longrightarrow> b = (resolvable (w_registry w) name \<and> (\<forall>n \<in> needed (w_registry w) name. isLoaded (w_registry w') n)))"
  using loader_fleet.load_dependencies_done [OF assms] .

lemma sample_outside: "\<not> insideLoad sampleWorld" "hash_order (e_hash sampleMgr)"
  by (simp_all add: sampleWorld_def newWorld_def sampleMgr_def hash_order_id)

theorem load_with_dependencies_witness:
  "case mgr_loadModuleWithDependencies sampleMgr ''b'' OrderOnly sampleWorld of
     Some (r, w') \<Rightarrow> r = Inr True \<and> resolvable (w_registry sampleWorld) ''b'' \<and> isLoaded (w_registry w') ''b''
   | None \<Rightarrow> False"
proof -
  obtain r w' where d: "mgr_loadModuleWithDependencies sampleMgr ''b'' OrderOnly sampleWorld = Some (r, w')"
    "\<forall>b. r = Inr b \<longrightarrow> b = (resolvable (w_registry sampleWorld) ''b'' \<and> (\<forall>n \<in> needed (w_registry sampleWorld) ''b''. isLoaded (w_registry w') n))"
    using load_with_dependencies [OF native.loader_fleet_axioms sample_fleet sample_outside, of "''b''"] by blast
  have "map_option fst (mgr_loadModuleWithDependencies sampleMgr ''b'' OrderOnly sampleWorld) = Some (Inr True)"
    by code_simp
  then have r: "r = Inr True" using d(1) by simp
  have "isKnown (w_registry sampleWorld) ''b''" by code_simp
  then have "''b'' \<in> needed (w_registry sampleWorld) ''b''"
    by (auto simp: needed_def required_def intro: reaches.intros)
  with d r show ?thesis by auto
qed


text \<open>Both modules of the small host are up.\<close>

definition sampleBoth :: "inproc world" where
  "sampleBoth = snd (loadModuleInternal sampleMgr ''b'' sampleLoaded)"

lemma sample_both_fleet: "fleet_inv (nativeLoaders sample_env) (inproc_names_ok sample_env) sampleBoth" "\<not> insideLoad sampleBoth"
proof -
  have "load_done (nativeLoaders sample_env) (inproc_names_ok sample_env) ''a'' sampleWorld
      (fst (loadModuleInternal sampleMgr ''a'' sampleWorld)) sampleLoaded"
    unfolding sampleLoaded_def by (rule native.load_done [OF sample_fleet]) simp
  then have l: "\<not> insideLoad sampleLoaded" using sample_outside(1) by (simp add: load_done_def)
  have "load_done (nativeLoaders sample_env) (inproc_names_ok sample_env) ''b'' sampleLoaded
      (fst (loadModuleInternal sampleMgr ''b'' sampleLoaded)) sampleBoth"
    unfolding sampleBoth_def by (rule native.load_done [OF sample_loaded_fleet]) simp
  then show "fleet_inv (nativeLoaders sample_env) (inproc_names_ok sample_env) sampleBoth" "\<not> insideLoad sampleBoth"
    using l by (simp_all add: load_done_def)
qed




text \<open>
  C13. A fleet teardown (\<open>terminateAll\<close>, \<open>clear\<close>) leaves nothing running and nothing loaded. Every death it
  causes is reported as an orderly end, none as a crash, none is answered with a restart, and no
  announcement outlives the teardown.
\<close>

theorem fleet_teardown:
  assumes "loader_fleet ls ok" and "fleet_inv ls ok w" and "hash_order (e_hash E)" and "\<not> insideLoad w"
    and "mgr_terminateAll E w = Some ((), w') \<or> mgr_clear E w = Some ((), w')"
  shows "fleet_down ls ok w w' \<and> expectedExits w' = []"
proof
  show "fleet_down ls ok w w'" using loader_fleet.down_fleet [OF assms(1-4)] assms(5) by blast
  then show "expectedExits w' = []" by (simp add: fleet_down_def fleet_inv_def)
qed

theorem fleet_teardown_witness:
  "case mgr_terminateAll sampleMgr sampleBoth of
     Some (_, w') \<Rightarrow> fleet_down (nativeLoaders sample_env) (inproc_names_ok sample_env) sampleBoth w' \<and> expectedExits w' = []
   | None \<Rightarrow> False"
proof -
  obtain u w' where t: "mgr_terminateAll sampleMgr sampleBoth = Some (u, w')"
    using sample_both_fleet(2) by (auto simp: mgr_terminateAll_def withEntry_def Let_def)
  then show ?thesis
    using fleet_teardown [OF native.loader_fleet_axioms sample_both_fleet(1) sample_outside(2) sample_both_fleet(2), of w'] by simp
qed

end
