(* ===== verification/ManagerRun.thy ===== *)
theory ManagerRun
  imports ManagerFleet
begin

text \<open>
  The manager as a state machine: every public operation, the death of a module at any moment between
  two operations, the scheduled restarts, the owner thread's turns and the callbacks of the feed are
  the steps of \<open>mgr_step\<close>; what the host answers may change from step to step. The invariant over all
  runs is that of \<open>fleet_inv\<close>.
\<close>

section \<open>Steps\<close>

inductive mgr_step :: "'c loaders \<Rightarrow> ('c \<Rightarrow> bool) \<Rightarrow> 'c world \<Rightarrow> 'c world \<Rightarrow> bool" for ls ok where
  StepLoad: "hash_order (e_hash E) \<Longrightarrow> mgr_loadModule E n w = Some (r, w') \<Longrightarrow> mgr_step ls ok w w'"
| StepLoadWithDependencies: "hash_order (e_hash E) \<Longrightarrow> mgr_loadModuleWithDependencies E n opt w = Some (r, w') \<Longrightarrow> mgr_step ls ok w w'"
| StepModulesState: "hash_order (e_hash E) \<Longrightarrow> initializeModulesState E w = Some (r, w') \<Longrightarrow> mgr_step ls ok w w'"
| StepCapability: "hash_order (e_hash E) \<Longrightarrow> initializeCapabilityModule E w = Some (r, w') \<Longrightarrow> mgr_step ls ok w w'"
| StepUnload: "hash_order (e_hash E) \<Longrightarrow> mgr_unloadModule E n w = Some (b, w') \<Longrightarrow> mgr_step ls ok w w'"
| StepCascade: "hash_order (e_hash E) \<Longrightarrow> mgr_unloadModuleWithDependents E n w = Some (b, w') \<Longrightarrow> mgr_step ls ok w w'"
| StepTerminateAll: "hash_order (e_hash E) \<Longrightarrow> mgr_terminateAll E w = Some (u, w') \<Longrightarrow> mgr_step ls ok w w'"
| StepClear: "hash_order (e_hash E) \<Longrightarrow> mgr_clear E w = Some (u, w') \<Longrightarrow> mgr_step ls ok w w'"
| StepRestart: "(d, n) \<in> set (scheduledRestarts w) \<Longrightarrow>
    mgr_step ls ok w (scheduledRestart E n (w\<lparr>scheduledRestarts := remove1 (d, n) (scheduledRestarts w)\<rparr>))"
| StepDeath: "container_death ls ok i n (w_containers w) c \<Longrightarrow> mgr_step ls ok w (onTerminated E n (w\<lparr>w_containers := c\<rparr>))"
| StepWork: "ok c \<Longrightarrow> (\<And>i n. i < length ls \<Longrightarrow> l_hasModule (ls ! i) n c = l_hasModule (ls ! i) n (w_containers w)) \<Longrightarrow>
    mgr_step ls ok w (w\<lparr>w_containers := c\<rparr>)"
| StepOwner: "mgr_step ls ok w (serveOwner E w)"
| StepAvailable: "mgr_step ls ok w (objectAvailable E ready n inst pid e w)"
| StepSnapshot: "mgr_step ls ok w (modulesStateAvailable E ready w)"
| StepDiscover: "hash_order (e_hash E) \<Longrightarrow> mgr_step ls ok w (mgr_discoverInstalledModules E meta scan w)"
| StepProcess: "hash_order (e_hash E) \<Longrightarrow> mgr_step ls ok w (snd (mgr_processModule E meta p w))"
| StepEmbedded: "hash_order (e_hash E) \<Longrightarrow> mgr_step ls ok w (snd (mgr_addEmbeddedBareModule E isFile metadata img w))"
| StepAccessPolicy: "mgr_step ls ok w (snd (setAccessPolicy E p w))"
| StepContainerPolicy: "mgr_step ls ok w (snd (setContainerPolicy p w))"
| StepTransports: "mgr_step ls ok w (setModuleTransports n t w)"
| StepPersistence: "mgr_step ls ok w (setPersistenceBasePath p w)"
| StepSetDir: "mgr_step ls ok w (mgr_setModulesDir dir w)"
| StepAddDir: "mgr_step ls ok w (mgr_addModulesDir dir w)"

inductive mgr_reach :: "'c loaders \<Rightarrow> ('c \<Rightarrow> bool) \<Rightarrow> 'c world \<Rightarrow> 'c world \<Rightarrow> bool" for ls ok where
  ReachStart: "mgr_reach ls ok w w"
| ReachStep: "mgr_reach ls ok v w \<Longrightarrow> mgr_step ls ok w w' \<Longrightarrow> mgr_reach ls ok v w'"

section \<open>Registry operations that move no module\<close>

definition same_runs :: "registry \<Rightarrow> registry \<Rightarrow> bool" where
  "same_runs r r' \<longleftrightarrow> (registry_ok r \<longrightarrow> registry_ok r')
     \<and> (\<forall>n. isLoaded r' n = isLoaded r n \<and> (isLoaded r n \<longrightarrow> loaderFor r' n = loaderFor r n))"

lemma life_runs: "isLoaded r n = fst (life_of r n)" "loaderFor r n = fst (snd (snd (snd (snd (snd (life_of r n))))))"
  by (simp_all add: isLoaded_def loaderFor_def life_of_def life_def newModuleInfo_def split: option.split)

lemma same_runs_discover:
  assumes ho: "hash_order ho" and reg: "registry_ok r" and d: "discoverInstalledModules ho meta dump scan (r, ob) = (r', ob')"
  shows "same_runs r r'"
proof -
  note scanned = discover_registry [OF ho reg d]
  have "isLoaded r' n = isLoaded r n \<and> (isLoaded r n \<longrightarrow> loaderFor r' n = loaderFor r n)" for n
  proof (cases "isKnown r' n")
    case True
    then show ?thesis using scanned(2) by (simp add: life_runs)
  next
    case False
    then have "\<not> isLoaded r' n" "\<not> isLoaded r n"
      using known_if_loaded scanned(1) [of n] by (auto simp: isLoaded_def split: option.splits)
    then show ?thesis by simp
  qed
  then show ?thesis using scanned(3) by (simp add: same_runs_def)
qed

lemma runs_upsert:
  assumes "\<And>i. loaded (f i) = loaded i \<and> loader (f i) = loader i"
  shows "same_runs r (upsert name f r)"
  using assms by (auto simp: same_runs_def isLoaded_def loaderFor_def lookup_simps newModuleInfo_def split: option.split)

lemma same_runs_trans: "same_runs r r1 \<Longrightarrow> same_runs r1 r2 \<Longrightarrow> same_runs r r2"
  by (simp add: same_runs_def)

lemma same_runs_refl [simp]: "same_runs r r"
  by (simp add: same_runs_def)

lemma runs_recompute: "hash_order ho \<Longrightarrow> registry_ok r \<Longrightarrow> same_runs r (recomputeDependents ho r)"
  by (simp add: same_runs_def life_runs recompute_life)

lemma runs_recompute': "hash_order ho \<Longrightarrow> registry_ok r \<Longrightarrow> same_runs r r1 \<Longrightarrow> same_runs r (recomputeDependents ho r1)"
  using same_runs_trans runs_recompute by (metis same_runs_def)

lemma runs_processInternal: "same_runs r (snd (processModuleInternal meta p trusted r))"
  by (auto simp: processModuleInternal_def Let_def intro!: runs_upsert split: option.split)

lemma same_runs_process:
  assumes "hash_order ho" and "registry_ok r" and "processModule ho meta p (r, ob) = (name, r', ob')"
  shows "same_runs r r'"
proof -
  have "r' = recomputeDependents ho (snd (processModuleInternal meta p [] r))"
    using assms(3) by (auto simp: processModule_def Let_def split: prod.splits)
  then show ?thesis using runs_recompute' [OF assms(1,2) runs_processInternal] by simp
qed

lemma same_runs_embedded:
  assumes ho: "hash_order ho" and reg: "registry_ok r"
    and add: "addEmbeddedBareModule ho parse dump isFile metadata img (r, ob) = (res, r', ob')"
  shows "same_runs r r'"
proof -
  have up: "same_runs r (upsert n f v)" if "same_runs r v" "\<And>i. loaded (f i) = loaded i \<and> loader (f i) = loader i" for n f v
    using same_runs_trans [OF that(1) runs_upsert] that(2) by simp
  have one: "same_runs r (upsert n (path_update (\<lambda>_. img)) r)" for n by (rule up) simp_all
  have two: "same_runs r (upsert n (\<lambda>i. i\<lparr>version := v, format := fm, embedded := True, metadataJson := mj, dependencies := es\<rparr>)
      (upsert n (path_update (\<lambda>_. img)) r))" for n v fm mj es
    by (rule up [OF one]) simp
  have three: "same_runs r (recomputeDependents ho (upsert n (\<lambda>i. i\<lparr>optionalDependencies := []\<rparr>)
      (upsert n (\<lambda>i. i\<lparr>version := v, format := fm, embedded := True, metadataJson := mj, dependencies := es\<rparr>)
      (upsert n (path_update (\<lambda>_. img)) r))))" for n v fm mj es
    by (rule runs_recompute' [OF ho reg], rule up [OF two]) simp
  show ?thesis
    using add one two three
    by (auto simp: addEmbeddedBareModule_def Let_def split: option.splits sum.splits prod.splits if_splits)
qed

section \<open>The invariant\<close>

definition mgr_inv :: "'c loaders \<Rightarrow> ('c \<Rightarrow> bool) \<Rightarrow> 'c world \<Rightarrow> bool" where
  "mgr_inv ls ok w \<longleftrightarrow> fleet_inv ls ok w \<and> \<not> insideLoad w"

lemma fleet_same_runs:
  assumes "fleet_inv ls ok w" and "same_runs (w_registry w) r"
  shows "fleet_inv ls ok (w\<lparr>w_registry := r\<rparr>)"
proof -
  have "isLoaded r n \<and> loaderFor r n = Some i" if "i < length ls" "l_hasModule (ls ! i) n (w_containers w)" for i n
    using fleet_has [OF assms(1) that] assms(2) by (simp add: same_runs_def)
  moreover have "registry_fit ls r"
    using fleet_basic(4) [OF assms(1)] assms(2) by (auto simp: registry_fit_def same_runs_def)
  ultimately show ?thesis
    using fleet_basic [OF assms(1)] assms(2) by (auto simp: fleet_inv_def same_runs_def)
qed

lemma fleet_field_updates [simp]:
  "fleet_inv ls ok (w\<lparr>w_observer := ob\<rparr>) = fleet_inv ls ok w"
  "fleet_inv ls ok (w\<lparr>scheduledRestarts := l\<rparr>) = fleet_inv ls ok w"
  "fleet_inv ls ok (w\<lparr>accessPolicyJson := s\<rparr>) = fleet_inv ls ok w"
  "fleet_inv ls ok (w\<lparr>parsedEnforcePolicy := p\<rparr>) = fleet_inv ls ok w"
  "fleet_inv ls ok (w\<lparr>containerPolicyValue := s\<rparr>) = fleet_inv ls ok w"
  "fleet_inv ls ok (w\<lparr>moduleTransportsMap := m\<rparr>) = fleet_inv ls ok w"
  "fleet_inv ls ok (w\<lparr>persistenceBasePath := s\<rparr>) = fleet_inv ls ok w"
  by (simp_all add: fleet_inv_def)

lemma withEntry_fleet:
  assumes "mgr_inv ls ok w" and "withEntry E refused body w = Some (r, w')"
    and "\<And>r v. fleet_inv ls ok (w\<lparr>insideLoad := True\<rparr>) \<Longrightarrow> body (w\<lparr>insideLoad := True\<rparr>) = Some (r, v) \<Longrightarrow> fleet_inv ls ok v"
  shows "mgr_inv ls ok w'"
proof -
  have "fleet_inv ls ok (w\<lparr>insideLoad := True\<rparr>)" using assms(1) by (simp add: mgr_inv_def fleet_inv_def)
  note kept = assms(3) [OF this]
  obtain r' v where "body (w\<lparr>insideLoad := True\<rparr>) = Some (r', v)" "w' = flushFeed E (v\<lparr>insideLoad := False\<rparr>)"
    using assms(1,2) by (auto simp: withEntry_def mgr_inv_def split: option.splits prod.splits)
  with kept show ?thesis by (simp add: mgr_inv_def fleet_inv_def)
qed

lemma isLoaded_markPublished: "isLoaded (snd (markPublished now n e r)) m = isLoaded r m"
  "loaderFor (snd (markPublished now n e r)) m = loaderFor r m"
  by (auto simp: markPublished_def isLoaded_def loaderFor_def lookup_simps split: option.split)

lemma same_runs_published: "same_runs r (snd (markPublished now n e r))"
  using isLoaded_markPublished by (auto simp: same_runs_def) (auto simp: markPublished_def split: option.split)

lemma same_runs_dirs: "same_runs r (setModulesDir d r)" "same_runs r (addModulesDir d r)"
  by (auto simp: same_runs_def setModulesDir_def addModulesDir_def isLoaded_def loaderFor_def registry_ok_def)

context loader_fleet begin

lemma loadEach_fleet: "fleet_inv ls ok w \<Longrightarrow> loadEach E tolerated ns w = (r, w') \<Longrightarrow> fleet_inv ls ok w'"
proof (induction ns arbitrary: w r)
  case (Cons n ns)
  obtain r1 w1 where one: "loadModuleInternal E n w = (r1, w1)" by (cases "loadModuleInternal E n w")
  have "fleet_inv ls ok w1" using load_done [OF Cons.prems(1) one] by (simp add: load_done_def)
  with Cons one show ?case by (auto split: sum.splits prod.splits)
qed simp

lemma load_fleet: "fleet_inv ls ok w \<Longrightarrow> loadModuleInternal E n w = (r, w') \<Longrightarrow> fleet_inv ls ok w'"
  using load_done [of w E n r w'] by (simp add: load_done_def)

lemma step_inv:
  assumes "mgr_step ls ok w w'" and inv: "mgr_inv ls ok w"
  shows "mgr_inv ls ok w'"
  using assms(1)
proof cases
  case (StepLoad E n r)
  have "mgr_inv ls ok (forgetDeaths n w)" using inv by (simp add: mgr_inv_def)
  then show ?thesis
    using StepLoad(2) unfolding mgr_loadModule_def Let_def
    by (rule withEntry_fleet) (rule load_fleet, assumption, simp)
next
  case (StepLoadWithDependencies E n opt r)
  have body: "fleet_inv ls ok v" if "fleet_inv ls ok u"
    and "(case resolveFor E [n] opt u of None \<Rightarrow> None
         | Some resolved \<Rightarrow> Some
             (if \<not> rr_ok resolved \<or> rr_order resolved = [] \<or> n \<notin> set (rr_order resolved) then (Inr False, u)
              else loadEach E (isBestEffort resolved) (rr_order resolved) u)) = Some (r', v)" for u r' v
    using that loadEach_fleet [OF that(1)] by (auto split: option.splits if_splits)
  have v: "mgr_inv ls ok (forgetDeaths n w)" using inv by (simp add: mgr_inv_def)
  show ?thesis
    by (rule withEntry_fleet [OF v StepLoadWithDependencies(2) [unfolded mgr_loadModuleWithDependencies_def Let_def]])
      (rule body, assumption, simp)
next
  case (StepModulesState E r)
  have body: "fleet_inv ls ok v" if "fleet_inv ls ok u"
    and "Some (if \<not> isKnown (w_registry u) kModulesState then (Inr False, u) else loadModuleInternal E kModulesState u) = Some (r', v)" for u r' v
    using that load_fleet [OF that(1)] by (auto split: if_splits)
  show ?thesis
    by (rule withEntry_fleet [OF inv StepModulesState(2) [unfolded initializeModulesState_def]]) (rule body, assumption, simp)
next
  case (StepCapability E r)
  have body: "fleet_inv ls ok v" if "fleet_inv ls ok u"
    and "Some (if \<not> isKnown (w_registry u) kCapabilityModule then (Inr False, u)
       else case loadModuleInternal E kCapabilityModule u of
          (Inr True, w) \<Rightarrow> (Inr True, runOnOwner E JobDerivedAll (pushAccessRestrictionsToCapabilityModule E w))
        | failed \<Rightarrow> failed) = Some (r', v)" for u r' v
    using that(2) load_fleet [OF that(1), of E kCapabilityModule] that(1)
    by (cases "loadModuleInternal E kCapabilityModule u") (auto split: if_splits sum.splits bool.splits)
  show ?thesis
    by (rule withEntry_fleet [OF inv StepCapability(2) [unfolded initializeCapabilityModule_def]]) (rule body, assumption, simp)
next
  case (StepUnload E n b)
  have body: "fleet_inv ls ok v" if "fleet_inv ls ok u" and "Some (unloadModuleInternal E n u) = Some (b', v)" for u b' v
    using that unload_done [OF that(1)] by (simp add: unload_done_def)
  show ?thesis
    by (rule withEntry_fleet [OF inv StepUnload(2) [unfolded mgr_unloadModule_def]]) (rule body, assumption, simp)
next
  case (StepCascade E n b)
  then show ?thesis using cascade_done [of w E n] inv by (auto simp: mgr_inv_def)
next
  case (StepTerminateAll E u)
  then show ?thesis using down_fleet(1) [of w E w'] inv by (simp add: mgr_inv_def fleet_down_def)
next
  case (StepClear E u)
  then show ?thesis using down_fleet(2) [of w E w'] inv by (simp add: mgr_inv_def fleet_down_def)
next
  case (StepRestart d n E)
  let ?w = "w\<lparr>scheduledRestarts := remove1 (d, n) (scheduledRestarts w)\<rparr>"
  have v: "mgr_inv ls ok ?w" using inv by (simp add: mgr_inv_def)
  have "mgr_inv ls ok u" if "restartModule E n ?w = Some (r, u)" for r u
    by (rule withEntry_fleet [OF v that [unfolded restartModule_def]]) (rule load_fleet, assumption, simp)
  then show ?thesis using v StepRestart(1) by (auto simp: scheduledRestart_def split: option.split)
next
  case (StepDeath i n c E)
  then show ?thesis using crash_fleet(1,5) [OF _ StepDeath(2) refl, of E] inv by (simp add: mgr_inv_def)
next
  case (StepWork c)
  then show ?thesis using inv by (auto simp: mgr_inv_def fleet_inv_def)
next
  case (StepAvailable E ready n inst pid e)
  have "fleet_inv ls ok (w\<lparr>w_registry := snd (markPublished (e_now E) n e (w_registry w))\<rparr>)"
    by (rule fleet_same_runs [OF _ same_runs_published]) (use inv in \<open>simp add: mgr_inv_def\<close>)
  then show ?thesis
    using StepAvailable inv by (auto simp: objectAvailable_def mgr_inv_def Let_def split: prod.split)
next
  case (StepSnapshot E ready)
  then show ?thesis
    using inv by (auto simp: modulesStateAvailable_def pushSnapshot_def buildSnapshotListing_def mgr_inv_def Let_def
        call_rpc_def fleet_inv_def split: prod.split)
next
  case (StepDiscover E meta scan)
  obtain r ob where d: "discoverInstalledModules (e_hash E) meta (e_dump E) scan (w_registry w, w_observer w) = (r, ob)"
    by (cases "discoverInstalledModules (e_hash E) meta (e_dump E) scan (w_registry w, w_observer w)")
  have "fleet_inv ls ok (w\<lparr>w_registry := r\<rparr>)"
    using fleet_same_runs same_runs_discover [OF StepDiscover(2) _ d] fleet_registry_ok inv by (auto simp: mgr_inv_def)
  then show ?thesis using StepDiscover(1) d inv by (simp add: mgr_discoverInstalledModules_def mgr_inv_def)
next
  case (StepProcess E meta p)
  obtain name r ob where d: "processModule (e_hash E) meta p (w_registry w, w_observer w) = (name, r, ob)"
    by (cases "processModule (e_hash E) meta p (w_registry w, w_observer w)")
  have "fleet_inv ls ok (w\<lparr>w_registry := r\<rparr>)"
    using fleet_same_runs same_runs_process [OF StepProcess(2) _ d] fleet_registry_ok inv by (auto simp: mgr_inv_def)
  then show ?thesis using StepProcess(1) d inv by (simp add: mgr_processModule_def mgr_inv_def)
next
  case (StepEmbedded E isFile metadata img)
  obtain res r ob where d: "addEmbeddedBareModule (e_hash E) (e_parse E) (e_dump E) isFile metadata img (w_registry w, w_observer w) = (res, r, ob)"
    by (cases "addEmbeddedBareModule (e_hash E) (e_parse E) (e_dump E) isFile metadata img (w_registry w, w_observer w)")
  have "fleet_inv ls ok (w\<lparr>w_registry := r\<rparr>)"
    using fleet_same_runs same_runs_embedded [OF StepEmbedded(2) _ d] fleet_registry_ok inv by (auto simp: mgr_inv_def)
  then show ?thesis using StepEmbedded(1) d inv by (simp add: mgr_addEmbeddedBareModule_def mgr_inv_def)
next
  case (StepSetDir dir)
  have "fleet_inv ls ok w'"
    unfolding StepSetDir mgr_setModulesDir_def by (rule fleet_same_runs [OF _ same_runs_dirs(1)]) (use inv in \<open>simp add: mgr_inv_def\<close>)
  then show ?thesis using inv by (simp add: mgr_inv_def StepSetDir mgr_setModulesDir_def)
next
  case (StepAddDir dir)
  have "fleet_inv ls ok w'"
    unfolding StepAddDir mgr_addModulesDir_def by (rule fleet_same_runs [OF _ same_runs_dirs(2)]) (use inv in \<open>simp add: mgr_inv_def\<close>)
  then show ?thesis using inv by (simp add: mgr_inv_def StepAddDir mgr_addModulesDir_def)
qed (use inv in \<open>auto simp: mgr_inv_def setAccessPolicy_def setContainerPolicy_def setModuleTransports_def
  setPersistenceBasePath_def Let_def split: sum.split option.split\<close>)

lemma reach_inv: "mgr_reach ls ok v w \<Longrightarrow> mgr_inv ls ok v \<Longrightarrow> mgr_inv ls ok w"
  by (induction rule: mgr_reach.induct) (auto intro: step_inv)

end

section \<open>A load that nothing stops\<close>

text \<open>The gates let the module through, and its loader starts it, takes its token and does not report a
  failure, with no death announced on the way.\<close>

definition loads_well :: "mgr_env \<Rightarrow> string \<Rightarrow> 'c world \<Rightarrow> bool" where
  "loads_well E name w \<longleftrightarrow> isKnown (w_registry w) name \<and> \<not> isLoaded (w_registry w) name
     \<and> containerPolicyMismatch (containerPolicyValue w) name (moduleFormatOf name w) = None
     \<and> pgDecision (evaluateProtocolGate (protocolStamp (artifactMetadata E (modulePath (w_registry w) name))) (e_hostMajor E)) \<noteq> PgRefuse
     \<and> dgDecision (dependencyGateFor E name w) \<noteq> DgRefuse
     \<and> (let desc = buildDescriptor E name w; timeout = (if hostStaysSilent w then kSilentHostGrace else kLoadVerdictTimeout) in
        case select (w_loaders w) desc of
          Inr (Some i) \<Rightarrow>
            (case l_load (w_loaders w ! i) desc (w_containers w) of
               (Launched h, [], c) \<Rightarrow>
                 (case l_sendToken (w_loaders w ! i) name (e_uuid E (minted w)) c of
                    (True, [], c) \<Rightarrow>
                      (case l_awaitLoad (w_loaders w ! i) name timeout c of
                         (outcome, [], c) \<Rightarrow> verdict outcome \<noteq> VerdictFailed
                       | _ \<Rightarrow> False)
                  | _ \<Rightarrow> False)
             | _ \<Rightarrow> False)
        | _ \<Rightarrow> False)"

lemma record_edge_more [simp]:
  "tokens (record_edge n a b i p r w) = tokens w" "inFlightLoads (beginLoadAttempt n w) = AList.update n False (inFlightLoads w)"
  "minted (beginLoadAttempt n w) = minted w" "hostStaysSilent (beginLoadAttempt n w) = hostStaysSilent w"
  by (simp_all add: record_edge_def beginLoadAttempt_def)

lemma settle_live:
  assumes "l_awaitLoad l name (if hostStaysSilent w then kSilentHostGrace else kLoadVerdictTimeout) (w_containers w) = (outcome, [], c)"
    and "verdict outcome \<noteq> VerdictFailed" and "map_of (inFlightLoads w) name = Some False"
  shows "\<exists>w'. settleLoad E name i l h inst pid t w = (Inr True, w') \<and> isLoaded (w_registry w') name"
  using assms by (auto simp: settleLoad_def handleDeaths_def commitLoad_def Let_def finishLoad_frames)

lemma attempt_live:
  assumes load: "l_load l desc (w_containers w) = (Launched h, [], c1)"
    and send: "l_sendToken l name (e_uuid E (minted w)) c1 = (True, [], c2)"
    and await: "l_awaitLoad l name (if hostStaysSilent w then kSilentHostGrace else kLoadVerdictTimeout) c2 = (outcome, [], c3)"
      "verdict outcome \<noteq> VerdictFailed"
  shows "\<exists>w'. attemptLoad E name i l desc inst w = (Inr True, w') \<and> isLoaded (w_registry w') name"
proof -
  let ?w = "beginLoadAttempt name w\<lparr>w_containers := c1, minted := Suc (minted w), w_containers := c2\<rparr>"
  let ?pid = "if 0 \<le> h_pid h then Some (h_pid h) else None"
  have flight: "map_of (inFlightLoads ?w) name = Some False" by simp
  have "l_awaitLoad l name (if hostStaysSilent ?w then kSilentHostGrace else kLoadVerdictTimeout) (w_containers ?w) = (outcome, [], c3)"
    using await(1) by simp
  from settle_live [OF this await(2) flight]
  obtain w' where "settleLoad E name i l h inst ?pid (e_uuid E (minted w)) ?w = (Inr True, w')" "isLoaded (w_registry w') name"
    by blast
  then show ?thesis using load send by (simp add: attemptLoad_def handleDeaths_def Let_def beginLoadAttempt_def)
qed

lemma buildDescriptor_edge [simp]: "buildDescriptor E n (record_edge m a b i p r w) = buildDescriptor E n w"
  "dependencyGateFor E n (record_edge m a b i p r w) = dependencyGateFor E n w"
  by (simp_all add: buildDescriptor_def dependencyGateFor_def resolvePersistence_def Let_def)

lemma load_live:
  assumes "loads_well E name w"
  shows "\<exists>w'. loadModuleInternal E name w = (Inr True, w') \<and> isLoaded (w_registry w') name"
proof -
  let ?desc = "buildDescriptor E name w"
  let ?v = "record_edge name kUnloaded kLoading (fst (resolvePersistence E name w)) None None w"
  obtain i h c1 c2 c3 outcome where sel: "select (w_loaders w) ?desc = Inr (Some i)"
    and run: "l_load (w_loaders w ! i) ?desc (w_containers w) = (Launched h, [], c1)"
      "l_sendToken (w_loaders w ! i) name (e_uuid E (minted w)) c1 = (True, [], c2)"
      "l_awaitLoad (w_loaders w ! i) name (if hostStaysSilent w then kSilentHostGrace else kLoadVerdictTimeout) c2 = (outcome, [], c3)"
      "verdict outcome \<noteq> VerdictFailed"
    using assms by (auto simp: loads_well_def Let_def split: sum.splits option.splits prod.splits launch_result.splits list.splits bool.splits)
  have "\<exists>w'. attemptLoad E name i (w_loaders ?v ! i) ?desc (fst (resolvePersistence E name w)) ?v = (Inr True, w') \<and> isLoaded (w_registry w') name"
    by (rule attempt_live) (use run in simp_all)
  moreover have "d_rawMetadata ?desc = artifactMetadata E (modulePath (w_registry w) name)" by (simp add: buildDescriptor_def Let_def)
  ultimately show ?thesis using assms sel by (simp add: loadModuleInternal_def loads_well_def Let_def)
qed

section \<open>Properties\<close>

text \<open>
  Whatever operations, deaths, restarts and callbacks come in whatever order, from a manager
  that was just built: between two of them a module that a container runs is marked loaded under that
  container's loader, so there are no orphans and no module runs twice; no announced exit is outstanding,
  so the next death is judged on its own; and no load attempt is registered for a loaded module.
\<close>

theorem manager_no_orphans:
  assumes "loader_fleet ls ok" and "ok c" and "\<And>n. \<not> running ls n c" and "mgr_reach ls ok (newWorld ls c) w"
  shows "(\<forall>i n. i < length ls \<longrightarrow> l_hasModule (ls ! i) n (w_containers w) \<longrightarrow>
      isLoaded (w_registry w) n \<and> loaderFor (w_registry w) n = Some i)
    \<and> expectedExits w = [] \<and> (\<forall>n. isLoaded (w_registry w) n \<longrightarrow> map_of (inFlightLoads w) n = None)"
proof -
  have "mgr_inv ls ok (newWorld ls c)"
    using assms(2,3) by (simp add: mgr_inv_def fleet_inv_def newWorld_def registry_fit_def registry_ok_def emptyRegistry_def
        isLoaded_def running_def)
  from loader_fleet.reach_inv [OF assms(1,4) this] show ?thesis by (simp add: mgr_inv_def fleet_inv_def)
qed

definition sampleScanned :: "inproc world" where
  "sampleScanned = mgr_discoverInstalledModules sampleMgr (\<lambda>_. None) (\<lambda>_. [sample_package ''a'' ''/m/a_bare.so''])
     (newWorld (nativeLoaders sample_env) (setHostApi True emptyInproc))"

definition sampleUp :: "inproc world" where
  "sampleUp = (case mgr_loadModule sampleMgr ''a'' sampleScanned of Some (_, w) \<Rightarrow> w | None \<Rightarrow> sampleScanned)"

lemma sample_native: "inproc_names_ok sample_env (setHostApi True emptyInproc)"
  "\<not> running (nativeLoaders sample_env) n (setHostApi True emptyInproc)"
  by (simp_all add: inproc_names_ok_def sample_env_def hash_order_id setHostApi_def emptyInproc_def running_def nativeLoaders_def
      compositeModuleLoader_def inprocContainer_def inproc_hasModule_def)

lemma sample_up_reach: "mgr_reach (nativeLoaders sample_env) (inproc_names_ok sample_env)
    (newWorld (nativeLoaders sample_env) (setHostApi True emptyInproc)) sampleUp"
proof -
  have ho: "hash_order (e_hash sampleMgr)" by (rule sample_outside(2))
  obtain r w where w: "mgr_loadModule sampleMgr ''a'' sampleScanned = Some (r, w)"
  proof (cases "mgr_loadModule sampleMgr ''a'' sampleScanned")
    case None
    moreover have "mgr_loadModule sampleMgr ''a'' sampleScanned \<noteq> None"
      by (simp add: mgr_loadModule_def withEntry_def Let_def split: prod.split)
    ultimately show thesis by simp
  qed (use that in auto)
  have up: "sampleUp = w" by (simp add: sampleUp_def w)
  show ?thesis
    unfolding up
    by (rule ReachStep [OF ReachStep [OF ReachStart] StepLoad [OF ho w]])
      (unfold sampleScanned_def, rule StepDiscover [OF ho])
qed

theorem manager_no_orphans_witness:
  "l_hasModule (nativeLoaders sample_env ! 0) ''a'' (w_containers sampleUp) \<and> isLoaded (w_registry sampleUp) ''a''
   \<and> loaderFor (w_registry sampleUp) ''a'' = Some 0 \<and> expectedExits sampleUp = []"
proof -
  have "l_hasModule (nativeLoaders sample_env ! 0) ''a'' (w_containers sampleUp)"
    unfolding sampleUp_def sampleScanned_def by code_simp
  moreover have "0 < length (nativeLoaders sample_env)" by (simp add: nativeLoaders_def)
  ultimately show ?thesis
    using manager_no_orphans [OF native.loader_fleet_axioms sample_native sample_up_reach] by blast
qed

text \<open>
  C33. A restart that is due brings the module back: when the gates let it through and its loader starts it,
  takes its token and does not report a failure, the module is loaded when the restart is over.
\<close>

theorem restart_recovers:
  assumes "\<not> insideLoad w" and "loads_well E n (w\<lparr>insideLoad := True\<rparr>)"
  shows "isLoaded (w_registry (scheduledRestart E n w)) n"
proof -
  obtain w' where "loadModuleInternal E n (w\<lparr>insideLoad := True\<rparr>) = (Inr True, w')" "isLoaded (w_registry w') n"
    using load_live [OF assms(2)] by blast
  moreover have "isKnown (w_registry w) n" using assms(2) by (simp add: loads_well_def)
  ultimately show ?thesis
    using assms(1) by (simp add: scheduledRestart_def restartModule_def withEntry_def)
qed

theorem restart_recovers_witness:
  "isLoaded (w_registry (scheduledRestart sampleMgr ''a'' sampleWorld)) ''a''"
  by (rule restart_recovers [OF sample_outside(1)]) code_simp

definition sampleSupervised :: "inproc world" where
  "sampleSupervised = onTerminated sampleMgr ''a''
     (sampleUp\<lparr>w_supervisor := setPolicy \<lparr>maxRestarts = 3, window = 60000, backoff = 500\<rparr> (w_supervisor sampleUp),
        w_containers := (w_containers sampleUp)\<lparr>ip_modules := []\<rparr>\<rparr>)"

definition sampleDown :: "inproc world" where
  "sampleDown = (case mgr_terminateAll sampleMgr sampleSupervised of Some (_, w) \<Rightarrow> w | None \<Rightarrow> sampleSupervised)"

text \<open>
  A restart outlives the teardown of the fleet: a supervised module crashes, the operator tears everything
  down within the backoff, and when the restart falls due the module is loaded again. Nothing cancels
  it.
\<close>

theorem restart_outlives_teardown:
  "loadedModuleNames (\<lambda>xs. xs) (w_registry sampleDown) = [] \<and> scheduledRestarts sampleDown = [(500, ''a'')]
   \<and> isLoaded (w_registry (scheduledRestart sampleMgr ''a'' sampleDown)) ''a''"
  unfolding sampleDown_def sampleSupervised_def sampleUp_def sampleScanned_def by code_simp

text \<open>
  A load that comes in while this thread is inside another one is refused before it touches a
  module, but the guard object of the refused call still hands the outer load's buffered transitions
  to the sink: they are dispatched under the outer load's locks.
\<close>

theorem reentrant_load_flushes:
  assumes "insideLoad w"
  shows "mgr_loadModule E n w = Some (Inr (isLoaded (w_registry w) n), flushFeed E (forgetDeaths n w))
    \<and> (\<forall>sink. m_sink (w_observer w) = Some sink \<longrightarrow> m_pending (w_observer w) \<noteq> [] \<longrightarrow>
        dispatched (w_observer (flushFeed E (forgetDeaths n w))) = dispatched (w_observer w) @ [(sink, m_pending (w_observer w))])"
  using assms by (simp add: mgr_loadModule_def withEntry_def refuseReentrantLoad_def forgetDeaths_def Let_def flush_def)

theorem reentrant_load_flushes_witness:
  "map snd (dispatched (w_observer (flushFeed sampleMgr (forgetDeaths ''b''
      (record_edge ''a'' kUnloaded kLoading None None None (sampleWorld\<lparr>insideLoad := True\<rparr>)))))) =
    [m_pending (w_observer (record_edge ''a'' kUnloaded kLoading None None None (sampleWorld\<lparr>insideLoad := True\<rparr>)))]"
proof -
  let ?w = "record_edge ''a'' kUnloaded kLoading None None None (sampleWorld\<lparr>insideLoad := True\<rparr>)"
  have "m_sink (w_observer ?w) = Some 1" "m_pending (w_observer ?w) \<noteq> []" "dispatched (w_observer ?w) = []" by code_simp+
  then show ?thesis using reentrant_load_flushes [of ?w sampleMgr "''b''"] by simp
qed

end
