(* ===== verification/ManagerAccess.thy ===== *)
theory ManagerAccess
  imports ManagerRun
begin

text \<open>
  Access enforcement and the snapshot (\<open>module_manager.cpp\<close> 524-661 and 735-815): whom
  \<open>capability_module\<close> is told to let call a module, when enforcement is armed, and what the listing handed to
  \<open>modules_state\<close> says.
\<close>

section \<open>Arming\<close>

text \<open>
  Enforcement is armed exactly by a document that parses and whose mode is \<open>enforce\<close>. Any other text, an
  empty one, an unparsable one or one the parser throws on, leaves it off, whatever policy was in force
  before.
\<close>

theorem enforcement_armed_iff:
  "parsedEnforcePolicy (snd (setAccessPolicy E p w)) =
     (case parseAccessPolicy (e_parse E) p of Inr (Some q) \<Rightarrow> if p \<noteq> [] \<and> enforce q then Some q else None | _ \<Rightarrow> None)
   \<and> accessPolicyJson (snd (setAccessPolicy E p w)) = p"
  by (auto simp: setAccessPolicy_def Let_def split: sum.split option.split)

section \<open>Callers\<close>

lemma fold_addCaller: "set (fold addCaller xs ys) = set xs \<union> set ys" "distinct ys \<Longrightarrow> distinct (fold addCaller xs ys)"
  by (induction xs arbitrary: ys) (auto simp: addCaller_def)

text \<open>Who may call a module that no explicit restriction names, by specification.\<close>

definition admitted_callers :: "registry \<Rightarrow> string \<Rightarrow> string set" where
  "admitted_callers r t = {c. isLoaded r c \<and> (t \<in> set (directDependencies r c) \<or> t \<in> set (moduleOptionalDependencies r c))}
     \<union> set kTrustedCallers"

definition explicit_restriction :: "AccessPolicy \<Rightarrow> string \<Rightarrow> AccessRestriction option" where
  "explicit_restriction p t = List.find (\<lambda>r. target r = t) (restrictions p)"

lemma derived_callers:
  assumes "reverse_ok (w_registry w)" and "isKnown (w_registry w) t" and "t \<notin> set kExemptTargets"
    and "parsedEnforcePolicy w = Some p" and "explicit_restriction p t = None"
  shows "distinct (derivedAllowedCallersFor t w) \<and> set (derivedAllowedCallersFor t w) = admitted_callers (w_registry w) t"
proof -
  let ?r = "w_registry w"
  have eq: "derivedAllowedCallersFor t w = fold addCaller kTrustedCallers
      (fold addCaller (filter (isLoaded ?r) (moduleOptionalDependents ?r t)) (fold addCaller (filter (isLoaded ?r) (directDependents ?r t)) []))"
    using assms(3-5) by (simp add: derivedAllowedCallersFor_def explicit_restriction_def Let_def)
  have sets: "set (directDependents ?r t) = {d. isKnown ?r d \<and> t \<in> set (directDependencies ?r d)}"
    "set (moduleOptionalDependents ?r t) = {d. isKnown ?r d \<and> t \<in> set (moduleOptionalDependencies ?r d)}"
    using assms(1,2) by (simp_all add: reverse_ok_def)
  show ?thesis
    unfolding eq by (auto simp: fold_addCaller sets admitted_callers_def dest: known_if_loaded)
qed

text \<open>
  C28. Under an enforce policy the callers of a module that no explicit restriction names are the loaded
  modules that declare it, required or optional, and the trusted callers, each once; an explicit
  restriction is taken verbatim; an exempt target and a host without such a policy get none.
\<close>

theorem allowed_callers_exact:
  assumes "reverse_ok (w_registry w)" and "isKnown (w_registry w) t"
  shows "(t \<in> set kExemptTargets \<or> parsedEnforcePolicy w = None \<longrightarrow> derivedAllowedCallersFor t w = [])
    \<and> (\<forall>p. t \<notin> set kExemptTargets \<and> parsedEnforcePolicy w = Some p \<longrightarrow>
        (case explicit_restriction p t of
           Some r \<Rightarrow> derivedAllowedCallersFor t w = allowedCallers r
         | None \<Rightarrow> distinct (derivedAllowedCallersFor t w) \<and> set (derivedAllowedCallersFor t w) = admitted_callers (w_registry w) t))"
proof (intro conjI allI impI)
  assume "t \<in> set kExemptTargets \<or> parsedEnforcePolicy w = None"
  then show "derivedAllowedCallersFor t w = []" by (auto simp: derivedAllowedCallersFor_def)
next
  fix p assume p: "t \<notin> set kExemptTargets \<and> parsedEnforcePolicy w = Some p"
  show "case explicit_restriction p t of
      Some r \<Rightarrow> derivedAllowedCallersFor t w = allowedCallers r
    | None \<Rightarrow> distinct (derivedAllowedCallersFor t w) \<and> set (derivedAllowedCallersFor t w) = admitted_callers (w_registry w) t"
  proof (cases "explicit_restriction p t")
    case None
    with derived_callers [OF assms _ _ None] p show ?thesis by simp
  next
    case (Some r)
    with p show ?thesis by (simp add: derivedAllowedCallersFor_def explicit_restriction_def)
  qed
qed

lemma reverse_ok_graph:
  assumes "reverse_ok r" and "graph_of r' = graph_of r" and "registry_ok r'"
  shows "reverse_ok r'"
  using assms(1,3) by (simp add: reverse_ok_def graph_same [OF assms(2)])

definition sampleEnforced :: "inproc world" where
  "sampleEnforced = sampleBoth\<lparr>parsedEnforcePolicy := Some \<lparr>ap_version = 1, mode = ''enforce'', restrictions = []\<rparr>\<rparr>"

lemma sample_reverse: "reverse_ok (w_registry sampleEnforced)"
proof -
  have "reverse_ok sampleRegistry"
    unfolding sampleRegistry_def registerDependencies_def by (rule reverse_ok_recompute [OF hash_order_id]) code_simp
  moreover have "graph_of (w_registry sampleLoaded) = graph_of (w_registry sampleWorld)"
    using native.load_done [OF sample_fleet] by (metis load_done_def only_moves_def prod.collapse sampleLoaded_def)
  moreover have "graph_of (w_registry sampleBoth) = graph_of (w_registry sampleLoaded)"
    using native.load_done [OF sample_loaded_fleet] by (metis load_done_def only_moves_def prod.collapse sampleBoth_def)
  ultimately have "reverse_ok (w_registry sampleBoth)"
    using reverse_ok_graph [of sampleRegistry "w_registry sampleBoth"] native.fleet_registry_ok [OF sample_both_fleet(1)]
    by (simp add: sampleWorld_def)
  then show ?thesis by (simp add: sampleEnforced_def)
qed

theorem allowed_callers_exact_witness:
  "set (derivedAllowedCallersFor ''a'' sampleEnforced) = {''b'', ''core'', ''core_service''}"
proof -
  have e: "isKnown (w_registry sampleEnforced) ''a''" "''a'' \<notin> set kExemptTargets"
    "explicit_restriction \<lparr>ap_version = 1, mode = ''enforce'', restrictions = []\<rparr> ''a'' = None"
    unfolding sampleEnforced_def sampleBoth_def sampleLoaded_def by code_simp+
  have p: "parsedEnforcePolicy sampleEnforced = Some \<lparr>ap_version = 1, mode = ''enforce'', restrictions = []\<rparr>"
    by (simp add: sampleEnforced_def)
  have "set (derivedAllowedCallersFor ''a'' sampleEnforced) = admitted_callers (w_registry sampleEnforced) ''a''"
    using allowed_callers_exact [OF sample_reverse e(1)] e(2,3) p by fastforce
  also have "\<dots> = {''b'', ''core'', ''core_service''}"
  proof -
    have "\<forall>c \<in> set (keys (m_modules (w_registry sampleEnforced))). (isLoaded (w_registry sampleEnforced) c
        \<and> (''a'' \<in> set (directDependencies (w_registry sampleEnforced) c) \<or> ''a'' \<in> set (moduleOptionalDependencies (w_registry sampleEnforced) c)))
      = (c = ''b'')" "isKnown (w_registry sampleEnforced) ''b''"
      unfolding sampleEnforced_def sampleBoth_def sampleLoaded_def by code_simp+
    then show ?thesis
      using known_if_loaded [of "w_registry sampleEnforced"] by (auto simp: admitted_callers_def kTrustedCallers_def isKnown_def simp del: set_map)
  qed
  finally show ?thesis .
qed

section \<open>What capability_module was told last\<close>

definition restriction_of :: "string \<Rightarrow> rpc \<Rightarrow> string list option \<Rightarrow> string list option" where
  "restriction_of t c told = (case c of RegisterRestriction _ t' cs \<Rightarrow> if t' = t then Some cs else told | _ \<Rightarrow> told)"

definition last_restriction :: "string \<Rightarrow> 'c world \<Rightarrow> string list option" where
  "last_restriction t w = fold (restriction_of t) (rpcs w) None"

lemma last_restriction_call [simp]: "last_restriction t (call_rpc c w) = restriction_of t c (last_restriction t w)"
  by (simp add: last_restriction_def call_rpc_def)

lemma derived_cong:
  assumes "w_registry w' = w_registry w" and "parsedEnforcePolicy w' = parsedEnforcePolicy w"
  shows "derivedAllowedCallersFor t w' = derivedAllowedCallersFor t w"
  unfolding derivedAllowedCallersFor_def assms ..

lemma push_frames [simp]:
  "w_registry (pushDerivedRestrictionForTarget n w) = w_registry w"
  "derivedAllowedCallersFor t (pushDerivedRestrictionForTarget n w) = derivedAllowedCallersFor t w"
  using inward_fields(1,13) [OF inward_derived, of n w] derived_cong by blast+

lemma last_push:
  "last_restriction t (pushDerivedRestrictionForTarget n w) =
     (if n = t \<and> isLoaded (w_registry w) kCapabilityModule \<and> derivedAllowedCallersFor t w \<noteq> []
      then Some (derivedAllowedCallersFor t w) else last_restriction t w)"
  by (simp add: pushDerivedRestrictionForTarget_def registerRestrictionRpc_def restriction_of_def Let_def)

lemma fold_push:
  "last_restriction t (fold pushDerivedRestrictionForTarget ns w) =
     (if t \<in> set ns \<and> isLoaded (w_registry w) kCapabilityModule \<and> derivedAllowedCallersFor t w \<noteq> []
      then Some (derivedAllowedCallersFor t w) else last_restriction t w)"
  "w_registry (fold pushDerivedRestrictionForTarget ns w) = w_registry w"
  "derivedAllowedCallersFor t (fold pushDerivedRestrictionForTarget ns w) = derivedAllowedCallersFor t w"
  by (induction ns arbitrary: w) (auto simp: last_push)

text \<open>The targets whose callers a load or unload of \<open>n\<close> may change.\<close>

definition touched_targets :: "registry \<Rightarrow> string \<Rightarrow> string set" where
  "touched_targets r n = set (directDependencies r n) \<union> set (moduleOptionalDependencies r n) \<union> {n}"

lemma last_refresh:
  assumes "e_onOwner E" and "isLoaded (w_registry w) kCapabilityModule"
  shows "last_restriction t (refreshDerivedRestrictionsForDependenciesOf E n w) =
     (if t \<in> touched_targets (w_registry w) n \<and> derivedAllowedCallersFor t w \<noteq> []
      then Some (derivedAllowedCallersFor t w) else last_restriction t w)"
  using assms
  by (auto simp: refreshDerivedRestrictionsForDependenciesOf_def runOnOwner_def runJob_def Let_def last_push fold_push touched_targets_def)

lemma last_other [simp]:
  "last_restriction t (w\<lparr>w_registry := r\<rparr>) = last_restriction t w"
  "last_restriction t (w\<lparr>w_observer := ob\<rparr>) = last_restriction t w"
  "last_restriction t (w\<lparr>tokens := m\<rparr>) = last_restriction t w"
  "last_restriction t (w\<lparr>expectedExits := x\<rparr>) = last_restriction t w"
  "last_restriction t (w\<lparr>w_supervisor := s\<rparr>) = last_restriction t w"
  by (simp_all add: last_restriction_def)

lemma derived_graph:
  assumes "graph_of r' = graph_of (w_registry w)" and "isLoaded r' = isLoaded (w_registry w)"
    and "w_registry w' = r'" and "parsedEnforcePolicy w' = parsedEnforcePolicy w"
  shows "derivedAllowedCallersFor t w' = derivedAllowedCallersFor t w"
  unfolding derivedAllowedCallersFor_def Let_def assms(2-4) graph_same [OF assms(1)] ..

lemma touched_graph: "graph_of r' = graph_of r \<Longrightarrow> touched_targets r' n = touched_targets r n"
  by (simp add: touched_targets_def graph_same [of r' r])

text \<open>What a call leaves of the answers: the edges, the loaded set, the policy and the last restriction.\<close>

definition same_answers :: "'c world \<Rightarrow> 'c world \<Rightarrow> bool" where
  "same_answers w w' \<longleftrightarrow> graph_of (w_registry w') = graph_of (w_registry w)
     \<and> isLoaded (w_registry w') = isLoaded (w_registry w) \<and> parsedEnforcePolicy w' = parsedEnforcePolicy w
     \<and> (\<forall>t. last_restriction t w' = last_restriction t w)"

lemma same_answers_trans [trans]: "same_answers w w' \<Longrightarrow> same_answers w' w'' \<Longrightarrow> same_answers w w''"
  by (simp add: same_answers_def)

lemma same_record: "same_answers w (record_edge n a b i p rs w)"
  by (simp add: same_answers_def record_edge_def)

lemma same_refl [simp]: "same_answers w w"
  by (simp add: same_answers_def)

lemma quiet_jobs:
  assumes "e_onOwner E"
  shows "last_restriction t (runOnOwner E (JobWatch n inst pid e) w) = last_restriction t w"
    and "last_restriction t (runOnOwner E JobWatchState w) = last_restriction t w"
  using assms by (simp_all add: runOnOwner_def runJob_def restriction_of_def)

lemma same_later:
  assumes "e_onOwner E"
  shows "same_answers w (armReadinessWatch E n inst pid w)" "same_answers w (enableModulesStateFeed E w)"
    "same_answers w (disableModulesStateFeed w)" "same_answers w (snd (consumeExpectedExit n w))"
  using assms
  by (auto simp: same_answers_def quiet_jobs armReadinessWatch_def Let_def enableModulesStateFeed_def
      disableModulesStateFeed_def consumeExpectedExit_def)

lemma same_told:
  assumes "same_answers (refreshDerivedRestrictionsForDependenciesOf E n w) w'" and "e_onOwner E"
    and "isLoaded (w_registry w') kCapabilityModule" and "t \<in> touched_targets (w_registry w') n"
    and "derivedAllowedCallersFor t w' \<noteq> []"
  shows "last_restriction t w' = Some (derivedAllowedCallersFor t w')"
proof -
  let ?v = "refreshDerivedRestrictionsForDependenciesOf E n w"
  have v: "w_registry ?v = w_registry w" "parsedEnforcePolicy ?v = parsedEnforcePolicy w" by simp_all
  have same: "graph_of (w_registry w') = graph_of (w_registry w)" "isLoaded (w_registry w') = isLoaded (w_registry w)"
    "parsedEnforcePolicy w' = parsedEnforcePolicy w" "last_restriction t w' = last_restriction t ?v"
    using assms(1) v by (simp_all add: same_answers_def)
  have "derivedAllowedCallersFor t w' = derivedAllowedCallersFor t w"
    by (rule derived_graph [OF same(1,2) refl same(3)])
  with same assms(2-5) last_refresh [of E w t n] touched_graph [OF same(1), of n] show ?thesis by simp
qed

lemma finishLoad_told:
  assumes "e_onOwner E" and "isLoaded (w_registry w) kCapabilityModule"
    and "t \<in> touched_targets (w_registry (finishLoad E n inst pid tok w)) n"
    and "derivedAllowedCallersFor t (finishLoad E n inst pid tok w) \<noteq> []"
  shows "last_restriction t (finishLoad E n inst pid tok w) = Some (derivedAllowedCallersFor t (finishLoad E n inst pid tok w))"
proof -
  let ?v = "notifyCapabilityModule E n tok (saveToken n tok w)"
  let ?e = "record_edge n kLoading kLoaded inst pid None (refreshDerivedRestrictionsForDependenciesOf E n ?v)"
  have "same_answers (refreshDerivedRestrictionsForDependenciesOf E n ?v) ?e" by (rule same_record)
  also have "same_answers ?e (if n = kModulesState then enableModulesStateFeed E ?e else ?e)"
    by (auto intro: same_later(2) [OF assms(1)])
  also have "same_answers \<dots> (finishLoad E n inst pid tok w)"
    unfolding finishLoad_def Let_def by (rule same_later(1) [OF assms(1)])
  finally have "same_answers (refreshDerivedRestrictionsForDependenciesOf E n ?v) (finishLoad E n inst pid tok w)" .
  from same_told [OF this assms(1) _ assms(3,4)] assms(2) show ?thesis by (simp add: finishLoad_frames)
qed

lemma finishUnload_told:
  assumes "e_onOwner E" and "finishUnload E n w = (b, w')" and "isLoaded (w_registry w') kCapabilityModule"
    and "t \<in> touched_targets (w_registry w') n" and "derivedAllowedCallersFor t w' \<noteq> []"
  shows "last_restriction t w' = Some (derivedAllowedCallersFor t w')"
proof -
  let ?v = "w\<lparr>w_registry := markUnloaded n (w_registry w), w_supervisor := forget n (w_supervisor w)\<rparr>"
  let ?r = "refreshDerivedRestrictionsForDependenciesOf E n ?v"
  let ?c = "snd (consumeExpectedExit n ?r)"
  let ?e = "if fst (consumeExpectedExit n ?r) then record_edge n kStopping kUnloaded None None None ?c else ?c"
  have "same_answers ?r ?c" by (rule same_later(4) [OF assms(1)])
  also have "same_answers ?c ?e" by (auto intro: same_record)
  also have "same_answers ?e w'"
  proof -
    have "w' = (if n = kModulesState then disableModulesStateFeed ?e else ?e)"
      using assms(2) unfolding finishUnload_def Let_def by (simp add: split_beta split del: if_split)
    then show ?thesis by (auto intro: same_later(3) [OF assms(1)])
  qed
  finally show ?thesis by (rule same_told [OF _ assms(1,3-5)])
qed

lemma settle_true:
  assumes "settleLoad E n ld l h inst pid tok w = (Inr True, w')"
  obtains v where "w' = finishLoad E n inst pid tok v"
  using assms by (auto simp: settleLoad_def Let_def loadFailed_def split: prod.splits if_splits)

lemma attempt_true:
  assumes "attemptLoad E n ld l desc inst w = (Inr True, w')"
  obtains pid tok v where "w' = finishLoad E n inst pid tok v"
  using assms
  by (auto simp: attemptLoad_def Let_def loadFailed_def split: prod.splits if_splits launch_result.splits elim!: settle_true)

lemma load_true:
  assumes "loadModuleInternal E n w = (Inr True, w')" and "\<not> isLoaded (w_registry w) n"
  obtains inst pid tok v where "w' = finishLoad E n inst pid tok v"
  using assms
  by (auto simp: loadModuleInternal_def Let_def loadFailed_def split: if_splits option.splits sum.splits elim!: attempt_true)

lemma unload_true:
  assumes "unloadModuleInternal E n w = (True, w')"
  obtains v where "finishUnload E n v = (True, w')"
  using assms by (auto simp: unloadModuleInternal_def Let_def split: if_splits option.splits prod.splits)


definition sampleGuarded :: "inproc world" where
  "sampleGuarded = sampleWorld\<lparr>w_registry := markLoaded 0 kCapabilityModule (registerModule (\<lambda>xs. xs) kCapabilityModule ''/cap'' [] (w_registry sampleWorld)),
     parsedEnforcePolicy := Some \<lparr>ap_version = 1, mode = ''enforce'', restrictions = []\<rparr>\<rparr>"


section \<open>The snapshot\<close>

text \<open>How a listing names the state of an entry.\<close>

definition listed_state :: "ModuleInfo \<Rightarrow> string" where
  "listed_state i = (if \<not> loaded i then kUnloaded else if published i = Some True then kReady else kLoaded)"

definition listed :: "mgr_env \<Rightarrow> registry \<Rightarrow> string list" where
  "listed E r = filter (\<lambda>n. n \<noteq> []) (knownModuleNames (e_hash E) r)"

definition listed_record :: "registry \<Rightarrow> string \<Rightarrow> int \<Rightarrow> json \<Rightarrow> bool" where
  "listed_record r n k j \<longleftrightarrow> jfind j ''module'' = Some (JString n) \<and> jfind j ''seq'' = Some (JInt k)
     \<and> jfind j ''state'' = Some (JString (case find_module r n of None \<Rightarrow> kUnloaded | Some i \<Rightarrow> listed_state i))"

definition entry_of :: "mgr_env \<Rightarrow> registry \<Rightarrow> string \<Rightarrow> json" where
  "entry_of E r n = (case find_module r n of None \<Rightarrow> JNull | Some i \<Rightarrow> moduleEntryJson (e_parse E) n i)"

lemma listed_record_entry:
  assumes "isKnown r n"
  shows "listed_record r n (uint q) (snapshotRecord (entry_of E r n) n q)"
  using assms
  by (auto simp: listed_record_def snapshotRecord_def entry_of_def listed_state_def isKnown_find jfind_def moduleEntryJson_def
      split: option.splits bool.splits)

lemma entry_name: "isKnown r n \<Longrightarrow> jfind (entry_of E r n) ''name'' = Some (JString n)"
  by (auto simp: entry_of_def isKnown_find jfind_def moduleEntryJson_def)

lemma seq_next: "uint (s :: 64 word) + 1 < 2 ^ 64 \<Longrightarrow> uint (s + 1) = uint s + 1"
  by (simp add: uint_word_ariths mod_pos_pos_trivial)

lemma snapshot_run:
  assumes "\<forall>n \<in> set ns. isKnown r n" and "uint (m_seq ob) + int (length ns) < 2 ^ 64"
    and "snapshotRecords (map (entry_of E r) ns) ob = (recs, ob')"
  shows "length recs = length (filter (\<lambda>n. n \<noteq> []) ns)
    \<and> (\<forall>i < length recs. listed_record r (filter (\<lambda>n. n \<noteq> []) ns ! i) (uint (m_seq ob) + int i + 1) (recs ! i))
    \<and> ob' = ob\<lparr>m_seq := m_seq ob'\<rparr> \<and> uint (m_seq ob') = uint (m_seq ob) + int (length recs)"
  using assms
proof (induction ns arbitrary: ob recs)
  case (Cons n ns)
  show ?case
  proof (cases "n = []")
    case True
    with Cons.prems have "snapshotRecords (map (entry_of E r) ns) ob = (recs, ob')" by (simp add: entry_name)
    with Cons.IH [of ob recs] Cons.prems True show ?thesis by simp
  next
    case False
    let ?o = "ob\<lparr>m_seq := m_seq ob + 1\<rparr>"
    obtain rest where rest: "snapshotRecords (map (entry_of E r) ns) ?o = (rest, ob')"
      "recs = snapshotRecord (entry_of E r n) n (m_seq ob + 1) # rest"
      using Cons.prems False by (auto simp: entry_name nextSeq_def split: prod.splits)
    have q: "uint (m_seq ob + 1) = uint (m_seq ob) + 1" by (rule seq_next) (use Cons.prems in simp)
    have ih: "length rest = length (filter (\<lambda>n. n \<noteq> []) ns)"
      "\<And>i. i < length rest \<Longrightarrow> listed_record r (filter (\<lambda>n. n \<noteq> []) ns ! i) (uint (m_seq ob) + int i + 2) (rest ! i)"
      "ob' = ob\<lparr>m_seq := m_seq ob'\<rparr>" "uint (m_seq ob') = uint (m_seq ob) + int (length rest) + 1"
      using Cons.IH [OF _ _ rest(1)] Cons.prems q by (auto simp: algebra_simps)
    have "listed_record r n (uint (m_seq ob) + 1) (snapshotRecord (entry_of E r n) n (m_seq ob + 1))"
      using listed_record_entry [of r n "m_seq ob + 1" E] Cons.prems q by simp
    with ih False show ?thesis by (auto simp: rest(2) nth_Cons algebra_simps split: nat.split)
  qed
qed simp

text \<open>
  The listing for \<open>modules_state\<close> names every known module once, in the order of the registry, with the
  state its entry has now: \<open>ready\<close> only where a watch saw the object published, \<open>loaded\<close> where it is
  loaded otherwise. The numbers are drawn from the observer's counter one after the other, the
  listing's own last, so it exceeds every record's; nothing but the counter moves.
\<close>

theorem snapshot_listing:
  assumes "hash_order (e_hash E)" and "registry_ok (w_registry w)"
    and "uint (m_seq (w_observer w)) + int (length (knownModuleNames (e_hash E) (w_registry w))) + 1 < 2 ^ 64"
    and "buildSnapshotListing E w = (listing, w')"
  shows "\<exists>recs. jfind listing ''modules'' = Some (JArray recs) \<and> length recs = length (listed E (w_registry w))
    \<and> (\<forall>i < length recs. listed_record (w_registry w) (listed E (w_registry w) ! i) (uint (m_seq (w_observer w)) + int i + 1) (recs ! i))
    \<and> jfind listing ''seq'' = Some (JInt (uint (m_seq (w_observer w)) + int (length recs) + 1))
    \<and> inward w' = (inward w)\<lparr>w_observer := (w_observer w)\<lparr>m_seq := m_seq (w_observer w')\<rparr>\<rparr> \<and> rpcs w' = rpcs w"
proof -
  let ?r = "w_registry w" and ?ob = "w_observer w"
  let ?ns = "knownModuleNames (e_hash E) ?r"
  have known: "\<forall>n \<in> set ?ns. isKnown ?r n"
    using assms(1,2) hash_orderD(2) by (fastforce simp: knownModuleNames_def registry_ok_def umap_ok_def isKnown_def)
  have infos: "elements (allModulesInfo (e_hash E) (e_parse E) ?r) = map (entry_of E ?r) ?ns"
    by (simp add: allModulesInfo_def knownModuleNames_def entry_of_def)
  obtain recs ob where run: "snapshotRecords (map (entry_of E ?r) ?ns) ?ob = (recs, ob)" by (cases "snapshotRecords (map (entry_of E ?r) ?ns) ?ob")
  have facts: "length recs = length (listed E ?r)" "uint (m_seq ob) = uint (m_seq ?ob) + int (length recs)"
    "ob = ?ob\<lparr>m_seq := m_seq ob\<rparr>"
    "\<forall>i < length recs. listed_record ?r (listed E ?r ! i) (uint (m_seq ?ob) + int i + 1) (recs ! i)"
    using snapshot_run [OF known _ run] assms(3) by (simp_all add: listed_def)
  have "length recs \<le> length ?ns" unfolding facts(1) listed_def by (rule length_filter_le)
  then have "uint (m_seq ob + 1) = uint (m_seq ?ob) + int (length recs) + 1"
    using seq_next [of "m_seq ob"] facts(2) assms(3) by simp
  moreover have "listing = JObject [(''modules'', JArray recs), (''partial'', JBool False), (''seq'', JInt (uint (m_seq ob + 1)))]"
    "w' = w\<lparr>w_observer := ob\<lparr>m_seq := m_seq ob + 1\<rparr>\<rparr>"
    using assms(4) run by (simp_all add: buildSnapshotListing_def infos nextSeq_def)
  moreover have "ob\<lparr>m_seq := x\<rparr> = ?ob\<lparr>m_seq := x\<rparr>" for x using facts(3) by (cases ob; cases ?ob) simp
  moreover have "inward (w\<lparr>w_observer := x\<rparr>) = (inward w)\<lparr>w_observer := x\<rparr>" for x by (simp add: inward_def)
  ultimately show ?thesis using facts(1,4) by (intro exI [of _ recs]) (simp add: jfind_def)
qed

theorem snapshot_listing_witness:
  "\<exists>recs. jfind (fst (buildSnapshotListing sampleMgr sampleWorld)) ''modules'' = Some (JArray recs) \<and> length recs = 2"
proof -
  have "uint (m_seq (w_observer sampleWorld)) + int (length (knownModuleNames (e_hash sampleMgr) (w_registry sampleWorld))) + 1 < 2 ^ 64"
    "registry_ok (w_registry sampleWorld)" "length (listed sampleMgr (w_registry sampleWorld)) = 2"
    by code_simp+
  moreover have "hash_order (e_hash sampleMgr)" by (simp add: sampleMgr_def hash_order_id)
  ultimately show ?thesis
    using snapshot_listing [of sampleMgr sampleWorld "fst (buildSnapshotListing sampleMgr sampleWorld)"] by (metis prod.collapse)
qed

section \<open>A version that is lost\<close>

text \<open>
  A module whose artifact carries no embedded metadata, as every Bare image, gets a descriptor without any,
  so the Native container tells it version 1.0.0 whatever its manifest said.
\<close>

lemma bare_version_lost:
  "e_extractMetadata E (modulePath (w_registry w) name) = None \<Longrightarrow> moduleVersionOf (buildDescriptor E name w) = Inr ''1.0.0''"
  by (simp add: buildDescriptor_def artifactMetadata_def moduleVersionOf_def kDefaultModuleVersion_def Let_def)

end
