(* ===== verification/LoadRace.thy ===== *)
theory LoadRace
  imports ManagerRun "HOL-Library.Multiset"
begin

text \<open>
  One module, its load and unload path, and the death callback of its container, interleaved at the locks
  of \<open>module_manager.cpp\<close>: \<open>inFlightMutex\<close> makes \<open>recordTerminationDuringLoad\<close> and \<open>commitLoad\<close> one step
  each, \<open>expectedExitMutex\<close> makes \<open>consumeExpectedExit\<close> one, and the module's own mutex lets only one
  load or unload of it run. Every step is a part of the functions of \<open>ModuleManager\<close>; \<open>callback_run\<close> puts the
  three parts of the callback together again. The container is external: a child that runs may die at
  any time, and its callback then runs on another thread whenever that gets to it.

  With \<open>strict\<close> the schedules are those in which a container returns from \<open>terminate\<close> only when the callbacks
  of that child have run, and a callback that began has looked at the announced exits before the next unload
  announces one. The lemmas at the end show what the feed says otherwise. That the module is known is asked before its mutex is
  taken, so a scan may drop it in between, and no step relies on it.
\<close>

section \<open>State and steps\<close>

datatype load_pc = Resting | Attempt | LaunchedPc | Failing bool | CommittedPc | StoppingPc | MarkedPc | TornPc

text \<open>Where a callback is: before its first step, owner of the death, and knowing how to report it.\<close>

datatype callback = CbStart | CbMarked | CbReport bool

record 'c race =
  rc_w :: "'c world"
  rc_pc :: load_pc
  rc_alive :: bool
  rc_cbs :: "callback multiset"

definition reportDeath :: "mgr_env \<Rightarrow> string \<Rightarrow> bool \<Rightarrow> 'c world \<Rightarrow> 'c world" where
  "reportDeath E n asked w =
     (if asked then flushFeed E (record_edge n kStopping kUnloaded None None None w)
      else superviseUnexpectedExit E n
        (flushFeed E (record_edge n kLoaded kError None None (Some ''module exited without being asked to'') w)))"

lemma callback_run:
  "onTerminated E n w = (let (mine, w) = recordTerminationDuringLoad n w in
     if mine then w else let (asked, w) = consumeExpectedExit n w in reportDeath E n asked w)"
  by (simp add: onTerminated_def reportDeath_def Let_def split: prod.split)

definition no_start :: "'c race \<Rightarrow> bool" where
  "no_start r \<longleftrightarrow> count (rc_cbs r) CbStart = 0"

definition no_marked :: "'c race \<Rightarrow> bool" where
  "no_marked r \<longleftrightarrow> count (rc_cbs r) CbMarked = 0"

inductive race_step :: "bool \<Rightarrow> mgr_env \<Rightarrow> string \<Rightarrow> 'c race \<Rightarrow> 'c race \<Rightarrow> bool" for strict E n where
  BeginLoad: "race_step strict E n r (r\<lparr>rc_pc := Attempt,
      rc_w := beginLoadAttempt n (record_edge n kUnloaded kLoading inst None None (rc_w r))\<rparr>)"
    if "rc_pc r = Resting" "\<not> isLoaded (w_registry (rc_w r)) n"
| Refused: "race_step strict E n r (r\<lparr>rc_w := record_edge n kUnloaded kError None None (Some mismatch) (rc_w r)\<rparr>)"
    if "rc_pc r = Resting" "\<not> isLoaded (w_registry (rc_w r)) n"
| LaunchFails: "race_step strict E n r (r\<lparr>rc_pc := Resting,
      rc_w := snd (loadFailed n inst None reason (abandonLoadAttempt n (rc_w r)))\<rparr>)"
    if "rc_pc r = Attempt"
| Launch: "race_step strict E n r (r\<lparr>rc_pc := LaunchedPc, rc_alive := True\<rparr>)"
    if "rc_pc r = Attempt"
| FailBegin: "race_step strict E n r (r\<lparr>rc_pc := Failing announced, rc_alive := False,
      rc_w := (if announced then markExitExpected n (rc_w r) else rc_w r),
      rc_cbs := (if rc_alive r \<and> called then add_mset CbStart (rc_cbs r) else rc_cbs r)\<rparr>)"
    if "rc_pc r = LaunchedPc"
| FailEnd: "race_step strict E n r (r\<lparr>rc_pc := Resting,
      rc_w := snd (loadFailed n inst pid reason (abandonLoadAttempt n
        (if announced then snd (consumeExpectedExit n (rc_w r)) else rc_w r)))\<rparr>)"
    if "rc_pc r = Failing announced" "strict \<Longrightarrow> no_start r"
| Commit: "race_step strict E n r (r\<lparr>rc_pc := CommittedPc, rc_w := w\<rparr>)"
    if "rc_pc r = LaunchedPc" "commitLoad now n ld h (rc_w r) = (True, w)"
| CommitFails: "race_step strict E n r (r\<lparr>rc_pc := Resting,
      rc_w := snd (loadFailed n inst pid ''the module process exited while it was loading'' w)\<rparr>)"
    if "rc_pc r = LaunchedPc" "commitLoad now n ld h (rc_w r) = (False, w)"
| FinishLoad: "race_step strict E n r (r\<lparr>rc_pc := Resting, rc_w := finishLoad E n inst pid tok (rc_w r)\<rparr>)"
    if "rc_pc r = CommittedPc"
| BeginUnload: "race_step strict E n r (r\<lparr>rc_pc := StoppingPc, rc_w := record_edge n kLoaded kStopping None None None (rc_w r)\<rparr>)"
    if "rc_pc r = Resting" "isLoaded (w_registry (rc_w r)) n"
| UnloadVoid: "race_step strict E n r (r\<lparr>rc_pc := Resting,
      rc_w := record_edge n kStopping kLoaded None None (Some ''no module entry found; teardown not started'') (rc_w r)\<rparr>)"
    if "rc_pc r = StoppingPc" "\<not> rc_alive r"
| UnloadMark: "race_step strict E n r (r\<lparr>rc_pc := MarkedPc, rc_w := markExitExpected n (rc_w r)\<rparr>)"
    if "rc_pc r = StoppingPc" "rc_alive r" "strict \<Longrightarrow> no_marked r"
| UnloadTerminate: "race_step strict E n r (r\<lparr>rc_pc := TornPc, rc_alive := False,
      rc_cbs := (if rc_alive r \<and> called then add_mset CbStart (rc_cbs r) else rc_cbs r)\<rparr>)"
    if "rc_pc r = MarkedPc"
| UnloadFinish: "race_step strict E n r (r\<lparr>rc_pc := Resting, rc_w := snd (finishUnload E n (rc_w r))\<rparr>)"
    if "rc_pc r = TornPc" "strict \<Longrightarrow> no_start r \<and> no_marked r"
| Die: "race_step strict E n r (r\<lparr>rc_alive := False, rc_cbs := add_mset CbStart (rc_cbs r)\<rparr>)"
    if "rc_alive r"
| CallbackOwned: "race_step strict E n r (r\<lparr>rc_w := w, rc_cbs := rc_cbs r - {#CbStart#}\<rparr>)"
    if "CbStart \<in># rc_cbs r" "recordTerminationDuringLoad n (rc_w r) = (True, w)"
| CallbackFree: "race_step strict E n r (r\<lparr>rc_w := w, rc_cbs := add_mset CbMarked (rc_cbs r - {#CbStart#})\<rparr>)"
    if "CbStart \<in># rc_cbs r" "recordTerminationDuringLoad n (rc_w r) = (False, w)"
| CallbackConsume: "race_step strict E n r (r\<lparr>rc_w := w, rc_cbs := add_mset (CbReport asked) (rc_cbs r - {#CbMarked#})\<rparr>)"
    if "CbMarked \<in># rc_cbs r" "consumeExpectedExit n (rc_w r) = (asked, w)"
| CallbackReport: "race_step strict E n r (r\<lparr>rc_w := reportDeath E n asked (rc_w r), rc_cbs := rc_cbs r - {#CbReport asked#}\<rparr>)"
    if "CbReport asked \<in># rc_cbs r"

inductive race_reach :: "bool \<Rightarrow> mgr_env \<Rightarrow> string \<Rightarrow> 'c race \<Rightarrow> 'c race \<Rightarrow> bool" for strict E n r0 where
  Start: "race_reach strict E n r0 r0"
| Step: "race_reach strict E n r0 r \<Longrightarrow> race_step strict E n r r' \<Longrightarrow> race_reach strict E n r0 r'"

text \<open>Before anything happens: a listener, and nothing of the module, which is not the listener.\<close>

definition race_start :: "string \<Rightarrow> 'c world \<Rightarrow> bool" where
  "race_start n w \<longleftrightarrow> n \<noteq> [] \<and> n \<noteq> kModulesState \<and> listening w \<and> isKnown (w_registry w) n \<and> \<not> isLoaded (w_registry w) n
     \<and> map_of (inFlightLoads w) n = None \<and> n \<notin> set (expectedExits w) \<and> world_feed w = []"

definition raceOf :: "'c world \<Rightarrow> 'c race" where
  "raceOf w = \<lparr>rc_w = w, rc_pc = Resting, rc_alive = False, rc_cbs = {#}\<rparr>"

section \<open>What the steps see\<close>

definition flight_of :: "string \<Rightarrow> 'c world \<Rightarrow> bool option" where
  "flight_of n w = map_of (inFlightLoads w) n"

definition loaded_in :: "string \<Rightarrow> 'c world \<Rightarrow> bool" where
  "loaded_in n w = isLoaded (w_registry w) n"

definition marked_in :: "string \<Rightarrow> 'c world \<Rightarrow> bool" where
  "marked_in n w \<longleftrightarrow> n \<in> set (expectedExits w)"

text \<open>The loads that began and the ends the feed reports; a refusal, \<open>unloaded -> error\<close>, is neither.\<close>

definition begins :: "string \<Rightarrow> 'c world \<Rightarrow> nat" where
  "begins n w = length (filter (\<lambda>(m, a, b). m = n \<and> a = kUnloaded \<and> b = kLoading) (world_feed w))"

definition ends :: "string \<Rightarrow> 'c world \<Rightarrow> nat" where
  "ends n w = length (filter (\<lambda>(m, a, b). m = n \<and> (a \<noteq> kUnloaded \<and> b = kError \<or> a = kStopping \<and> b = kUnloaded)) (world_feed w))"

lemmas sees = flight_of_def loaded_in_def marked_in_def begins_def ends_def

named_theorems sights

lemma see_record [sights]:
  "flight_of n (record_edge m a b i p rs w) = flight_of n w" "loaded_in n (record_edge m a b i p rs w) = loaded_in n w"
  "marked_in n (record_edge m a b i p rs w) = marked_in n w"
  by (simp_all add: sees)

lemma count_record [sights]:
  assumes "n \<noteq> []" and "listening w" and "a \<noteq> []" and "b \<noteq> []" and "a \<noteq> b"
  shows "begins n (record_edge n a b i p rs w) = begins n w + (if a = kUnloaded \<and> b = kLoading then 1 else 0)"
    and "ends n (record_edge n a b i p rs w) = ends n w + (if a \<noteq> kUnloaded \<and> b = kError \<or> a = kStopping \<and> b = kUnloaded then 1 else 0)"
  using assms by (simp_all add: sees world_feed_record)

lemma see_attempt [sights]:
  "flight_of n (beginLoadAttempt n w) = Some False" "loaded_in n (beginLoadAttempt n w) = loaded_in n w"
  "marked_in n (beginLoadAttempt n w) = marked_in n w" "begins n (beginLoadAttempt n w) = begins n w"
  "ends n (beginLoadAttempt n w) = ends n w" "listening (beginLoadAttempt n w) = listening w"
  "flight_of n (abandonLoadAttempt n w) = None" "loaded_in n (abandonLoadAttempt n w) = loaded_in n w"
  "marked_in n (abandonLoadAttempt n w) = marked_in n w" "begins n (abandonLoadAttempt n w) = begins n w"
  "ends n (abandonLoadAttempt n w) = ends n w"
  by (simp_all add: sees beginLoadAttempt_def abandonLoadAttempt_def)

lemma see_mark [sights]:
  "flight_of n (markExitExpected n w) = flight_of n w" "loaded_in n (markExitExpected n w) = loaded_in n w"
  "marked_in n (markExitExpected n w)" "begins n (markExitExpected n w) = begins n w" "ends n (markExitExpected n w) = ends n w"
  "flight_of n (snd (consumeExpectedExit n w)) = flight_of n w" "loaded_in n (snd (consumeExpectedExit n w)) = loaded_in n w"
  "\<not> marked_in n (snd (consumeExpectedExit n w))" "begins n (snd (consumeExpectedExit n w)) = begins n w"
  "ends n (snd (consumeExpectedExit n w)) = ends n w"
  by (simp_all add: sees)

lemma see_consume:
  assumes "consumeExpectedExit n w = (asked, w')"
  shows "asked = marked_in n w" and "flight_of n w' = flight_of n w" and "loaded_in n w' = loaded_in n w"
    and "\<not> marked_in n w'" and "begins n w' = begins n w" and "ends n w' = ends n w" and "listening w' = listening w"
  using assms see_mark(6-10) [of n w] by (auto simp: marked_in_def consumeExpectedExit_def)

lemma see_death:
  assumes "recordTerminationDuringLoad n w = (mine, w')"
  shows "mine = (flight_of n w \<noteq> None)" and "flight_of n w' = (if mine then Some True else None)" and "\<not> loaded_in n w'"
    and "marked_in n w' = marked_in n w" and "begins n w' = begins n w" and "ends n w' = ends n w" and "listening w' = listening w"
  using assms by (auto simp: recordTerminationDuringLoad_def Let_def sees split: option.splits)

lemma see_commit:
  assumes "commitLoad now n ld h w = (committed, w')" and "flight_of n w = Some died" and "\<not> loaded_in n w"
  shows "committed = (\<not> died)" and "flight_of n w' = None" and "loaded_in n w' = (\<not> died)"
    and "marked_in n w' = marked_in n w" and "begins n w' = begins n w" and "ends n w' = ends n w" and "listening w' = listening w"
  using assms by (auto simp: commitLoad_def Let_def sees split: if_splits)

lemma see_failed [sights]:
  "snd (loadFailed n inst pid reason w) = record_edge n kLoading kError inst pid (Some reason) w"
  by (simp add: loadFailed_def)

lemma quiet_sights:
  assumes "inward w' = inward w"
  shows "flight_of n w' = flight_of n w" "loaded_in n w' = loaded_in n w" "marked_in n w' = marked_in n w"
    "begins n w' = begins n w" "ends n w' = ends n w" "listening w' = listening w"
  using inward_fields [OF assms] inward_feed [OF assms] by (simp_all add: sees)

lemma see_finishLoad:
  "flight_of n (finishLoad E n inst pid tok w) = flight_of n w" "loaded_in n (finishLoad E n inst pid tok w) = loaded_in n w"
  "marked_in n (finishLoad E n inst pid tok w) = marked_in n w"
  "n \<noteq> [] \<Longrightarrow> listening w \<Longrightarrow> begins n (finishLoad E n inst pid tok w) = begins n w"
  "n \<noteq> [] \<Longrightarrow> listening w \<Longrightarrow> ends n (finishLoad E n inst pid tok w) = ends n w"
  by (simp_all add: sees finishLoad_frames)
    (simp_all add: finishLoad_def Let_def armReadinessWatch_def enableModulesStateFeed_def saveToken_def)

lemma see_reportDeath:
  assumes "n \<noteq> []" and "listening w"
  shows "flight_of n (reportDeath E n b w) = flight_of n w" "loaded_in n (reportDeath E n b w) = loaded_in n w"
    "marked_in n (reportDeath E n b w) = marked_in n w" "begins n (reportDeath E n b w) = begins n w"
    "ends n (reportDeath E n b w) = Suc (ends n w)" "listening (reportDeath E n b w)"
  using assms
  by (simp_all add: sees reportDeath_def superviseUnexpectedExit_def Let_def world_feed_record split: prod.split Decision.split)


lemma see_finishUnload:
  assumes "n \<noteq> []" and "n \<noteq> kModulesState" and "listening w"
  shows "flight_of n (snd (finishUnload E n w)) = flight_of n w" "\<not> loaded_in n (snd (finishUnload E n w))"
    "\<not> marked_in n (snd (finishUnload E n w))" "begins n (snd (finishUnload E n w)) = begins n w"
    "ends n (snd (finishUnload E n w)) = ends n w + (if marked_in n w then 1 else 0)" "listening (snd (finishUnload E n w))"
proof -
  let ?v = "refreshDerivedRestrictionsForDependenciesOf E n (w\<lparr>w_registry := markUnloaded n (w_registry w), w_supervisor := forget n (w_supervisor w)\<rparr>)"
  obtain asked u where c: "consumeExpectedExit n ?v = (asked, u)" by (cases "consumeExpectedExit n ?v")
  have f: "snd (finishUnload E n w) = (if asked then record_edge n kStopping kUnloaded None None None u else u)"
    using assms(2) c by (simp add: finishUnload_def Let_def)
  have v: "flight_of n ?v = flight_of n w" "\<not> loaded_in n ?v" "marked_in n ?v = marked_in n w" "begins n ?v = begins n w"
    "ends n ?v = ends n w" "listening ?v"
    using quiet_sights [OF inward_outgoing(2)] assms(3) by (simp_all add: sees)
  show "flight_of n (snd (finishUnload E n w)) = flight_of n w" "\<not> loaded_in n (snd (finishUnload E n w))"
    "\<not> marked_in n (snd (finishUnload E n w))" "begins n (snd (finishUnload E n w)) = begins n w"
    "ends n (snd (finishUnload E n w)) = ends n w + (if marked_in n w then 1 else 0)" "listening (snd (finishUnload E n w))"
    using see_consume [OF c] v assms(1) by (simp_all add: f sights)
qed

section \<open>No dead module stays loaded\<close>

text \<open>On every schedule: a module that is marked loaded and whose child is gone has a callback still to come.\<close>

definition alive_or_told :: "string \<Rightarrow> 'c race \<Rightarrow> bool" where
  "alive_or_told n r \<longleftrightarrow> n \<noteq> [] \<and> n \<noteq> kModulesState \<and> listening (rc_w r)
     \<and> (rc_pc r \<noteq> TornPc \<and> loaded_in n (rc_w r) \<and> \<not> rc_alive r \<longrightarrow> CbStart \<in># rc_cbs r)
     \<and> (rc_pc r = LaunchedPc \<and> flight_of n (rc_w r) = Some False \<and> \<not> rc_alive r \<longrightarrow> CbStart \<in># rc_cbs r)
     \<and> (rc_pc r \<in> {Attempt, LaunchedPc} \<longrightarrow> flight_of n (rc_w r) \<noteq> None)
     \<and> (rc_pc r \<in> {Attempt, LaunchedPc} \<longrightarrow> \<not> loaded_in n (rc_w r))"

lemma told_step:
  assumes "race_step strict E n r r'" and "alive_or_told n r"
  shows "alive_or_told n r'"
  using assms
proof cases
  case (Commit now ld h w)
  then obtain died where "flight_of n (rc_w r) = Some died" using assms(2) by (auto simp: alive_or_told_def)
  with Commit assms(2) see_commit [OF Commit(3) this] show ?thesis by (auto simp: alive_or_told_def)
next
  case (CommitFails now ld h w)
  then obtain died where "flight_of n (rc_w r) = Some died" using assms(2) by (auto simp: alive_or_told_def)
  with CommitFails assms(2) see_commit [OF CommitFails(3) this] show ?thesis by (auto simp: alive_or_told_def sights)
next
  case (CallbackOwned w)
  with assms(2) see_death [OF CallbackOwned(3)] show ?thesis by (auto simp: alive_or_told_def)
next
  case (CallbackFree w)
  with assms(2) see_death [OF CallbackFree(3)] show ?thesis by (auto simp: alive_or_told_def)
next
  case (CallbackConsume asked w)
  with assms(2) see_consume [OF CallbackConsume(3)] show ?thesis by (auto simp: alive_or_told_def in_diff_count)
next
  case (CallbackReport asked)
  with assms(2) show ?thesis by (auto simp: alive_or_told_def see_reportDeath in_diff_count)
next
  case UnloadFinish
  with assms(2) see_finishUnload [of n "rc_w r" E] show ?thesis by (auto simp: alive_or_told_def)
next
  case (BeginLoad inst)
  then have "\<not> loaded_in n (rc_w r)" by (simp add: loaded_in_def)
  with BeginLoad assms(2) show ?thesis by (auto simp: alive_or_told_def sights)
qed (auto simp: alive_or_told_def sights see_finishLoad finishLoad_frames)

lemma told_reach:
  assumes "race_reach strict E n (raceOf w0) r" and "race_start n w0"
  shows "alive_or_told n r"
  using assms
proof (induction rule: race_reach.induct)
  case Start
  then show ?case by (simp add: alive_or_told_def race_start_def raceOf_def loaded_in_def)
qed (blast intro: told_step)

section \<open>Every load that began ends once\<close>

definition open_load :: "'c race \<Rightarrow> nat" where
  "open_load r = (case rc_pc r of Attempt \<Rightarrow> 1 | LaunchedPc \<Rightarrow> 1 | Failing _ \<Rightarrow> 1 | _ \<Rightarrow> 0)"

definition unreported :: "'c race \<Rightarrow> nat" where
  "unreported r = count (rc_cbs r) CbMarked + count (rc_cbs r) (CbReport True) + count (rc_cbs r) (CbReport False)"

definition balanced :: "string \<Rightarrow> 'c race \<Rightarrow> bool" where
  "balanced n r \<longleftrightarrow> begins n (rc_w r) = ends n (rc_w r) + unreported r + open_load r + (if loaded_in n (rc_w r) then 1 else 0)"

text \<open>The callbacks of the child that runs or ran last, by where the load or unload path is.\<close>

definition race_fit :: "string \<Rightarrow> 'c race \<Rightarrow> bool" where
  "race_fit n r \<longleftrightarrow> (let starts = count (rc_cbs r) CbStart; loads = loaded_in n (rc_w r); marks = marked_in n (rc_w r);
      flight = flight_of n (rc_w r); quiet = (starts = 0 \<and> \<not> rc_alive r); fresh = (starts = (if rc_alive r then 0 else 1)) in
    case rc_pc r of
      Attempt \<Rightarrow> flight = Some False \<and> \<not> loads \<and> quiet \<and> \<not> marks
    | LaunchedPc \<Rightarrow> \<not> loads \<and> \<not> marks \<and> (case flight of None \<Rightarrow> False | Some died \<Rightarrow> if died then quiet else fresh)
    | Failing announced \<Rightarrow> flight \<noteq> None \<and> \<not> loads \<and> \<not> rc_alive r \<and> (announced \<or> \<not> marks)
    | MarkedPc \<Rightarrow> flight = None \<and> (if loads then marks \<and> no_marked r \<and> fresh
        else quiet \<and> (if marks then count (rc_cbs r) CbMarked = 1 else True))
    | TornPc \<Rightarrow> flight = None \<and> \<not> rc_alive r \<and> (if loads then marks \<and> no_marked r \<and> starts \<le> 1
        else starts = 0 \<and> (if marks then count (rc_cbs r) CbMarked = 1 else True))
    | _ \<Rightarrow> flight = None \<and> \<not> marks \<and> (if loads then fresh else quiet))"

definition race_inv :: "string \<Rightarrow> 'c race \<Rightarrow> bool" where
  "race_inv n r \<longleftrightarrow> n \<noteq> [] \<and> n \<noteq> kModulesState \<and> listening (rc_w r) \<and> race_fit n r \<and> balanced n r"

lemmas race_defs = race_inv_def race_fit_def balanced_def Let_def

lemma race_inv_step:
  assumes "race_step True E n r r'" and "race_inv n r"
  shows "race_inv n r'"
  using assms
proof cases
  case (BeginLoad inst)
  then have "\<not> loaded_in n (rc_w r)" by (simp add: loaded_in_def)
  with BeginLoad assms(2) show ?thesis by (simp add: race_defs sights unreported_def open_load_def)
next
  case (Refused mismatch)
  then have "\<not> loaded_in n (rc_w r)" by (simp add: loaded_in_def)
  with Refused assms(2) show ?thesis by (simp add: race_defs sights unreported_def open_load_def)
next
  case (LaunchFails inst reason)
  with assms(2) show ?thesis by (simp add: race_defs sights unreported_def open_load_def)
next
  case Launch
  with assms(2) show ?thesis by (simp add: race_defs sights unreported_def open_load_def)
next
  case (FailBegin called announced)
  with assms(2) show ?thesis
    by (cases announced) (auto simp: race_defs sights unreported_def open_load_def split: option.splits if_splits)
next
  case (FailEnd inst pid reason announced)
  with assms(2) show ?thesis
    by (cases announced) (auto simp: race_defs sights unreported_def open_load_def no_start_def)
next
  case (Commit now ld h w)
  then obtain died where "flight_of n (rc_w r) = Some died" "\<not> loaded_in n (rc_w r)"
    using assms(2) by (auto simp: race_defs split: option.splits)
  with Commit assms(2) see_commit [OF Commit(3) this] show ?thesis by (simp add: race_defs unreported_def open_load_def)
next
  case (CommitFails now ld h w inst pid)
  then obtain died where "flight_of n (rc_w r) = Some died" "\<not> loaded_in n (rc_w r)"
    using assms(2) by (auto simp: race_defs split: option.splits)
  with CommitFails assms(2) see_commit [OF CommitFails(3) this] show ?thesis
    by (simp add: race_defs sights unreported_def open_load_def)
next
  case (FinishLoad inst pid tok)
  with assms(2) show ?thesis by (simp add: race_defs see_finishLoad finishLoad_frames unreported_def open_load_def)
next
  case BeginUnload
  with assms(2) show ?thesis by (auto simp: race_defs sights no_marked_def unreported_def open_load_def split: if_splits)
next
  case UnloadVoid
  with assms(2) show ?thesis by (auto simp: race_defs sights no_marked_def unreported_def open_load_def split: if_splits)
next
  case UnloadMark
  with assms(2) show ?thesis by (auto simp: race_defs sights no_marked_def unreported_def open_load_def split: if_splits)
next
  case (UnloadTerminate called)
  with assms(2) show ?thesis by (auto simp: race_defs sights no_marked_def unreported_def open_load_def)
next
  case UnloadFinish
  with assms(2) see_finishUnload [of n "rc_w r" E] show ?thesis
    by (auto simp: race_defs unreported_def open_load_def no_start_def no_marked_def split: if_splits)
next
  case Die
  with assms(2) show ?thesis
    by (cases "rc_pc r") (auto simp: race_defs unreported_def open_load_def no_marked_def split: option.splits if_splits)
next
  case (CallbackOwned w)
  then have "count (rc_cbs r) CbStart \<noteq> 0" by (simp add: count_eq_zero_iff)
  with CallbackOwned assms(2) see_death [OF CallbackOwned(3)] show ?thesis
    by (cases "rc_pc r") (auto simp: race_defs unreported_def open_load_def split: option.splits if_splits dest: count_eq_zero_iff [THEN iffD1])
next
  case (CallbackFree w)
  then have "count (rc_cbs r) CbStart \<noteq> 0" by (simp add: count_eq_zero_iff)
  with CallbackFree assms(2) see_death [OF CallbackFree(3)] show ?thesis
    by (cases "rc_pc r") (auto simp: race_defs unreported_def open_load_def no_marked_def split: option.splits if_splits dest: count_eq_zero_iff [THEN iffD1])
next
  case (CallbackConsume asked w)
  then have "count (rc_cbs r) CbMarked \<noteq> 0" by (simp add: count_eq_zero_iff)
  with CallbackConsume assms(2) see_consume [OF CallbackConsume(3)] show ?thesis
    by (cases "rc_pc r") (auto simp: race_defs unreported_def open_load_def no_marked_def split: option.splits if_splits dest: count_eq_zero_iff [THEN iffD1])
next
  case (CallbackReport asked)
  then have "count (rc_cbs r) (CbReport asked) \<noteq> 0" by (simp add: count_eq_zero_iff)
  with CallbackReport assms(2) show ?thesis
    by (cases "rc_pc r") (auto simp: race_defs see_reportDeath unreported_def open_load_def no_marked_def split: option.splits if_splits dest: count_eq_zero_iff [THEN iffD1])
qed

lemma race_inv_reach:
  assumes "race_reach True E n (raceOf w0) r" and "race_start n w0"
  shows "race_inv n r"
  using assms
proof (induction rule: race_reach.induct)
  case Start
  then have "flight_of n w0 = None" "\<not> loaded_in n w0" "\<not> marked_in n w0" "begins n w0 = 0" "ends n w0 = 0" "listening w0"
    "n \<noteq> []" "n \<noteq> kModulesState"
    by (simp_all add: race_start_def sees)
  then show ?case by (simp add: race_defs raceOf_def unreported_def open_load_def)
qed (blast intro: race_inv_step)

section \<open>Properties\<close>

text \<open>The concrete schedules: a load of \<open>a\<close> up to its launch, its commit, and the three parts of a callback.\<close>

definition tryingA :: "inproc world" where
  "tryingA = beginLoadAttempt ''a'' (record_edge ''a'' kUnloaded kLoading None None None sampleWorld)"

definition committedA :: "inproc world" where
  "committedA = snd (commitLoad 0 ''a'' 0 emptyHandle tryingA)"

definition calledBack :: "'c world \<Rightarrow> 'c world" where
  "calledBack w = reportDeath sampleMgr ''a'' False (snd (consumeExpectedExit ''a'' (snd (recordTerminationDuringLoad ''a'' w)))) "

lemma race_via: "race_reach s E n r0 r \<Longrightarrow> race_step s E n r r' \<Longrightarrow> r' = r'' \<Longrightarrow> race_reach s E n r0 r''"
  using race_reach.Step by metis

lemma sample_start: "race_start ''a'' sampleWorld"
  unfolding race_start_def by (intro conjI) code_simp+

lemma launched_reach: "race_reach s sampleMgr ''a'' (raceOf sampleWorld) \<lparr>rc_w = tryingA, rc_pc = LaunchedPc, rc_alive = True, rc_cbs = {#}\<rparr>"
proof -
  have "\<not> isLoaded (w_registry sampleWorld) ''a''" using sample_start by (simp add: race_start_def)
  then have "race_step s sampleMgr ''a'' (raceOf sampleWorld) \<lparr>rc_w = tryingA, rc_pc = Attempt, rc_alive = False, rc_cbs = {#}\<rparr>"
    using BeginLoad [of "raceOf sampleWorld" "''a''" s sampleMgr None] by (simp add: raceOf_def tryingA_def)
  moreover have "race_step s sampleMgr ''a'' \<lparr>rc_w = tryingA, rc_pc = Attempt, rc_alive = False, rc_cbs = {#}\<rparr>
      \<lparr>rc_w = tryingA, rc_pc = LaunchedPc, rc_alive = True, rc_cbs = {#}\<rparr>"
    using Launch [of "\<lparr>rc_w = tryingA, rc_pc = Attempt, rc_alive = False, rc_cbs = {#}\<rparr>" s sampleMgr "''a''"] by simp
  ultimately show ?thesis by (blast intro: race_reach.intros)
qed

lemma committed_reach: "race_reach s sampleMgr ''a'' (raceOf sampleWorld) \<lparr>rc_w = committedA, rc_pc = CommittedPc, rc_alive = True, rc_cbs = {#}\<rparr>"
proof -
  have "commitLoad 0 ''a'' 0 emptyHandle tryingA = (True, committedA)"
    by (simp add: committedA_def commitLoad_def tryingA_def beginLoadAttempt_def Let_def)
  then show ?thesis
    by (intro race_via [OF launched_reach Commit [where w = committedA]]) simp_all
qed

lemma callback_reach:
  assumes "race_reach s sampleMgr ''a'' r0 \<lparr>rc_w = w, rc_pc = pc, rc_alive = b, rc_cbs = {#CbStart#}\<rparr>"
    and "fst (recordTerminationDuringLoad ''a'' w) = False" and "''a'' \<notin> set (expectedExits w)"
  shows "race_reach s sampleMgr ''a'' r0 \<lparr>rc_w = calledBack w, rc_pc = pc, rc_alive = b, rc_cbs = {#}\<rparr>"
proof -
  obtain v where v: "recordTerminationDuringLoad ''a'' w = (False, v)" using assms(2) by (metis prod.collapse)
  have "''a'' \<notin> set (expectedExits v)" using see_death(4) [OF v] assms(3) by (simp add: marked_in_def)
  then have u: "consumeExpectedExit ''a'' v = (False, snd (consumeExpectedExit ''a'' v))" by (simp add: consumeExpectedExit_def)
  have "race_reach s sampleMgr ''a'' r0 \<lparr>rc_w = v, rc_pc = pc, rc_alive = b, rc_cbs = {#CbMarked#}\<rparr>"
    using v by (intro race_via [OF assms(1) CallbackFree [where w = v]]) simp_all
  then have "race_reach s sampleMgr ''a'' r0 \<lparr>rc_w = snd (consumeExpectedExit ''a'' v), rc_pc = pc, rc_alive = b, rc_cbs = {#CbReport False#}\<rparr>"
    using u by (elim race_via [OF _ CallbackConsume [where w = "snd (consumeExpectedExit ''a'' v)" and asked = False]]) simp_all
  then show ?thesis
    using v by (elim race_via [OF _ CallbackReport [where asked = False]]) (simp_all add: calledBack_def)
qed

text \<open>
  Whatever the schedule, and however late the container's callbacks run: a module that is marked loaded
  while nothing of it runs has a death callback still to come, which will unmark it; so with no callback
  outstanding and no load or unload under way, a module marked loaded runs.
\<close>

theorem no_dead_module_stays_loaded:
  assumes "race_reach strict E n (raceOf w0) r" and "race_start n w0" and "rc_pc r = Resting"
    and "isLoaded (w_registry (rc_w r)) n"
  shows "rc_alive r \<or> CbStart \<in># rc_cbs r"
  using told_reach [OF assms(1,2)] assms(3,4) by (auto simp: alive_or_told_def loaded_in_def)

text \<open>
  On the strict schedules the feed is exact at rest: once no callback is outstanding, every load that the feed
  says began has been reported ended once, by the load that failed, the unload or the crash, except
  the one that is loaded now.
\<close>

theorem each_load_ends_once:
  assumes "race_reach True E n (raceOf w0) r" and "race_start n w0" and "rc_pc r = Resting" and "rc_cbs r = {#}"
  shows "begins n (rc_w r) = ends n (rc_w r) + (if isLoaded (w_registry (rc_w r)) n then 1 else 0)
    \<and> (isLoaded (w_registry (rc_w r)) n \<longleftrightarrow> rc_alive r)"
  using race_inv_reach [OF assms(1,2)] assms(3,4)
  by (auto simp: race_defs unreported_def open_load_def loaded_in_def split: if_splits)

theorem no_dead_module_stays_loaded_witness:
  "rc_alive \<lparr>rc_w = finishLoad sampleMgr ''a'' None None ''t'' committedA, rc_pc = Resting, rc_alive = True, rc_cbs = {#}\<rparr> \<or> CbStart \<in># {#}"
proof -
  let ?r = "\<lparr>rc_w = finishLoad sampleMgr ''a'' None None ''t'' committedA, rc_pc = Resting, rc_alive = True, rc_cbs = {#}\<rparr>"
  have r: "race_reach False sampleMgr ''a'' (raceOf sampleWorld) ?r"
    by (rule race_via [OF committed_reach FinishLoad [where inst = None and pid = None and tok = "''t''"]]) simp_all
  have "isLoaded (w_registry (rc_w ?r)) ''a''" by code_simp
  then show ?thesis using no_dead_module_stays_loaded [OF r sample_start] by simp
qed

theorem each_load_ends_once_witness:
  "begins ''a'' (finishLoad sampleMgr ''a'' None None ''t'' committedA) = 1 \<and> ends ''a'' (finishLoad sampleMgr ''a'' None None ''t'' committedA) = 0"
proof -
  let ?r = "\<lparr>rc_w = finishLoad sampleMgr ''a'' None None ''t'' committedA, rc_pc = Resting, rc_alive = True, rc_cbs = {#}\<rparr>"
  have r: "race_reach True sampleMgr ''a'' (raceOf sampleWorld) ?r"
    by (rule race_via [OF committed_reach FinishLoad [where inst = None and pid = None and tok = "''t''"]]) simp_all
  have "isLoaded (w_registry (rc_w ?r)) ''a''" "begins ''a'' (rc_w ?r) = 1" by code_simp+
  then show ?thesis using each_load_ends_once [OF r sample_start] by simp
qed

section \<open>What the feed may say\<close>

text \<open>
  A crash between the commit of a load and its last record, on a strict schedule: the callback's
  \<open>loaded -> error\<close> comes before the load's \<open>loading -> loaded\<close>, and the feed ends with a loaded module that is not there.
\<close>

lemma feed_ends_in_loaded:
  "\<exists>r. race_reach True sampleMgr ''a'' (raceOf sampleWorld) r \<and> rc_pc r = Resting \<and> rc_cbs r = {#} \<and> \<not> rc_alive r
     \<and> \<not> isLoaded (w_registry (rc_w r)) ''a''
     \<and> world_feed (rc_w r) = [(''a'', kUnloaded, kLoading), (''a'', kLoaded, kError), (''a'', kLoading, kLoaded)]"
proof -
  let ?w = "finishLoad sampleMgr ''a'' None None ''t'' (calledBack committedA)"
  have "race_reach True sampleMgr ''a'' (raceOf sampleWorld) \<lparr>rc_w = committedA, rc_pc = CommittedPc, rc_alive = False, rc_cbs = {#CbStart#}\<rparr>"
    by (rule race_via [OF committed_reach Die]) simp_all
  moreover have "fst (recordTerminationDuringLoad ''a'' committedA) = False" "''a'' \<notin> set (expectedExits committedA)" by code_simp+
  ultimately have "race_reach True sampleMgr ''a'' (raceOf sampleWorld) \<lparr>rc_w = calledBack committedA, rc_pc = CommittedPc, rc_alive = False, rc_cbs = {#}\<rparr>"
    by (rule callback_reach)
  then have "race_reach True sampleMgr ''a'' (raceOf sampleWorld) \<lparr>rc_w = ?w, rc_pc = Resting, rc_alive = False, rc_cbs = {#}\<rparr>"
    by (rule race_via [OF _ FinishLoad [where inst = None and pid = None and tok = "''t''"]]) simp_all
  moreover have "\<not> isLoaded (w_registry ?w) ''a''"
    "world_feed ?w = [(''a'', kUnloaded, kLoading), (''a'', kLoaded, kError), (''a'', kLoading, kLoaded)]"
    by code_simp+
  ultimately show ?thesis by (intro exI conjI) auto
qed

text \<open>
  A child that reports its failure and exits, with its callback later than the load's own end: one failed load
  is reported as failed and then as a crash of a loaded module, which the supervisor may restart.
\<close>

lemma late_death_reported_twice:
  "\<exists>r. race_reach False sampleMgr ''a'' (raceOf sampleWorld) r \<and> rc_pc r = Resting \<and> rc_cbs r = {#}
     \<and> world_feed (rc_w r) = [(''a'', kUnloaded, kLoading), (''a'', kLoading, kError), (''a'', kLoaded, kError)]"
proof -
  let ?v = "snd (loadFailed ''a'' None None ''failed'' (abandonLoadAttempt ''a'' tryingA))"
  have "race_reach False sampleMgr ''a'' (raceOf sampleWorld) \<lparr>rc_w = tryingA, rc_pc = LaunchedPc, rc_alive = False, rc_cbs = {#CbStart#}\<rparr>"
    by (rule race_via [OF launched_reach Die]) simp_all
  then have "race_reach False sampleMgr ''a'' (raceOf sampleWorld) \<lparr>rc_w = tryingA, rc_pc = Failing False, rc_alive = False, rc_cbs = {#CbStart#}\<rparr>"
    by (rule race_via [OF _ FailBegin [where announced = False]]) simp_all
  then have "race_reach False sampleMgr ''a'' (raceOf sampleWorld) \<lparr>rc_w = ?v, rc_pc = Resting, rc_alive = False, rc_cbs = {#CbStart#}\<rparr>"
    by (rule race_via [OF _ FailEnd [where announced = False and inst = None and pid = None and reason = "''failed''"]]) simp_all
  moreover have "fst (recordTerminationDuringLoad ''a'' ?v) = False" "''a'' \<notin> set (expectedExits ?v)" by code_simp+
  ultimately have "race_reach False sampleMgr ''a'' (raceOf sampleWorld) \<lparr>rc_w = calledBack ?v, rc_pc = Resting, rc_alive = False, rc_cbs = {#}\<rparr>"
    by (rule callback_reach)
  moreover have "world_feed (calledBack ?v) = [(''a'', kUnloaded, kLoading), (''a'', kLoading, kError), (''a'', kLoaded, kError)]"
    by code_simp
  ultimately show ?thesis by (intro exI conjI) auto
qed

end
