(* ===== verification/FleetRace.thy ===== *)
theory FleetRace
  imports LoadRace
begin

text \<open>
  The loads, unloads and deaths of any number of modules, on any threads, interleaved at the locks of
  \<open>module_manager.cpp\<close>. The world is shared: the registry, the loads in flight, the announced exits, the supervisor,
  the observer and its feed are one state, while where a load path is, whether a child runs and which callbacks
  are outstanding is per module, as \<open>LoadMutexTable\<close> keeps a mutex per name. A step of the fleet is a
  \<open>race_step\<close> of one of its modules, or a scan, a setting or a turn of the event loop beside them. What carries the invariants of one module over to all is a frame:
  a step of one module, or of none, leaves what the invariant of another reads as it was.
\<close>

section \<open>State and steps\<close>

record 'c fleet_race =
  fr_w :: "'c world"
  fr_pc :: "string \<Rightarrow> load_pc"
  fr_alive :: "string \<Rightarrow> bool"
  fr_cbs :: "string \<Rightarrow> callback multiset"

definition part :: "string \<Rightarrow> 'c fleet_race \<Rightarrow> 'c race" where
  "part n f = \<lparr>rc_w = fr_w f, rc_pc = fr_pc f n, rc_alive = fr_alive f n, rc_cbs = fr_cbs f n\<rparr>"

definition put_part :: "string \<Rightarrow> 'c race \<Rightarrow> 'c fleet_race \<Rightarrow> 'c fleet_race" where
  "put_part n r f = \<lparr>fr_w = rc_w r, fr_pc = (fr_pc f)(n := rc_pc r), fr_alive = (fr_alive f)(n := rc_alive r),
     fr_cbs = (fr_cbs f)(n := rc_cbs r)\<rparr>"

text \<open>
  What the other public functions and the event loop do to the world in between: scans and single installs, the callback of
  a readiness watch, the owner thread's turns and the settings. None of them takes the fleet's lock or a module's.
\<close>

inductive aside_step :: "'c world \<Rightarrow> 'c world \<Rightarrow> bool" where
  AsideDiscover: "hash_order (e_hash E) \<Longrightarrow> aside_step w (mgr_discoverInstalledModules E meta scan w)"
| AsideProcess: "hash_order (e_hash E) \<Longrightarrow> aside_step w (snd (mgr_processModule E meta p w))"
| AsideEmbedded: "hash_order (e_hash E) \<Longrightarrow> aside_step w (snd (mgr_addEmbeddedBareModule E isFile metadata img w))"
| AsideAvailable: "aside_step w (objectAvailable E ready m inst pid e w)"
| AsideOwner: "aside_step w (serveOwner E w)"
| AsideAccessPolicy: "aside_step w (snd (setAccessPolicy E p w))"
| AsideContainerPolicy: "aside_step w (snd (setContainerPolicy p w))"
| AsideTransports: "aside_step w (setModuleTransports m t w)"
| AsidePersistence: "aside_step w (setPersistenceBasePath p w)"
| AsideSetDir: "aside_step w (mgr_setModulesDir dir w)"
| AsideAddDir: "aside_step w (mgr_addModulesDir dir w)"

inductive fleet_step :: "bool \<Rightarrow> mgr_env \<Rightarrow> string set \<Rightarrow> 'c fleet_race \<Rightarrow> 'c fleet_race \<Rightarrow> bool" for strict E N where
  OfModule: "fleet_step strict E N f (put_part n r f)" if "n \<in> N" "race_step strict E n (part n f) r"
| Aside: "fleet_step strict E N f (f\<lparr>fr_w := w\<rparr>)" if "aside_step (fr_w f) w"

inductive fleet_reach :: "bool \<Rightarrow> mgr_env \<Rightarrow> string set \<Rightarrow> 'c fleet_race \<Rightarrow> 'c fleet_race \<Rightarrow> bool" for strict E N f0 where
  AtStart: "fleet_reach strict E N f0 f0"
| OneMore: "fleet_reach strict E N f0 f \<Longrightarrow> fleet_step strict E N f f' \<Longrightarrow> fleet_reach strict E N f0 f'"

definition fleetOf :: "'c world \<Rightarrow> 'c fleet_race" where
  "fleetOf w = \<lparr>fr_w = w, fr_pc = (\<lambda>_. Resting), fr_alive = (\<lambda>_. False), fr_cbs = (\<lambda>_. {#})\<rparr>"

lemma part_put [simp]: "part n (put_part n r f) = r"
  by (simp add: part_def put_part_def)

lemma part_other: "m \<noteq> n \<Longrightarrow> part m (put_part n r f) = (part m f)\<lparr>rc_w := rc_w r\<rparr>"
  by (simp add: part_def put_part_def)

lemma part_aside: "part m (f\<lparr>fr_w := w\<rparr>) = (part m f)\<lparr>rc_w := w\<rparr>"
  by (simp add: part_def)

lemma part_start [simp]: "part n (fleetOf w) = raceOf w"
  by (simp add: part_def fleetOf_def raceOf_def)

section \<open>What a step of one module leaves of another\<close>

definition same_sights :: "string \<Rightarrow> 'c world \<Rightarrow> 'c world \<Rightarrow> bool" where
  "same_sights m w' w \<longleftrightarrow> flight_of m w' = flight_of m w \<and> loaded_in m w' = loaded_in m w \<and> marked_in m w' = marked_in m w
     \<and> begins m w' = begins m w \<and> ends m w' = ends m w \<and> (listening w \<longrightarrow> listening w')"

lemma same_sights_refl: "same_sights m w w"
  by (simp add: same_sights_def)

lemma same_sights_trans: "same_sights m w' w \<Longrightarrow> same_sights m w'' w' \<Longrightarrow> same_sights m w'' w"
  by (simp add: same_sights_def)

lemma same_quiet:
  assumes "inward w' = inward w"
  shows "same_sights m w' w"
  using quiet_sights(1-5) [OF assms, where n = m] quiet_sights(6) [OF assms] by (simp add: same_sights_def)

named_theorems others

lemma then_record [others]: "m \<noteq> n \<Longrightarrow> same_sights m v w \<Longrightarrow> same_sights m (record_edge n a b i p rs v) w"
  by (simp add: same_sights_def see_record) (simp add: sees world_feed_record)

lemma then_attempt [others]:
  "m \<noteq> n \<Longrightarrow> same_sights m v w \<Longrightarrow> same_sights m (beginLoadAttempt n v) w"
  "m \<noteq> n \<Longrightarrow> same_sights m v w \<Longrightarrow> same_sights m (abandonLoadAttempt n v) w"
  by (simp_all add: same_sights_def sees beginLoadAttempt_def abandonLoadAttempt_def)

lemma then_failed [others]: "m \<noteq> n \<Longrightarrow> same_sights m v w \<Longrightarrow> same_sights m (snd (loadFailed n inst pid reason v)) w"
  by (simp add: see_failed then_record)

lemma then_mark [others]:
  "m \<noteq> n \<Longrightarrow> same_sights m v w \<Longrightarrow> same_sights m (markExitExpected n v) w"
  "m \<noteq> n \<Longrightarrow> same_sights m v w \<Longrightarrow> same_sights m (snd (consumeExpectedExit n v)) w"
  by (auto simp: same_sights_def sees markExitExpected_def consumeExpectedExit_def world_feed_def listening_def)

lemma then_quiet [others]: "inward u = inward v \<Longrightarrow> same_sights m v w \<Longrightarrow> same_sights m u w"
  using same_quiet same_sights_trans by blast

lemma other_consume: "m \<noteq> n \<Longrightarrow> consumeExpectedExit n w = (asked, w') \<Longrightarrow> same_sights m w' w"
  using then_mark(2) [OF _ same_sights_refl, of m n w] by simp

lemma other_death: "m \<noteq> n \<Longrightarrow> recordTerminationDuringLoad n w = (mine, w') \<Longrightarrow> same_sights m w' w"
  by (auto simp: same_sights_def recordTerminationDuringLoad_def Let_def sees split: option.splits)

lemma other_commit: "m \<noteq> n \<Longrightarrow> commitLoad now n ld h w = (committed, w') \<Longrightarrow> same_sights m w' w"
  by (auto simp: same_sights_def commitLoad_def Let_def sees split: if_splits)

lemma other_finishLoad: "m \<noteq> n \<Longrightarrow> n \<noteq> kModulesState \<Longrightarrow> same_sights m (finishLoad E n inst pid tok w) w"
  apply (simp add: same_sights_def see_finishLoad)
  apply (simp add: sees finishLoad_def Let_def armReadinessWatch_def enableModulesStateFeed_def saveToken_def world_feed_record)
  done

lemma other_report: "m \<noteq> n \<Longrightarrow> same_sights m (reportDeath E n b w) w"
  by (simp add: same_sights_def sees reportDeath_def superviseUnexpectedExit_def Let_def world_feed_record split: prod.split Decision.split)

lemma other_finishUnload:
  assumes "m \<noteq> n" and "n \<noteq> kModulesState"
  shows "same_sights m (snd (finishUnload E n w)) w"
proof -
  let ?u = "w\<lparr>w_registry := markUnloaded n (w_registry w), w_supervisor := forget n (w_supervisor w)\<rparr>"
  let ?v = "refreshDerivedRestrictionsForDependenciesOf E n ?u"
  obtain asked u where c: "consumeExpectedExit n ?v = (asked, u)" by (cases "consumeExpectedExit n ?v")
  have f: "snd (finishUnload E n w) = (if asked then record_edge n kStopping kUnloaded None None None u else u)"
    using assms(2) c by (simp add: finishUnload_def Let_def)
  have "same_sights m ?u w" using assms(1) by (simp add: same_sights_def sees)
  then have "same_sights m ?v w" by (rule then_quiet [rotated]) simp
  then have "same_sights m u w" using other_consume [OF assms(1) c] by (blast intro: same_sights_trans)
  then show ?thesis using assms(1) by (simp add: f then_record)
qed

lemma other_step:
  assumes "race_step strict E n r r'" and "m \<noteq> n" and "n \<noteq> kModulesState"
  shows "same_sights m (rc_w r') (rc_w r)"
  using assms
proof cases
  case (FailBegin called announced)
  with assms(2) show ?thesis by (cases announced) (simp_all add: others same_sights_refl)
next
  case (FailEnd announced inst pid reason)
  with assms(2) show ?thesis by (cases announced) (simp_all add: others same_sights_refl)
next
  case (CommitFails now ld h w inst pid)
  with assms(2) show ?thesis by (simp add: others other_commit)
qed (simp_all add: others same_sights_refl other_consume other_death other_commit other_finishLoad other_report other_finishUnload)

section \<open>What the rest of the manager leaves of a module\<close>

text \<open>Transitions of membership and of readiness open and end no load.\<close>

definition no_load_edge :: "string \<Rightarrow> string \<Rightarrow> bool" where
  "no_load_edge a b \<longleftrightarrow> (a, b) \<in> {(kUnloaded, kAbsent), (kAbsent, kUnloaded), (kLoaded, kReady)}"

definition load_edges_of :: "string \<Rightarrow> observer \<Rightarrow> nat \<times> nat" where
  "load_edges_of m ob = (let es = map (\<lambda>t. (t_module t, oldState t, newState t)) (feed ob) in
     (length (filter (\<lambda>(n, a, b). n = m \<and> a = kUnloaded \<and> b = kLoading) es),
      length (filter (\<lambda>(n, a, b). n = m \<and> (a \<noteq> kUnloaded \<and> b = kError \<or> a = kStopping \<and> b = kUnloaded)) es)))"

definition calm :: "observer \<Rightarrow> observer \<Rightarrow> bool" where
  "calm ob' ob \<longleftrightarrow> hasSink ob' = hasSink ob \<and> (\<forall>m. load_edges_of m ob' = load_edges_of m ob)"

lemma calm_refl [simp]: "calm ob ob"
  by (simp add: calm_def)

lemma calm_trans: "calm ob1 ob \<Longrightarrow> calm ob2 ob1 \<Longrightarrow> calm ob2 ob"
  by (simp add: calm_def)

lemma calm_flush [simp]: "calm (flush ob') ob = calm ob' ob"
  by (simp add: calm_def load_edges_of_def frame_simps hasSink_def step_sink)

lemma calm_record: "no_load_edge a b \<Longrightarrow> calm ob' ob \<Longrightarrow> calm (record_transition n a b i p r ob') ob"
  by (auto simp: calm_def load_edges_of_def no_load_edge_def feed_record hasSink_def step_sink)

lemma calm_sights:
  assumes "calm (w_observer w') (w_observer w)"
  shows "begins m w' = begins m w" "ends m w' = ends m w" "listening w' = listening w"
  using assms by (simp_all add: calm_def load_edges_of_def begins_def ends_def world_feed_def listening_def Let_def)

lemma calm_fold: "(\<And>x ob'. calm ob' ob \<Longrightarrow> calm (f x ob') ob) \<Longrightarrow> calm ob' ob \<Longrightarrow> calm (fold f xs ob') ob"
  by (induction xs arbitrary: ob') simp_all

lemma calm_prune: "calm (snd st) ob \<Longrightarrow> calm (snd (fold pruneModule ns st)) ob"
  by (induction ns arbitrary: st) (simp_all add: pruneModule_def calm_record no_load_edge_def split_beta)

lemma calm_discover:
  assumes "discoverInstalledModules ho meta dump scan (r, ob) = (r', ob')"
  shows "calm ob' ob"
proof -
  obtain names r1 where s: "scanPackages meta dump (scan (m_modulesDirs r)) ([], r) = (names, r1)"
    by (cases "scanPackages meta dump (scan (m_modulesDirs r)) ([], r)")
  obtain r2 ob2 where f: "fold pruneModule (toRemove ho names r1) (r1, ob) = (r2, ob2)"
    by (cases "fold pruneModule (toRemove ho names r1) (r1, ob)")
  have "calm ob2 ob" using calm_prune [of "(r1, ob)" ob "toRemove ho names r1"] f by simp
  then have "calm (fold (\<lambda>name ob. if P name then ob else record_transition name kAbsent kUnloaded None None None ob) ns ob2) ob" for P ns
    by (rule calm_fold [rotated]) (simp add: calm_record no_load_edge_def)
  from this [of "\<lambda>name. hasSink ob \<and> name \<in> set (keys (m_modules r))"]
  show ?thesis using assms s f by (auto simp: discoverInstalledModules_def Let_def)
qed

lemma calm_process: "processModule ho meta p (r, ob) = (name, r', ob') \<Longrightarrow> calm ob' ob"
  by (auto simp: processModule_def Let_def no_load_edge_def intro!: calm_record split: prod.splits if_splits)

lemma calm_embedded: "addEmbeddedBareModule ho parse dump isFile metadata img (r, ob) = (res, r', ob') \<Longrightarrow> calm ob' ob"
  by (auto simp: addEmbeddedBareModule_def Let_def no_load_edge_def intro!: calm_record split: option.splits sum.splits prod.splits if_splits)

text \<open>A registry operation that moves no module, and an observer that hears nothing of loads.\<close>

lemma same_aside:
  assumes "same_runs (w_registry w) r" and "calm ob (w_observer w)"
  shows "same_sights m (w\<lparr>w_registry := r, w_observer := ob\<rparr>) w"
proof -
  let ?w = "w\<lparr>w_registry := r, w_observer := ob\<rparr>"
  have "begins m ?w = begins m w" "ends m ?w = ends m w" "listening ?w = listening w"
    by (rule calm_sights, simp add: assms(2))+
  then show ?thesis using assms(1) by (simp add: same_sights_def flight_of_def loaded_in_def marked_in_def same_runs_def)
qed

definition kept_aside :: "'c world \<Rightarrow> 'c world \<Rightarrow> bool" where
  "kept_aside w' w \<longleftrightarrow> registry_ok (w_registry w') \<and> (\<forall>m. same_sights m w' w)"

lemma kept_quiet: "registry_ok (w_registry w) \<Longrightarrow> inward w' = inward w \<Longrightarrow> kept_aside w' w"
  using inward_fields(1) [of w' w] by (simp add: kept_aside_def same_quiet)

lemma kept_runs:
  assumes "registry_ok (w_registry w)" and "same_runs (w_registry w) r" and "calm ob (w_observer w)"
    and "inward w' = inward (w\<lparr>w_registry := r, w_observer := ob\<rparr>)"
  shows "kept_aside w' w"
  using assms(1,2) inward_fields(1) [OF assms(4)] then_quiet [OF assms(4) same_aside [OF assms(2,3)]]
  by (simp add: kept_aside_def same_runs_def)

lemma kept_settings:
  assumes "registry_ok (w_registry w)" and "w_registry w' = w_registry w" and "w_observer w' = w_observer w"
    and "inFlightLoads w' = inFlightLoads w" and "expectedExits w' = expectedExits w"
  shows "kept_aside w' w"
  using assms by (simp add: kept_aside_def same_sights_def sees world_feed_def listening_def)

lemma kept_scan: "hash_order (e_hash E) \<Longrightarrow> registry_ok (w_registry w) \<Longrightarrow> kept_aside (mgr_discoverInstalledModules E meta scan w) w"
  unfolding mgr_discoverInstalledModules_def
  by (auto split: prod.split intro!: kept_runs same_runs_discover calm_discover)

lemma kept_process: "hash_order (e_hash E) \<Longrightarrow> registry_ok (w_registry w) \<Longrightarrow> kept_aside (snd (mgr_processModule E meta p w)) w"
  unfolding mgr_processModule_def
  by (auto split: prod.split intro!: kept_runs same_runs_process calm_process)

lemma kept_embedded:
  "hash_order (e_hash E) \<Longrightarrow> registry_ok (w_registry w) \<Longrightarrow> kept_aside (snd (mgr_addEmbeddedBareModule E isFile metadata img w)) w"
  unfolding mgr_addEmbeddedBareModule_def
  by (auto split: prod.split intro!: kept_runs same_runs_embedded calm_embedded)

lemma kept_available:
  assumes "registry_ok (w_registry w)"
  shows "kept_aside (objectAvailable E ready n inst pid e w) w"
proof (cases "ready \<and> fst (markPublished (e_now E) n e (w_registry w))")
  case True
  let ?r = "snd (markPublished (e_now E) n e (w_registry w))"
  let ?ob = "flush (record_transition n kLoaded kReady inst pid None (w_observer w))"
  have "objectAvailable E ready n inst pid e w = deliverSince E (record_transition n kLoaded kReady inst pid None (w_observer w))
      (w\<lparr>w_registry := ?r, w_observer := ?ob\<rparr>)"
    using True by (cases "markPublished (e_now E) n e (w_registry w)") (simp add: objectAvailable_def flushFeed_def record_edge_def)
  moreover have "calm ?ob (w_observer w)" by (simp add: calm_record no_load_edge_def)
  ultimately show ?thesis by (intro kept_runs [OF assms same_runs_published]) simp_all
next
  case False
  then have "objectAvailable E ready n inst pid e w = w" by (auto simp: objectAvailable_def split: prod.split)
  then show ?thesis using assms by (simp add: kept_aside_def same_sights_refl)
qed

lemma kept_dirs:
  assumes "registry_ok (w_registry w)"
  shows "kept_aside (mgr_setModulesDir dir w) w" "kept_aside (mgr_addModulesDir dir w) w"
  by (rule kept_runs [OF assms same_runs_dirs(1) calm_refl], simp add: mgr_setModulesDir_def,
      rule kept_runs [OF assms same_runs_dirs(2) calm_refl], simp add: mgr_addModulesDir_def)

lemma aside_kept:
  assumes "aside_step w w'" and ok: "registry_ok (w_registry w)"
  shows "kept_aside w' w"
  using assms(1)
proof cases
  case (AsideOwner E)
  then show ?thesis using kept_quiet [OF ok] by simp
qed (use ok in \<open>auto simp: kept_scan kept_process kept_embedded kept_available kept_dirs setAccessPolicy_def setContainerPolicy_def
    setModuleTransports_def setPersistenceBasePath_def Let_def intro!: kept_settings split: sum.split option.split\<close>)

text \<open>A step of a module keeps the registry well formed.\<close>

lemma registry_step:
  assumes "race_step strict E n r r'" and "registry_ok (w_registry (rc_w r))"
  shows "registry_ok (w_registry (rc_w r'))"
  using assms
  by cases
    (auto simp: see_failed finishLoad_def armReadinessWatch_def enableModulesStateFeed_def saveToken_def beginLoadAttempt_def abandonLoadAttempt_def commitLoad_def recordTerminationDuringLoad_def
      consumeExpectedExit_def reportDeath_def superviseUnexpectedExit_def finishUnload_def disableModulesStateFeed_def Let_def
      split: prod.splits Decision.splits if_splits option.splits)

section \<open>The invariants of one module, for all of them\<close>

lemma told_frame: "same_sights m w (rc_w r) \<Longrightarrow> alive_or_told m r \<Longrightarrow> alive_or_told m (r\<lparr>rc_w := w\<rparr>)"
  by (simp add: same_sights_def alive_or_told_def)

lemma inv_frame: "same_sights m w (rc_w r) \<Longrightarrow> race_inv m r \<Longrightarrow> race_inv m (r\<lparr>rc_w := w\<rparr>)"
  by (cases "rc_pc r"; cases "flight_of m (rc_w r)") (simp_all add: same_sights_def race_defs no_marked_def unreported_def open_load_def split: if_splits)

text \<open>A property of the module that its own steps keep, and that reads nothing but what the frame keeps, holds of every module.\<close>

lemma fleet_keeps:
  assumes "fleet_reach strict E N f0 f" and "list_all (\<lambda>n. n \<noteq> kModulesState) ns" and "N = set ns" and "m \<in> N" and "registry_ok (w_registry (fr_w f0))"
    and "I m (part m f0)"
    and own: "\<And>r r'. race_step strict E m r r' \<Longrightarrow> I m r \<Longrightarrow> I m r'"
    and frame: "\<And>r w. same_sights m w (rc_w r) \<Longrightarrow> I m r \<Longrightarrow> I m (r\<lparr>rc_w := w\<rparr>)"
  shows "I m (part m f)"
proof -
  have "I m (part m f) \<and> registry_ok (w_registry (fr_w f))"
    using assms(1,5,6)
  proof (induction rule: fleet_reach.induct)
    case (OneMore f f')
    then have ih: "I m (part m f)" "registry_ok (w_registry (fr_w f))" by simp_all
    from OneMore.hyps(2) show ?case
    proof cases
      case (OfModule n r)
      have ok: "registry_ok (w_registry (fr_w f'))"
        using registry_step [OF OfModule(3)] ih(2) OfModule(1) by (simp add: part_def put_part_def)
      show ?thesis
      proof (cases "n = m")
        case True
        with OfModule ih(1) ok show ?thesis using own by simp
      next
        case False
        have "n \<noteq> kModulesState" using OfModule(2) assms(2,3) by (simp add: list_all_iff)
        then have "same_sights m (rc_w r) (rc_w (part m f))" using other_step [OF OfModule(3), of m] False by (simp add: part_def)
        with OfModule(1) False ih(1) ok show ?thesis using frame by (simp add: part_other [OF not_sym])
      qed
    next
      case (Aside w)
      have "kept_aside w (fr_w f)" by (rule aside_kept [OF Aside(2) ih(2)])
      with Aside(1) ih(1) frame [of w "part m f"] show ?thesis by (simp add: kept_aside_def part_aside) (simp add: part_def)
    qed
  qed simp
  then show ?thesis by blast
qed

section \<open>Properties\<close>

text \<open>Before anything happens: a well-formed registry, and of each module what \<open>race_start\<close> says.\<close>

definition fleet_start :: "string list \<Rightarrow> 'c world \<Rightarrow> bool" where
  "fleet_start ns w \<longleftrightarrow> registry_ok (w_registry w) \<and> list_all (\<lambda>n. race_start n w) ns"

lemma fleet_start_names: "fleet_start ns w \<Longrightarrow> list_all (\<lambda>n. n \<noteq> kModulesState) ns" "fleet_start ns w \<Longrightarrow> n \<in> set ns \<Longrightarrow> race_start n w"
  "fleet_start ns w \<Longrightarrow> registry_ok (w_registry (fr_w (fleetOf w)))"
  by (auto simp: fleet_start_def list_all_iff race_start_def fleetOf_def)

lemma fleet_told:
  assumes "fleet_reach strict E (set ns) (fleetOf w0) f" and "fleet_start ns w0" and "n \<in> set ns"
  shows "alive_or_told n (part n f)"
proof (rule fleet_keeps [OF assms(1) fleet_start_names(1) [OF assms(2)] refl assms(3) fleet_start_names(3) [OF assms(2)], where I = alive_or_told])
  show "alive_or_told n (part n (fleetOf w0))"
    using told_reach [OF race_reach.Start fleet_start_names(2) [OF assms(2,3)]] by simp
qed (blast intro: told_step told_frame)+

lemma fleet_balanced:
  assumes "fleet_reach True E (set ns) (fleetOf w0) f" and "fleet_start ns w0" and "n \<in> set ns"
  shows "race_inv n (part n f)"
proof (rule fleet_keeps [OF assms(1) fleet_start_names(1) [OF assms(2)] refl assms(3) fleet_start_names(3) [OF assms(2)], where I = race_inv])
  show "race_inv n (part n (fleetOf w0))"
    using race_inv_reach [OF race_reach.Start fleet_start_names(2) [OF assms(2,3)]] by simp
qed (blast intro: race_inv_step inv_frame)+

text \<open>A schedule of one module is a schedule of the fleet.\<close>

lemma lift_reach:
  assumes "race_reach strict E n (part n f) r" and "n \<in> N" and "fleet_reach strict E N f0 f"
  shows "fleet_reach strict E N f0 (put_part n r f)"
  using assms
proof (induction rule: race_reach.induct)
  case Start
  have "put_part n (part n f) f = f" by (simp add: put_part_def part_def)
  with Start show ?case by simp
next
  case (Step r r')
  have "put_part n r' (put_part n r f) = put_part n r' f" by (simp add: put_part_def)
  moreover have "fleet_step strict E N (put_part n r f) (put_part n r' (put_part n r f))"
    using Step by (intro OfModule) simp_all
  ultimately show ?case using Step by (simp add: fleet_reach.OneMore)
qed

text \<open>
  C8. Any number of modules loading, unloading and dying at once, on any schedule and however late the containers'
  callbacks run: a module that is marked loaded while nothing of it runs has a death callback still to come, which will
  unmark it; so with no callback of it outstanding and no load or unload of it under way, a module marked loaded
  runs, whatever the others are in the middle of.
\<close>

theorem no_dead_module_stays_loaded_anywhere:
  assumes "fleet_reach strict E (set ns) (fleetOf w0) f" and "fleet_start ns w0" and "n \<in> set ns" and "fr_pc f n = Resting"
    and "isLoaded (w_registry (fr_w f)) n"
  shows "fr_alive f n \<or> CbStart \<in># fr_cbs f n"
  using fleet_told [OF assms(1-3)] assms(4,5) by (auto simp: alive_or_told_def loaded_in_def part_def)


section \<open>Two loads that overlap\<close>

text \<open>\<open>a\<close> has been committed when \<open>b\<close> begins and launches; \<open>a\<close> then ends its load, with \<open>b\<close> still under way.\<close>

definition bothUnderWay :: "inproc world" where
  "bothUnderWay = beginLoadAttempt ''b'' (record_edge ''b'' kUnloaded kLoading None None None committedA)"

definition overlapped :: "inproc fleet_race" where
  "overlapped = \<lparr>fr_w = finishLoad sampleMgr ''a'' None None ''t'' bothUnderWay,
     fr_pc = ((\<lambda>_. Resting)(''a'' := CommittedPc, ''b'' := LaunchedPc))(''a'' := Resting),
     fr_alive = ((\<lambda>_. False)(''a'' := True, ''b'' := True))(''a'' := True),
     fr_cbs = ((\<lambda>_. {#})(''a'' := {#}, ''b'' := {#}))(''a'' := {#})\<rparr>"

lemma two_start: "fleet_start [''a'', ''b''] sampleWorld"
proof -
  have "race_start ''b'' sampleWorld" unfolding race_start_def by (intro conjI) code_simp+
  moreover have "registry_ok (w_registry sampleWorld)" by code_simp
  ultimately show ?thesis by (simp add: fleet_start_def sample_start)
qed

lemma overlapped_reach: "fleet_reach s sampleMgr (set [''a'', ''b'']) (fleetOf sampleWorld) overlapped"
proof -
  let ?f1 = "put_part ''a'' \<lparr>rc_w = committedA, rc_pc = CommittedPc, rc_alive = True, rc_cbs = {#}\<rparr> (fleetOf sampleWorld)"
  let ?r2 = "\<lparr>rc_w = bothUnderWay, rc_pc = LaunchedPc, rc_alive = True, rc_cbs = {#}\<rparr>"
  let ?f2 = "put_part ''b'' ?r2 ?f1"
  let ?r3 = "\<lparr>rc_w = finishLoad sampleMgr ''a'' None None ''t'' bothUnderWay, rc_pc = Resting, rc_alive = True, rc_cbs = {#}\<rparr>"
  have one: "fleet_reach s sampleMgr (set [''a'', ''b'']) (fleetOf sampleWorld) ?f1"
    by (rule lift_reach [OF _ _ fleet_reach.AtStart]) (simp_all add: committed_reach)
  have "\<not> isLoaded (w_registry committedA) ''b''" by code_simp
  moreover have b: "part ''b'' ?f1 = \<lparr>rc_w = committedA, rc_pc = Resting, rc_alive = False, rc_cbs = {#}\<rparr>"
    by (simp add: part_def put_part_def fleetOf_def)
  ultimately have "race_step s sampleMgr ''b'' (part ''b'' ?f1) \<lparr>rc_w = bothUnderWay, rc_pc = Attempt, rc_alive = False, rc_cbs = {#}\<rparr>"
    using BeginLoad [of "part ''b'' ?f1" "''b''" s sampleMgr None] by (simp add: bothUnderWay_def)
  then have "race_reach s sampleMgr ''b'' (part ''b'' ?f1) \<lparr>rc_w = bothUnderWay, rc_pc = Attempt, rc_alive = False, rc_cbs = {#}\<rparr>"
    by (rule race_reach.Step [OF race_reach.Start])
  then have "race_reach s sampleMgr ''b'' (part ''b'' ?f1) ?r2"
    by (rule race_via [OF _ Launch]) simp_all
  then have two: "fleet_reach s sampleMgr (set [''a'', ''b'']) (fleetOf sampleWorld) ?f2"
    by (rule lift_reach [OF _ _ one]) simp
  have "race_reach s sampleMgr ''a'' (part ''a'' ?f2) ?r3"
    by (rule race_via [OF race_reach.Start FinishLoad [where inst = None and pid = None and tok = "''t''"]])
      (simp_all add: part_def put_part_def fleetOf_def)
  from lift_reach [OF this _ two] show ?thesis by (simp add: overlapped_def put_part_def fleetOf_def)
qed

theorem no_dead_module_stays_loaded_anywhere_witness:
  "fr_alive overlapped ''a'' \<or> CbStart \<in># fr_cbs overlapped ''a''"
proof -
  have "isLoaded (w_registry (finishLoad sampleMgr ''a'' None None ''t'' bothUnderWay)) ''a''" by code_simp
  then show ?thesis
    by (intro no_dead_module_stays_loaded_anywhere [OF overlapped_reach two_start, where n = "''a''"]) (simp_all add: overlapped_def)
qed


section \<open>A scan beside a load\<close>

text \<open>
  A scan keeps the entry of a module that is loaded, because its unload and the cascades need it, and drops that of a module
  whose files are gone; it does not ask whether the module is being loaded. The package of \<open>b\<close> is removed
  while \<open>b\<close> loads: the commit makes a new entry, without path and without edges, and a cascade
  from \<open>a\<close>, which \<open>b\<close> depends on, no longer finds \<open>b\<close>.
\<close>

definition scannedAway :: "inproc world" where
  "scannedAway = mgr_discoverInstalledModules sampleMgr (\<lambda>_. None) (\<lambda>_. []) (fr_w overlapped)"

definition committedAfterScan :: "inproc world" where
  "committedAfterScan = finishLoad sampleMgr ''b'' None None ''u'' (snd (commitLoad 0 ''b'' 0 emptyHandle scannedAway))"

lemma scan_forgets_loading:
  "\<exists>f. fleet_reach s sampleMgr (set [''a'', ''b'']) (fleetOf sampleWorld) f \<and> fr_w f = committedAfterScan
     \<and> fr_pc f ''b'' = Resting \<and> fr_alive f ''b''"
  "isLoaded (w_registry committedAfterScan) ''b''"
  "directDependencies (w_registry sampleWorld) ''b'' = [''a'']" "directDependencies (w_registry committedAfterScan) ''b'' = []"
  "teardownOrder sampleMgr ''a'' (w_registry committedAfterScan) = Some [''a'']"
proof -
  let ?f1 = "overlapped\<lparr>fr_w := scannedAway\<rparr>"
  let ?r = "\<lparr>rc_w = committedAfterScan, rc_pc = Resting, rc_alive = True, rc_cbs = {#}\<rparr>"
  have "hash_order (e_hash sampleMgr)" by (simp add: sampleMgr_def hash_order_id)
  then have one: "fleet_reach s sampleMgr (set [''a'', ''b'']) (fleetOf sampleWorld) ?f1"
    unfolding scannedAway_def by (intro fleet_reach.OneMore [OF overlapped_reach] Aside AsideDiscover)
  have b: "part ''b'' ?f1 = \<lparr>rc_w = scannedAway, rc_pc = LaunchedPc, rc_alive = True, rc_cbs = {#}\<rparr>"
    by (simp add: part_def overlapped_def)
  have "fst (commitLoad 0 ''b'' 0 emptyHandle scannedAway)" by code_simp
  then obtain v where c: "commitLoad 0 ''b'' 0 emptyHandle scannedAway = (True, v)" by (metis prod.collapse)
  then have w: "committedAfterScan = finishLoad sampleMgr ''b'' None None ''u'' v" by (simp add: committedAfterScan_def)
  have "race_reach s sampleMgr ''b'' (part ''b'' ?f1) \<lparr>rc_w = v, rc_pc = CommittedPc, rc_alive = True, rc_cbs = {#}\<rparr>"
    by (rule race_via [OF race_reach.Start Commit [where now = 0 and ld = 0 and h = emptyHandle and w = v]]) (simp_all add: b c)
  then have "race_reach s sampleMgr ''b'' (part ''b'' ?f1) ?r"
    by (rule race_via [OF _ FinishLoad [where inst = None and pid = None and tok = "''u''"]]) (simp_all add: w)
  then have "fleet_reach s sampleMgr (set [''a'', ''b'']) (fleetOf sampleWorld) (put_part ''b'' ?r ?f1)"
    by (rule lift_reach [OF _ _ one]) simp
  then show "\<exists>f. fleet_reach s sampleMgr (set [''a'', ''b'']) (fleetOf sampleWorld) f \<and> fr_w f = committedAfterScan
     \<and> fr_pc f ''b'' = Resting \<and> fr_alive f ''b''"
    by (intro exI [of _ "put_part ''b'' ?r ?f1"]) (simp add: put_part_def)
qed code_simp+

end
