(* ===== verification/LoadLocks.thy ===== *)
theory LoadLocks
  imports Main
begin

text \<open>
  The locks of \<open>module_manager.cpp\<close>, which the other theories leave out: which are taken, in what scopes, by
  which function. A function is a list of blocks; a lock guard is a block with a body, \<open>Work\<close> is code that needs
  none of these locks, and \<open>Spin\<close> is a call that may run an event loop, where a further call may be delivered on the
  same thread. A path through a function is a pruning of its blocks, so that every early return is one. The mutexes
  of the registry, the observer and the supervisor are leaves that no other lock is taken under. External
  calls are taken to return.
\<close>

section \<open>Locks and functions\<close>

datatype lock = Fleet | ModuleLock string | Spawn | Config | InFlight | ExpectedExit | NameMap

datatype mode = Shared | Exclusive

datatype block = Work | Spin | Scope lock mode "block list"

definition rank :: "lock \<Rightarrow> nat" where
  "rank l = (case l of Fleet \<Rightarrow> 1 | ModuleLock _ \<Rightarrow> 2 | Spawn \<Rightarrow> 3 | Config \<Rightarrow> 4 | InFlight \<Rightarrow> 5 | ExpectedExit \<Rightarrow> 6 | NameMap \<Rightarrow> 7)"

abbreviation guarded :: "lock \<Rightarrow> block" where "guarded l \<equiv> Scope l Exclusive [Work]"
abbreviation read_config :: block where "read_config \<equiv> Scope Config Shared [Work]"

definition moduleMutex :: "string \<Rightarrow> block list \<Rightarrow> block list" where
  "moduleMutex name body = [guarded NameMap, Scope (ModuleLock name) Exclusive body]"

text \<open>A restriction pushed to \<open>capability_module\<close>, and one derived first, for each of the targets.\<close>

definition pushBlocks :: "string list \<Rightarrow> block list" where
  "pushBlocks targets = concat (map (\<lambda>_. [read_config, Spin]) targets)"

definition refreshBlocks :: "string list \<Rightarrow> block list" where
  "refreshBlocks targets = concat (map (\<lambda>_. [read_config, read_config, Spin]) targets)"

text \<open>A visit to a module comes with the targets whose restrictions are refreshed after it.\<close>

type_synonym visit = "string \<times> string list"

definition loadBlocks :: "visit \<Rightarrow> block list" where
  "loadBlocks v = Work # moduleMutex (fst v)
     ([Work, read_config, guarded InFlight, Scope Spawn Exclusive [Spin], guarded InFlight, Spin,
       guarded ExpectedExit, Spin, guarded ExpectedExit, guarded InFlight, Spin, Spin, guarded InFlight,
       guarded InFlight, read_config, Spin] @ refreshBlocks (snd v) @ [Spin, Spin])"

definition unloadBlocks :: "visit \<Rightarrow> block list" where
  "unloadBlocks v = moduleMutex (fst v)
     ([Work, guarded ExpectedExit, Spin, guarded ExpectedExit] @ refreshBlocks (snd v) @ [guarded ExpectedExit])"

text \<open>
  The entry points, with what they come to visit: one load (of a restart and of \<open>modules_state\<close> too), the load
  order, \<open>capability_module\<close> with the explicit restrictions and the loaded modules, one unload, the teardown order, the
  loaded modules of a fleet teardown. After its locks every one of these flushes the feed.
\<close>

datatype entry =
    EntryLoad visit
  | EntryLoadTree "visit list"
  | EntryCapability visit "string list" "string list"
  | EntryUnload visit
  | EntryCascade "visit list"
  | EntryTerminateAll "string list"
  | EntryClear "string list"
  | EntrySetConfig
  | EntryRemoteCall
  | EntryDeath

definition fleetBlocks :: "mode \<Rightarrow> block list \<Rightarrow> block list" where
  "fleetBlocks m body = [Scope Fleet m body, Spin]"

definition teardownBlocks :: "string list \<Rightarrow> block list" where
  "teardownBlocks names = map (\<lambda>_. guarded ExpectedExit) names @ [Spin, guarded ExpectedExit, Work]"

definition entryBlocks :: "entry \<Rightarrow> block list" where
  "entryBlocks e = (case e of
     EntryLoad n \<Rightarrow> fleetBlocks Shared (loadBlocks n)
   | EntryLoadTree ns \<Rightarrow> fleetBlocks Shared (Work # concat (map loadBlocks ns))
   | EntryCapability v rs ns \<Rightarrow> fleetBlocks Shared (loadBlocks v @ [read_config] @ pushBlocks rs @ refreshBlocks ns)
   | EntryUnload n \<Rightarrow> fleetBlocks Shared (unloadBlocks n)
   | EntryCascade ns \<Rightarrow> fleetBlocks Exclusive (Work # concat (map unloadBlocks ns))
   | EntryTerminateAll ns \<Rightarrow> fleetBlocks Exclusive (teardownBlocks ns)
   | EntryClear ns \<Rightarrow> fleetBlocks Exclusive (teardownBlocks ns @ [guarded Config, Work])
   | EntrySetConfig \<Rightarrow> [guarded Config]
   | EntryRemoteCall \<Rightarrow> [read_config, Spin]
   | EntryDeath \<Rightarrow> [guarded InFlight, guarded ExpectedExit, Spin])"

definition entersFleet :: "entry \<Rightarrow> bool" where
  "entersFleet e \<longleftrightarrow> e \<notin> {EntrySetConfig, EntryRemoteCall, EntryDeath}"

text \<open>
  \<open>ScopedLoadEntry\<close>: a thread that is inside a load or unload refuses another, and only flushes. It is inside from just
  before it asks for the fleet lock until just after it gave it back. \<open>refuse\<close> is false for a program without
  the guard.
\<close>

definition scopedEntry :: "bool \<Rightarrow> bool \<Rightarrow> entry \<Rightarrow> block list" where
  "scopedEntry refuse inside e = (if refuse \<and> inside \<and> entersFleet e then [Spin] else entryBlocks e)"

text \<open>The paths of a function.\<close>

inductive path_of :: "block list \<Rightarrow> block list \<Rightarrow> bool" where
  End: "path_of [] []"
| Skip: "path_of bs cs \<Longrightarrow> path_of (b # bs) cs"
| Keep: "path_of bs cs \<Longrightarrow> path_of (b # bs) (b # cs)"
| Inner: "path_of body body' \<Longrightarrow> path_of bs cs \<Longrightarrow> path_of (Scope l m body # bs) (Scope l m body' # cs)"

section \<open>Threads\<close>

text \<open>The scopes a thread is in, innermost first, each with the blocks that remain in it, and what remains outside them.\<close>

record thread =
  th_scopes :: "(lock \<times> mode \<times> block list) list"
  th_rest :: "block list"

definition idleThread :: thread where
  "idleThread = \<lparr>th_scopes = [], th_rest = []\<rparr>"

definition current :: "thread \<Rightarrow> block list" where
  "current t = (case th_scopes t of [] \<Rightarrow> th_rest t | (l, m, bs) # _ \<Rightarrow> bs)"

definition resume_with :: "block list \<Rightarrow> thread \<Rightarrow> thread" where
  "resume_with bs t = (case th_scopes t of [] \<Rightarrow> t\<lparr>th_rest := bs\<rparr> | (l, m, _) # fs \<Rightarrow> t\<lparr>th_scopes := (l, m, bs) # fs\<rparr>)"

definition holds :: "thread \<Rightarrow> lock \<Rightarrow> mode \<Rightarrow> bool" where
  "holds t l m \<longleftrightarrow> (\<exists>bs. (l, m, bs) \<in> set (th_scopes t))"

definition holds_any :: "thread \<Rightarrow> lock \<Rightarrow> bool" where
  "holds_any t l \<longleftrightarrow> l \<in> fst ` set (th_scopes t)"

definition threadIsInsideLoad :: "thread \<Rightarrow> bool" where
  "threadIsInsideLoad t \<longleftrightarrow> holds_any t Fleet"

definition idle :: "thread \<Rightarrow> bool" where
  "idle t \<longleftrightarrow> th_scopes t = [] \<and> th_rest t = []"

definition waits_exclusive :: "thread \<Rightarrow> lock \<Rightarrow> bool" where
  "waits_exclusive t l \<longleftrightarrow> (\<exists>body rest. current t = Scope l Exclusive body # rest)"

text \<open>A shared lock may also be refused while someone waits for it exclusively (\<open>eager\<close>); the standard leaves that open.\<close>

definition available :: "bool \<Rightarrow> thread list \<Rightarrow> lock \<Rightarrow> mode \<Rightarrow> bool" where
  "available eager ths l m = (case m of
     Exclusive \<Rightarrow> \<forall>t \<in> set ths. \<not> holds_any t l
   | Shared \<Rightarrow> \<forall>t \<in> set ths. \<not> holds t l Exclusive \<and> \<not> (eager \<and> waits_exclusive t l))"

inductive go :: "bool \<Rightarrow> thread list \<Rightarrow> thread list \<Rightarrow> bool" for eager where
  Take: "go eager ths (ths[i := (let t = resume_with rest (ths ! i) in t\<lparr>th_scopes := (l, m, body) # th_scopes t\<rparr>)])"
    if "i < length ths" "current (ths ! i) = Scope l m body # rest" "available eager ths l m"
| Release: "go eager ths (ths[i := (ths ! i)\<lparr>th_scopes := fs\<rparr>])"
    if "i < length ths" "th_scopes (ths ! i) = (l, m, []) # fs"
| Run: "go eager ths (ths[i := resume_with rest (ths ! i)])"
    if "i < length ths" "current (ths ! i) = b # rest" "b = Work \<or> b = Spin"

inductive lock_step :: "bool \<Rightarrow> bool \<Rightarrow> thread list \<Rightarrow> thread list \<Rightarrow> bool" for eager refuse where
  Go: "lock_step eager refuse ths ths'" if "go eager ths ths'"
| Enter: "lock_step eager refuse ths (ths[i := resume_with bs (ths ! i)])"
    if "i < length ths" "idle (ths ! i)" "path_of (scopedEntry refuse False e) bs"
| Nested: "lock_step eager refuse ths (ths[i := resume_with (bs @ Spin # rest) (ths ! i)])"
    if "i < length ths" "current (ths ! i) = Spin # rest" "path_of (scopedEntry refuse (threadIsInsideLoad (ths ! i)) e) bs"

inductive lock_reach :: "bool \<Rightarrow> bool \<Rightarrow> nat \<Rightarrow> thread list \<Rightarrow> bool" for eager refuse k where
  Start: "lock_reach eager refuse k (replicate k idleThread)"
| Step: "lock_reach eager refuse k ths \<Longrightarrow> lock_step eager refuse ths ths' \<Longrightarrow> lock_reach eager refuse k ths'"


section \<open>The lock order\<close>

text \<open>
  Inside a scope of rank \<open>r\<close> only locks of a higher rank are asked for, an event loop runs under none from the
  configuration on, and outside every scope the first lock is the fleet's or one of those.
\<close>

fun placed :: "nat \<Rightarrow> block \<Rightarrow> bool" where
  "placed r Work = True"
| "placed r Spin = (r < 4)"
| "placed r (Scope l m bs) = (r < rank l \<and> (r = 0 \<longrightarrow> l = Fleet \<or> 4 \<le> rank l) \<and> (m = Shared \<longrightarrow> l \<in> {Fleet, Config})
     \<and> (\<forall>b \<in> set bs. placed (rank l) b))"

fun scopes_ok :: "(lock \<times> mode \<times> block list) list \<Rightarrow> bool" where
  "scopes_ok [] = True"
| "scopes_ok ((l, m, bs) # fs) =
     ((case fs of [] \<Rightarrow> l = Fleet \<or> 4 \<le> rank l | (l', _, _) # _ \<Rightarrow> rank l' < rank l) \<and> (m = Shared \<longrightarrow> l \<in> {Fleet, Config})
      \<and> (\<forall>b \<in> set bs. placed (rank l) b) \<and> scopes_ok fs)"

definition thread_ok :: "thread \<Rightarrow> bool" where
  "thread_ok t \<longleftrightarrow> scopes_ok (th_scopes t) \<and> (\<forall>b \<in> set (th_rest t). placed 0 b)"

lemma path_placed: "path_of bs cs \<Longrightarrow> (\<And>b. b \<in> set bs \<Longrightarrow> placed r b) \<Longrightarrow> c \<in> set cs \<Longrightarrow> placed r c"
proof (induction arbitrary: r c rule: path_of.induct)
  case (Inner body body' bs cs l m)
  have outer: "placed r (Scope l m body)" by (rule Inner.prems(1)) simp
  then have "\<forall>b \<in> set body'. placed (rank l) b" using Inner.IH(1) [of "rank l"] by simp
  then have "placed r (Scope l m body')" using outer by simp
  then show ?case using Inner.IH(2) [of r c] Inner.prems by (cases "c = Scope l m body'") simp_all
qed auto

lemma rank_simps [simp]:
  "rank Fleet = 1" "rank (ModuleLock n) = 2" "rank Spawn = 3" "rank Config = 4" "rank InFlight = 5" "rank ExpectedExit = 6" "rank NameMap = 7"
  by (simp_all add: rank_def)

lemma rank_top: "rank l \<le> 7"
  by (cases l) simp_all

lemma refresh_placed: "r < 4 \<Longrightarrow> \<forall>b \<in> set (refreshBlocks ns). placed r b" "r < 4 \<Longrightarrow> \<forall>b \<in> set (pushBlocks ns). placed r b"
  by (auto simp: refreshBlocks_def pushBlocks_def)

lemma load_placed: "\<forall>b \<in> set (loadBlocks v). placed (Suc 0) b"
  by (simp add: loadBlocks_def moduleMutex_def ball_Un refresh_placed)

lemma unload_placed: "\<forall>b \<in> set (unloadBlocks v). placed (Suc 0) b"
  by (simp add: unloadBlocks_def moduleMutex_def ball_Un refresh_placed)

lemma teardown_placed: "\<forall>b \<in> set (teardownBlocks ns). placed (Suc 0) b"
  by (auto simp: teardownBlocks_def)

lemma fleet_placed: "(\<forall>b \<in> set body. placed (Suc 0) b) \<Longrightarrow> \<forall>b \<in> set (fleetBlocks m body). placed 0 b"
  by (simp add: fleetBlocks_def)

lemma concat_placed: "(\<And>n. \<forall>b \<in> set (f n). placed r b) \<Longrightarrow> \<forall>b \<in> set (concat (map f ns)). placed r b"
  by auto

lemma plain_placed: "\<not> entersFleet e \<Longrightarrow> r < 4 \<Longrightarrow> \<forall>b \<in> set (entryBlocks e). placed r b"
  by (cases e) (simp_all add: entersFleet_def entryBlocks_def)

lemma entry_placed: "\<forall>b \<in> set (entryBlocks e). placed 0 b"
proof -
  note each = concat_placed [of loadBlocks, OF load_placed] concat_placed [of unloadBlocks, OF unload_placed]
  show ?thesis
  proof (cases e)
    case (EntryLoadTree ns)
    then show ?thesis using each(1) [of ns] by (simp add: entryBlocks_def fleetBlocks_def)
  next
    case (EntryCascade ns)
    then show ?thesis using each(2) [of ns] by (simp add: entryBlocks_def fleetBlocks_def)
  qed (simp_all add: entryBlocks_def fleetBlocks_def ball_Un load_placed unload_placed teardown_placed refresh_placed)
qed

lemma scoped_placed:
  assumes "path_of (scopedEntry True inside e) bs" and "r < 4" and "r = 0 \<or> inside" and "b \<in> set bs"
  shows "placed r b"
proof (rule path_placed [OF assms(1) _ assms(4)])
  fix b
  assume b: "b \<in> set (scopedEntry True inside e)"
  show "placed r b"
  proof (cases "inside \<and> entersFleet e")
    case False
    then consider "r = 0" | "\<not> entersFleet e" using assms(3) by auto
    then show ?thesis using b False entry_placed [of e] plain_placed [of e r] assms(2) by cases (auto simp: scopedEntry_def)
  qed (use b assms(2) in \<open>simp add: scopedEntry_def\<close>)
qed

text \<open>What a thread in good order holds.\<close>

lemma scopes_below: "scopes_ok ((l, m, bs) # fs) \<Longrightarrow> (l', m', bs') \<in> set fs \<Longrightarrow> rank l' < rank l"
proof (induction fs arbitrary: l m bs)
  case (Cons f fs)
  obtain l1 m1 bs1 where f: "f = (l1, m1, bs1)" by (cases f)
  show ?case
  proof (cases "(l', m', bs') \<in> set fs")
    case True
    then have "rank l' < rank l1" using Cons.IH [of l1 m1 bs1] Cons.prems(1) f by simp
    then show ?thesis using Cons.prems(1) f by simp
  qed (use Cons.prems f in auto)
qed simp

lemma scopes_bottom: "scopes_ok ((l, m, bs) # fs) \<Longrightarrow> rank l < 4 \<Longrightarrow> Fleet \<in> fst ` set ((l, m, bs) # fs)"
proof (induction fs arbitrary: l m bs)
  case (Cons f fs)
  obtain l1 m1 bs1 where "f = (l1, m1, bs1)" by (cases f)
  then show ?case using Cons.IH [of l1 m1 bs1] Cons.prems by auto
qed auto

lemma held_rank:
  assumes "thread_ok t" and "holds_any t l" and "current t = Scope l' m body # rest"
  shows "rank l < rank l'"
proof -
  obtain l1 m1 bs1 fs where fs: "th_scopes t = (l1, m1, bs1) # fs"
    using assms(2) by (cases "th_scopes t") (auto simp: holds_any_def)
  then have "rank l1 < rank l'" using assms(1,3) by (simp add: thread_ok_def current_def)
  moreover have "rank l \<le> rank l1"
    using assms(1,2) fs scopes_below [of l1 m1 bs1 fs] by (fastforce simp: thread_ok_def holds_any_def)
  ultimately show ?thesis by simp
qed

lemma held_scope: "scopes_ok fs \<Longrightarrow> (l, m, bs) \<in> set fs \<Longrightarrow> m = Shared \<longrightarrow> l \<in> {Fleet, Config}"
  by (induction fs) auto

lemma held_fleet: "scopes_ok fs \<Longrightarrow> (l, m, bs) \<in> set fs \<Longrightarrow> rank l < 4 \<Longrightarrow> Fleet \<in> fst ` set fs"
proof (induction fs)
  case (Cons f fs)
  show ?case
  proof (cases "f = (l, m, bs)")
    case True
    then show ?thesis using scopes_bottom [of l m bs fs] Cons.prems by blast
  next
    case False
    then have "Fleet \<in> fst ` set fs" using Cons.IH Cons.prems by (cases f) auto
    then show ?thesis by simp
  qed
qed simp

text \<open>Every step keeps the threads in order.\<close>

lemma resume_ok:
  assumes "thread_ok t" and "\<And>b. b \<in> set bs \<Longrightarrow> placed (case th_scopes t of [] \<Rightarrow> 0 | (l, _, _) # _ \<Rightarrow> rank l) b"
  shows "thread_ok (resume_with bs t)"
  using assms by (cases "th_scopes t") (auto simp: thread_ok_def resume_with_def)

lemma current_placed: "thread_ok t \<Longrightarrow> b \<in> set (current t) \<Longrightarrow> placed (case th_scopes t of [] \<Rightarrow> 0 | (l, _, _) # _ \<Rightarrow> rank l) b"
  by (cases "th_scopes t") (auto simp: thread_ok_def current_def)

lemma take_ok:
  assumes "thread_ok t" and "current t = Scope l m body # rest"
  shows "thread_ok (let t = resume_with rest t in t\<lparr>th_scopes := (l, m, body) # th_scopes t\<rparr>)"
proof -
  have "placed (case th_scopes t of [] \<Rightarrow> 0 | (l, _, _) # _ \<Rightarrow> rank l) (Scope l m body)"
    using current_placed [OF assms(1), of "Scope l m body"] assms(2) by simp
  moreover have "thread_ok (resume_with rest t)" using current_placed [OF assms(1)] assms by (intro resume_ok) auto
  ultimately show ?thesis by (cases "th_scopes t") (auto simp: thread_ok_def resume_with_def Let_def)
qed

lemma release_ok: "thread_ok t \<Longrightarrow> th_scopes t = (l, m, bs) # fs \<Longrightarrow> thread_ok (t\<lparr>th_scopes := fs\<rparr>)"
  by (simp add: thread_ok_def)

definition threads_ok :: "thread list \<Rightarrow> bool" where
  "threads_ok ths \<longleftrightarrow> (\<forall>t \<in> set ths. thread_ok t)"

lemma threads_update: "threads_ok ths \<Longrightarrow> thread_ok t \<Longrightarrow> threads_ok (ths[i := t])"
  using set_update_subset_insert [of ths i t] by (auto simp: threads_ok_def)

lemma threads_nth: "threads_ok ths \<Longrightarrow> i < length ths \<Longrightarrow> thread_ok (ths ! i)"
  by (simp add: threads_ok_def)

lemma go_ok: "go eager ths ths' \<Longrightarrow> threads_ok ths \<Longrightarrow> threads_ok ths'"
proof (induction rule: go.induct)
  case (Take i ths l m body rest)
  then show ?case by (intro threads_update take_ok threads_nth)
next
  case (Release i ths l m fs)
  then show ?case by (intro threads_update release_ok threads_nth)
next
  case (Run i ths b rest)
  then show ?case by (intro threads_update resume_ok threads_nth current_placed) auto
qed

lemma step_ok: "lock_step eager True ths ths' \<Longrightarrow> threads_ok ths \<Longrightarrow> threads_ok ths'"
proof (induction rule: lock_step.induct)
  case (Enter i ths e bs)
  then show ?case
    using scoped_placed [OF Enter(3), of 0] by (intro threads_update resume_ok threads_nth) (auto simp: idle_def)
next
  case (Nested i ths rest e bs)
  let ?t = "ths ! i" and ?r = "case th_scopes (ths ! i) of [] \<Rightarrow> 0 | (l, _, _) # _ \<Rightarrow> rank l"
  have t: "thread_ok ?t" using Nested threads_nth by blast
  have r: "?r < 4" using current_placed [OF t, of Spin] Nested(2) by simp
  have "?r = 0 \<or> threadIsInsideLoad ?t"
  proof (cases "th_scopes ?t")
    case (Cons f fs)
    obtain l m b where "f = (l, m, b)" by (cases f)
    then show ?thesis using scopes_bottom [of l m b fs] t r Cons by (simp add: thread_ok_def threadIsInsideLoad_def holds_any_def)
  qed simp
  then have "placed ?r b" if "b \<in> set bs" for b using scoped_placed [OF Nested(3) r] that by blast
  then show ?case using current_placed [OF t] Nested(2) by (intro threads_update resume_ok t \<open>threads_ok ths\<close>) auto
qed (rule go_ok)

lemma reach_ok: "lock_reach eager True k ths \<Longrightarrow> threads_ok ths"
proof (induction rule: lock_reach.induct)
  case Start
  then show ?case by (simp add: threads_ok_def thread_ok_def idleThread_def)
qed (rule step_ok)

section \<open>Exclusion\<close>

definition exclusive_ok :: "thread list \<Rightarrow> bool" where
  "exclusive_ok ths \<longleftrightarrow> (\<forall>i < length ths. \<forall>j < length ths. i \<noteq> j \<longrightarrow> (\<forall>l. holds (ths ! i) l Exclusive \<longrightarrow> \<not> holds_any (ths ! j) l))"

lemma resume_holds [simp]:
  "holds (resume_with bs t) l m = holds t l m" "holds_any (resume_with bs t) l = holds_any t l"
  by (cases "th_scopes t"; auto simp: resume_with_def holds_def holds_any_def)+

lemma holds_some: "holds t l m \<Longrightarrow> holds_any t l"
  by (force simp: holds_def holds_any_def)

lemma holds_less:
  assumes "exclusive_ok ths" and "i < length ths" and "\<And>l m. holds t l m \<Longrightarrow> holds (ths ! i) l m"
  shows "exclusive_ok (ths[i := t])"
proof -
  have "holds_any t l \<Longrightarrow> holds_any (ths ! i) l" for l
    using assms(3) holds_some by (force simp: holds_def holds_any_def)
  then show ?thesis using assms by (auto simp: exclusive_ok_def nth_list_update)
qed

lemma take_exclusive:
  assumes "exclusive_ok ths" and "i < length ths" and "available eager ths l m"
  shows "exclusive_ok (ths[i := (let t = resume_with rest (ths ! i) in t\<lparr>th_scopes := (l, m, body) # th_scopes t\<rparr>)])"
proof -
  let ?t = "let t = resume_with rest (ths ! i) in t\<lparr>th_scopes := (l, m, body) # th_scopes t\<rparr>"
  have any: "holds_any ?t k \<longleftrightarrow> k = l \<or> holds_any (ths ! i) k" for k
    using resume_holds(2) [of rest "ths ! i" k] by (auto simp: holds_any_def Let_def)
  have ex: "holds ?t k Exclusive \<longleftrightarrow> k = l \<and> m = Exclusive \<or> holds (ths ! i) k Exclusive" for k
    using resume_holds(1) [of rest "ths ! i" k Exclusive] by (auto simp: holds_def Let_def)
  have others: "\<not> holds (ths ! j) l Exclusive \<and> (m = Exclusive \<longrightarrow> \<not> holds_any (ths ! j) l)" if "j < length ths" for j
    using assms(3) nth_mem [OF that] holds_some [of "ths ! j" l] by (cases m) (auto simp: available_def)
  show ?thesis
    using assms(1,2) others unfolding exclusive_ok_def by (auto simp: nth_list_update any ex)
qed

lemma go_exclusive: "go eager ths ths' \<Longrightarrow> exclusive_ok ths \<Longrightarrow> exclusive_ok ths'"
proof (induction rule: go.induct)
  case (Take i ths l m body rest)
  then show ?case by (intro take_exclusive)
next
  case (Release i ths l m fs)
  then show ?case by (intro holds_less) (auto simp: holds_def)
next
  case (Run i ths b rest)
  then show ?case by (intro holds_less) auto
qed

lemma reach_exclusive: "lock_reach eager refuse k ths \<Longrightarrow> exclusive_ok ths"
proof (induction rule: lock_reach.induct)
  case Start
  then show ?case by (simp add: exclusive_ok_def holds_def idleThread_def)
next
  case (Step ths ths')
  from Step(2,3) show ?case
  proof (induction rule: lock_step.induct)
    case (Go ths ths')
    then show ?case by (rule go_exclusive)
  qed (intro holds_less; auto)+
qed

section \<open>Progress\<close>

definition wants :: "thread \<Rightarrow> lock \<Rightarrow> bool" where
  "wants t l \<longleftrightarrow> (\<exists>m body rest. current t = Scope l m body # rest)"

lemma stuck_wants:
  assumes "\<nexists>ths'. go eager ths ths'" and "t \<in> set ths" and "\<not> idle t"
  shows "\<exists>l m body rest. current t = Scope l m body # rest \<and> \<not> available eager ths l m"
proof -
  obtain i where i: "i < length ths" "ths ! i = t" using assms(2) by (auto simp: in_set_conv_nth)
  show ?thesis
  proof (cases "current t")
    case Nil
    then obtain l m fs where "th_scopes t = (l, m, []) # fs" using assms(3) by (auto simp: current_def idle_def split: list.splits)
    then show ?thesis using go.Release [of i ths l m fs eager] assms(1) i by blast
  next
    case (Cons b rest)
    then show ?thesis using go.Run [of i ths b rest eager] go.Take [of i ths _ _ _ rest eager] assms(1) i by (cases b) blast+
  qed
qed

lemma holder_busy: "holds_any t l \<Longrightarrow> \<not> idle t"
  by (auto simp: holds_any_def idle_def)

lemma progress:
  assumes "threads_ok ths" and "t \<in> set ths" and "\<not> idle t"
  shows "\<exists>ths'. go eager ths ths'"
proof (rule ccontr)
  assume stuck: "\<not> ?thesis"
  have blocked: "\<exists>l m body rest. current u = Scope l m body # rest \<and> \<not> available eager ths l m" if "u \<in> set ths" "\<not> idle u" for u
    using stuck_wants [OF stuck that] .
  let ?P = "\<lambda>r. \<exists>u \<in> set ths. \<not> idle u \<and> (\<exists>l. wants u l \<and> rank l = r)"
  obtain k where "wants t k" using blocked [OF assms(2,3)] by (auto simp: wants_def)
  then have "?P (rank k)" using assms(2,3) by blast
  moreover have "r \<le> 7" if "?P r" for r using that rank_top by blast
  ultimately have "\<exists>r. ?P r \<and> (\<forall>r'. ?P r' \<longrightarrow> r' \<le> r)" by (intro Nat.ex_has_greatest_nat [of ?P _ 7]) auto
  then obtain r where r: "?P r" and top: "\<And>r'. ?P r' \<Longrightarrow> r' \<le> r" by blast
  have free: "\<not> holds_any v k" if v: "v \<in> set ths" and k: "rank k = r" for v k
  proof
    assume h: "holds_any v k"
    then obtain l' m body rest where c: "current v = Scope l' m body # rest" using blocked [OF v] holder_busy by blast
    then have "r < rank l'" using held_rank h assms(1) v k by (auto simp: threads_ok_def)
    moreover have "wants v l'" using c by (simp add: wants_def)
    then have "?P (rank l')" using v h holder_busy by blast
    ultimately show False using top by fastforce
  qed
  obtain u l m body rest where u: "u \<in> set ths" "current u = Scope l m body # rest" "rank l = r" "\<not> available eager ths l m"
    using r blocked by (fastforce simp: wants_def)
  have m: "m = Shared" using u(3,4) free by (cases m) (auto simp: available_def)
  then obtain v where v: "v \<in> set ths" "waits_exclusive v l"
    using u(3,4) free [OF _ u(3)] holds_some [of _ l Exclusive] by (auto simp: available_def)
  then have "\<not> idle v" by (auto simp: waits_exclusive_def idle_def current_def)
  then obtain k m' b' rest' where "current v = Scope k m' b' # rest'" "\<not> available eager ths k m'" using blocked v(1) by blast
  then show False using v(2) u(3) free by (auto simp: waits_exclusive_def available_def)
qed

text \<open>What is left to do.\<close>

fun work_in :: "block \<Rightarrow> nat" where
  "work_in Work = 1"
| "work_in Spin = 1"
| "work_in (Scope l m bs) = 2 + sum_list (map work_in bs)"

definition thread_left :: "thread \<Rightarrow> nat" where
  "thread_left t = sum_list (map (\<lambda>(l, m, bs). 1 + sum_list (map work_in bs)) (th_scopes t)) + sum_list (map work_in (th_rest t))"

definition work_left :: "thread list \<Rightarrow> nat" where
  "work_left ths = sum_list (map thread_left ths)"

lemma left_update: "i < length ths \<Longrightarrow> thread_left t < thread_left (ths ! i) \<Longrightarrow> work_left (ths[i := t]) < work_left ths"
proof (induction ths arbitrary: i)
  case (Cons u ths)
  then show ?case by (cases i) (auto simp: work_left_def)
qed simp

lemma left_resume: "current t = b # rest \<Longrightarrow> thread_left (resume_with rest t) + work_in b = thread_left t"
  by (cases "th_scopes t") (auto simp: current_def resume_with_def thread_left_def)

lemma go_less: "go eager ths ths' \<Longrightarrow> work_left ths' < work_left ths"
proof (induction rule: go.induct)
  case (Take i ths l m body rest)
  then have "thread_left (resume_with rest (ths ! i)) + work_in (Scope l m body) = thread_left (ths ! i)" by (intro left_resume)
  then show ?case using Take(1) by (intro left_update) (auto simp: thread_left_def Let_def)
next
  case (Release i ths l m fs)
  then show ?case by (intro left_update) (auto simp: thread_left_def)
next
  case (Run i ths b rest)
  then have "thread_left (resume_with rest (ths ! i)) + work_in b = thread_left (ths ! i)" by (intro left_resume)
  then show ?case using Run(1,3) by (intro left_update) auto
qed

lemma runs_out:
  assumes "threads_ok ths"
  shows "\<exists>ths'. (go eager)\<^sup>*\<^sup>* ths ths' \<and> (\<forall>t \<in> set ths'. idle t)"
  using assms
proof (induction "work_left ths" arbitrary: ths rule: less_induct)
  case less
  show ?case
  proof (cases "\<forall>t \<in> set ths. idle t")
    case False
    then obtain ths' where "go eager ths ths'" using progress [OF less.prems] by blast
    then show ?thesis using less.hyps [OF go_less go_ok [OF _ less.prems]] converse_rtranclp_into_rtranclp by metis
  qed blast
qed

lemma exclusive_locks:
  assumes "threads_ok ths" and "exclusive_ok ths" and "i < length ths" and "j < length ths" and "i \<noteq> j" and "l \<notin> {Fleet, Config}"
  shows "\<not> (holds_any (ths ! i) l \<and> holds_any (ths ! j) l)"
proof
  assume both: "holds_any (ths ! i) l \<and> holds_any (ths ! j) l"
  then obtain m bs where m: "(l, m, bs) \<in> set (th_scopes (ths ! i))" by (auto simp: holds_any_def)
  moreover have "scopes_ok (th_scopes (ths ! i))" using threads_nth [OF assms(1,3)] by (simp add: thread_ok_def)
  ultimately have "holds (ths ! i) l Exclusive" using held_scope assms(6) by (cases m) (auto simp: holds_def)
  then show False using assms(2-5) both by (auto simp: exclusive_ok_def)
qed

lemma module_inside: "thread_ok t \<Longrightarrow> holds_any t l \<Longrightarrow> rank l < 4 \<Longrightarrow> threadIsInsideLoad t"
  using held_fleet by (auto simp: thread_ok_def holds_any_def threadIsInsideLoad_def)

section \<open>What the locks give\<close>

text \<open>
  C10. No schedule of loads, unloads, cascades, teardowns, settings, remote calls and deaths on any number of
  threads wedges, further calls delivered inside them included: as long as a thread is not done some
  thread can go on, every step leaves less to do, and so once no new call comes all calls return.
\<close>

theorem every_call_returns:
  assumes "lock_reach eager True k ths"
  shows "((\<forall>t \<in> set ths. idle t) \<or> (\<exists>ths'. go eager ths ths')) \<and> (\<forall>ths'. go eager ths ths' \<longrightarrow> work_left ths' < work_left ths)
    \<and> (\<exists>ths'. (go eager)\<^sup>*\<^sup>* ths ths' \<and> (\<forall>t \<in> set ths'. idle t))"
  using progress [OF reach_ok [OF assms]] runs_out [OF reach_ok [OF assms]] go_less by blast


section \<open>A concrete run\<close>

text \<open>One of two threads in the load of a module, waiting for it to come up.\<close>

definition loadingThread :: thread where
  "loadingThread = \<lparr>th_scopes = [(ModuleLock ''a'', Exclusive, [Spin]), (Fleet, Shared, [])], th_rest = [Spin]\<rparr>"

lemma path_empty: "path_of bs []"
  by (induction bs) (auto intro: path_of.intros)

lemma path_one: "b \<in> set bs \<Longrightarrow> path_of bs [b]"
  by (induction bs) (auto intro: path_of.intros path_empty)

lemma path_into: "Scope l m body \<in> set bs \<Longrightarrow> path_of body body' \<Longrightarrow> path_of bs [Scope l m body']"
  by (induction bs) (auto intro: path_of.intros path_empty)

lemma step_via: "lock_reach eager refuse k ths \<Longrightarrow> lock_step eager refuse ths ths' \<Longrightarrow> ths' = ths'' \<Longrightarrow> lock_reach eager refuse k ths''"
  by (auto intro: lock_reach.Step)

lemma loading_path: "path_of (entryBlocks (EntryLoad (''a'', []))) [Scope Fleet Shared [Scope (ModuleLock ''a'') Exclusive [Spin]], Spin]"
proof -
  obtain body where "Scope (ModuleLock ''a'') Exclusive body \<in> set (loadBlocks (''a'', []))" and "Spin \<in> set body"
    by (auto simp: loadBlocks_def moduleMutex_def)
  then have "path_of (loadBlocks (''a'', [])) [Scope (ModuleLock ''a'') Exclusive [Spin]]" by (intro path_into path_one)
  then show ?thesis by (auto simp: entryBlocks_def fleetBlocks_def intro: path_of.intros)
qed

lemma loading_reached: "lock_reach eager refuse 2 [loadingThread, idleThread]"
proof -
  let ?asked = "\<lparr>th_scopes = [], th_rest = [Scope Fleet Shared [Scope (ModuleLock ''a'') Exclusive [Spin]], Spin]\<rparr>"
  let ?fleet = "\<lparr>th_scopes = [(Fleet, Shared, [Scope (ModuleLock ''a'') Exclusive [Spin]])], th_rest = [Spin]\<rparr>"
  have "lock_reach eager refuse 2 [idleThread, idleThread]"
    using lock_reach.Start [of eager refuse 2] by (simp add: numeral_2_eq_2)
  then have "lock_reach eager refuse 2 [?asked, idleThread]"
    by (rule step_via [OF _ Enter [where i = 0 and e = "EntryLoad (''a'', [])"]])
      (simp_all add: idle_def idleThread_def scopedEntry_def loading_path resume_with_def)
  then have "lock_reach eager refuse 2 [?fleet, idleThread]"
    by (rule step_via [OF _ Go [OF Take [where i = 0]]])
      (simp_all add: current_def available_def holds_def waits_exclusive_def idleThread_def resume_with_def)
  then show ?thesis
    by (rule step_via [OF _ Go [OF Take [where i = 0]]])
      (simp_all add: current_def available_def holds_any_def idleThread_def resume_with_def loadingThread_def)
qed

lemma every_call_returns_witness:
  "\<not> idle loadingThread \<and> (\<exists>ths'. (go True)\<^sup>*\<^sup>* [loadingThread, idleThread] ths' \<and> list_all idle ths')"
  using every_call_returns [OF loading_reached [of True True]] by (auto simp: loadingThread_def idle_def list_all_iff)


text \<open>
  Without the guard a cascade that is delivered inside a load, on the same thread, asks for the fleet lock exclusively
  while its own thread holds it shared: nothing can go on.
\<close>

lemma reentry_deadlocks:
  "\<exists>ths. lock_reach eager False 2 ths \<and> \<not> idle (ths ! 0) \<and> (\<nexists>ths'. go eager ths ths')"
proof -
  let ?t = "loadingThread\<lparr>th_scopes := [(ModuleLock ''a'', Exclusive, [Scope Fleet Exclusive [], Spin, Spin]), (Fleet, Shared, [])]\<rparr>"
  have "path_of (entryBlocks (EntryCascade [])) [Scope Fleet Exclusive [], Spin]"
    by (auto simp: entryBlocks_def fleetBlocks_def intro: path_of.intros)
  then have "lock_reach eager False 2 [?t, idleThread]"
    by (intro step_via [OF loading_reached Nested [where i = 0 and e = "EntryCascade []" and bs = "[Scope Fleet Exclusive [], Spin]"]])
      (simp_all add: loadingThread_def current_def scopedEntry_def resume_with_def)
  moreover have "\<not> go eager [?t, idleThread] ths'" for ths'
  proof
    assume "go eager [?t, idleThread] ths'"
    then show False
      by (cases rule: go.cases)
        (auto simp: less_Suc_eq loadingThread_def idleThread_def current_def available_def holds_any_def)
  qed
  ultimately show ?thesis by (intro exI [of _ "[?t, idleThread]"]) (simp add: idle_def)
qed

end
