(* ===== verification/WebCallRouter.thy ===== *)
theory WebCallRouter
  imports Prelude "HOL-Library.Multiset"
begin

text \<open>
  \<open>src/logos_core/web_call_router.{h,cpp}\<close> and \<open>web_qt_dispatch.cpp\<close>: the outbound half of a page. A
  \<open>QVariant\<close> and an \<open>RpcValue\<close> are JSON values here, the invalid one \<open>null\<close>; what the clients of the
  module's \<open>LogosAPI\<close> answer is the record \<open>client_env\<close>; the queue of the Qt main thread is the list
  \<open>wr_queue\<close>, \<open>main\<close> says that a message arrives on that thread itself. A \<open>std::map\<close> is an association
  list: the order in which its entries are withdrawn is not modelled. The first part is the
  router one message at a time; the second interleaves threads inside the gate with \<open>stop\<close>.
\<close>

section \<open>What a refused call tells the page\<close>

record CallOutcome =
  co_ok :: bool
  co_value :: json
  co_error :: string
  co_errorCode :: string

definition emptyOutcome :: CallOutcome where
  "emptyOutcome = \<lparr>co_ok = False, co_value = JNull, co_error = [], co_errorCode = []\<rparr>"

abbreviation kBroker :: string where "kBroker \<equiv> ''capability_module''"

definition kUnauthorized :: string where "kUnauthorized = ''unauthorized''"

text \<open>\<open>consentStatus.value(k).toString()\<close>, where \<open>qstr\<close> is \<open>QVariant::toString\<close>.\<close>

definition status_text :: "(json \<Rightarrow> string) \<Rightarrow> (string \<times> json) list \<Rightarrow> string \<Rightarrow> string" where
  "status_text qstr status k = (case map_of status k of None \<Rightarrow> [] | Some v \<Rightarrow> qstr v)"

definition refusedCallOutcome ::
  "(json \<Rightarrow> string) \<Rightarrow> string \<Rightarrow> string \<Rightarrow> string \<Rightarrow> string \<Rightarrow> (string \<times> json) list \<Rightarrow> CallOutcome" where
  "refusedCallOutcome qstr target method errorCode errorMessage consentStatus =
     (let outcome = emptyOutcome\<lparr>
            co_error := (if errorMessage = [] then ''call to '' @ target @ ''.'' @ method @ '' failed: '' @ errorCode else errorMessage),
            co_errorCode := (if errorCode = ''object_unavailable'' then ''MODULE_NOT_LOADED'' else ''METHOD_FAILED'')\<rparr> in
      if errorCode \<noteq> kUnauthorized then outcome
      else let state = status_text qstr consentStatus ''state''; reason = status_text qstr consentStatus ''reason'';
          told = (\<lambda>code. (if reason = [] then outcome else outcome\<lparr>co_error := reason\<rparr>)\<lparr>co_errorCode := code\<rparr>) in
        if state = ''denied'' then told ''CONSENT_DENIED''
        else if state = ''pending'' \<or> state = ''unknown'' then told ''CONSENT_REQUIRED''
        else outcome)"

section \<open>The routes over the module's own API\<close>

record client_env =
  ce_client :: "string \<Rightarrow> bool"
  ce_invoke :: "string \<Rightarrow> string \<Rightarrow> json list \<Rightarrow> string \<times> string \<times> json"
  ce_methods :: "string \<Rightarrow> json list option"
  ce_subscribe :: "nat list \<Rightarrow> string \<Rightarrow> string \<Rightarrow> nat"
  ce_str :: "json \<Rightarrow> string"

text \<open>\<open>rt_issued\<close> are the subscription ids the clients gave out so far, \<open>rt_cancelled\<close> those cancelled.\<close>

record routes =
  rt_api :: bool
  rt_moduleName :: string
  m_subscriptions :: "((string \<times> string) \<times> nat) list"
  rt_issued :: "nat list"
  rt_cancelled :: "nat list"

definition newRoutes :: "bool \<Rightarrow> string \<Rightarrow> routes" where
  "newRoutes api name = \<lparr>rt_api = api, rt_moduleName = name, m_subscriptions = [], rt_issued = [], rt_cancelled = []\<rparr>"

definition consentStatusFor :: "client_env \<Rightarrow> string \<Rightarrow> routes \<Rightarrow> (string \<times> json) list" where
  "consentStatusFor E target R =
     (if \<not> rt_api R \<or> target = kBroker then []
      else if \<not> ce_client E kBroker then []
      else let (code, msg, answer) = ce_invoke E kBroker ''consentStatus'' [JString (rt_moduleName R), JString target] in
        if code \<noteq> [] then [] else members answer)"

definition routes_call :: "client_env \<Rightarrow> string \<Rightarrow> string \<Rightarrow> json list \<Rightarrow> routes \<Rightarrow> CallOutcome" where
  "routes_call E target method args R =
     (if \<not> rt_api R then emptyOutcome\<lparr>co_error := ''this process has no host API: the web module was loaded without one and can call nothing'',
        co_errorCode := ''MODULE_NOT_LOADED''\<rparr>
      else if \<not> ce_client E target then emptyOutcome\<lparr>co_error := ''no client for '' @ target, co_errorCode := ''MODULE_NOT_LOADED''\<rparr>
      else let (code, msg, v) = ce_invoke E target method args in
        if code \<noteq> [] then refusedCallOutcome (ce_str E) target method code msg
          (if code = kUnauthorized then consentStatusFor E target R else [])
        else emptyOutcome\<lparr>co_ok := True, co_value := v\<rparr>)"

definition routes_methods :: "client_env \<Rightarrow> string \<Rightarrow> routes \<Rightarrow> json list" where
  "routes_methods E target R =
     (if \<not> rt_api R \<or> \<not> ce_client E target then [] else case ce_methods E target of None \<Rightarrow> [] | Some ms \<Rightarrow> ms)"

definition routes_subscribe :: "client_env \<Rightarrow> string \<times> string \<Rightarrow> routes \<Rightarrow> bool \<times> routes" where
  "routes_subscribe E key R =
     (if \<not> rt_api R \<or> \<not> ce_client E (fst key) then (False, R)
      else let i = ce_subscribe E (rt_issued R) (fst key) (snd key) in
        if i = 0 then (False, R)
        else (True, R\<lparr>m_subscriptions := AList.update key i (m_subscriptions R), rt_issued := rt_issued R @ [i]\<rparr>))"

definition cancel :: "client_env \<Rightarrow> string \<Rightarrow> nat \<Rightarrow> routes \<Rightarrow> routes" where
  "cancel E target i R = (if ce_client E target then R\<lparr>rt_cancelled := rt_cancelled R @ [i]\<rparr> else R)"

definition routes_unsubscribe :: "client_env \<Rightarrow> string \<times> string \<Rightarrow> routes \<Rightarrow> routes" where
  "routes_unsubscribe E key R =
     (case map_of (m_subscriptions R) key of
        None \<Rightarrow> R
      | Some i \<Rightarrow>
          (let R = R\<lparr>m_subscriptions := AList.delete key (m_subscriptions R)\<rparr> in
           if \<not> rt_api R then R else cancel E (fst key) i R))"

text \<open>The destructor; it asks the API, which has to be there still.\<close>

definition destroyRoutes :: "client_env \<Rightarrow> routes \<Rightarrow> routes" where
  "destroyRoutes E R =
     (let subs = m_subscriptions R; R = R\<lparr>m_subscriptions := []\<rparr> in
      if \<not> rt_api R then R else fold (\<lambda>(key, i). cancel E (fst key) i) subs R)"

section \<open>The router\<close>

text \<open>A unit of work carries whether \<open>m_routes\<close> was set when its message arrived.\<close>

datatype work =
    WorkCall bool string string "json list" "64 word"
  | WorkMethods bool string "64 word"
  | WorkSubscribe bool "string \<times> string"
  | WorkUnsubscribe bool "string \<times> string"

datatype reply =
    ResultMessage "64 word" CallOutcome
  | MethodsResultMessage "64 word" "json list option"

record router =
  wr_name :: string
  wr_hasRoutes :: bool
  wr_alive :: bool
  wr_sinks :: "((string \<times> string) \<times> nat) list"
  wr_queue :: "work list"
  wr_routes :: routes
  wr_replies :: "reply list"
  wr_events :: "(nat \<times> (string \<times> string) \<times> json list) list"

definition newRouter :: "string \<Rightarrow> bool \<Rightarrow> routes \<Rightarrow> router" where
  "newRouter name has R = \<lparr>wr_name = name, wr_hasRoutes = has, wr_alive = True, wr_sinks = [], wr_queue = [],
     wr_routes = R, wr_replies = [], wr_events = []\<rparr>"

definition answer_page :: "reply \<Rightarrow> router \<Rightarrow> router" where
  "answer_page m r = r\<lparr>wr_replies := wr_replies r @ [m]\<rparr>"

definition runWork :: "client_env \<Rightarrow> work \<Rightarrow> router \<Rightarrow> router" where
  "runWork E w r = (case w of
     WorkCall has target method args i \<Rightarrow>
       answer_page (ResultMessage i
         (if \<not> has then emptyOutcome\<lparr>co_error := ''web module '' @ wr_name r @ '' has no host to call'', co_errorCode := ''MODULE_NOT_LOADED''\<rparr>
          else routes_call E target method args (wr_routes r))) r
   | WorkMethods has target i \<Rightarrow>
       answer_page (MethodsResultMessage i (if \<not> has then None else Some (routes_methods E target (wr_routes r)))) r
   | WorkSubscribe has key \<Rightarrow>
       (if \<not> has then r else r\<lparr>wr_routes := snd (routes_subscribe E key (wr_routes r))\<rparr>)
   | WorkUnsubscribe has key \<Rightarrow>
       (if has then r\<lparr>wr_routes := routes_unsubscribe E key (wr_routes r)\<rparr> else r))"

definition runUnderGate :: "client_env \<Rightarrow> work \<Rightarrow> router \<Rightarrow> router" where
  "runUnderGate E w r = (if \<not> wr_alive r then r else runWork E w r)"

definition dispatch_work :: "client_env \<Rightarrow> bool \<Rightarrow> work \<Rightarrow> router \<Rightarrow> router" where
  "dispatch_work E main w r = (if main then runUnderGate E w r else r\<lparr>wr_queue := wr_queue r @ [w]\<rparr>)"

text \<open>One turn of the main thread's event loop.\<close>

definition serveMain :: "client_env \<Rightarrow> router \<Rightarrow> router" where
  "serveMain E r = (case wr_queue r of [] \<Rightarrow> r | w # ws \<Rightarrow> runUnderGate E w (r\<lparr>wr_queue := ws\<rparr>))"

definition onCall :: "client_env \<Rightarrow> bool \<Rightarrow> string \<Rightarrow> string \<Rightarrow> json list \<Rightarrow> 64 word \<Rightarrow> router \<Rightarrow> router" where
  "onCall E main target method args i r = dispatch_work E main (WorkCall (wr_hasRoutes r) target method args i) r"

definition onMethods :: "client_env \<Rightarrow> bool \<Rightarrow> string \<Rightarrow> 64 word \<Rightarrow> router \<Rightarrow> router" where
  "onMethods E main target i r = dispatch_work E main (WorkMethods (wr_hasRoutes r) target i) r"

definition onSubscribe :: "client_env \<Rightarrow> bool \<Rightarrow> string \<times> string \<Rightarrow> nat \<Rightarrow> router \<Rightarrow> router" where
  "onSubscribe E main key sink r =
     (let known = (key \<in> set (map fst (wr_sinks r))); has = wr_hasRoutes r;
          r = r\<lparr>wr_sinks := AList.update key sink (wr_sinks r)\<rparr>
      in if known then r else dispatch_work E main (WorkSubscribe has key) r)"

text \<open>An emission of a target the page watches, on the thread of the emitter.\<close>

definition emission :: "string \<times> string \<Rightarrow> string \<Rightarrow> json list \<Rightarrow> router \<Rightarrow> router" where
  "emission key name data r =
     (if \<not> wr_alive r then r
      else case map_of (wr_sinks r) key of
        None \<Rightarrow> r
      | Some sink \<Rightarrow> r\<lparr>wr_events := wr_events r @ [(sink, (fst key, name), data)]\<rparr>)"

definition onUnsubscribe :: "client_env \<Rightarrow> bool \<Rightarrow> string \<times> string \<Rightarrow> router \<Rightarrow> router" where
  "onUnsubscribe E main key r =
     (if key \<notin> set (map fst (wr_sinks r)) then r
      else dispatch_work E main (WorkUnsubscribe (wr_hasRoutes r) key) (r\<lparr>wr_sinks := AList.delete key (wr_sinks r)\<rparr>))"

definition onConnectionClosed :: "client_env \<Rightarrow> bool \<Rightarrow> router \<Rightarrow> router" where
  "onConnectionClosed E main r =
     fold (\<lambda>key. dispatch_work E main (WorkUnsubscribe (wr_hasRoutes r) key)) (map fst (wr_sinks r)) (r\<lparr>wr_sinks := []\<rparr>)"

definition onToken :: "string \<Rightarrow> router \<Rightarrow> router" where
  "onToken moduleName r = r"

definition subscriptionCount :: "router \<Rightarrow> nat" where
  "subscriptionCount r = length (wr_sinks r)"

text \<open>The three parts of \<open>stop\<close>: withdraw, close the gate, and drop the routes once nobody else is inside.\<close>

definition withdraw :: "client_env \<Rightarrow> router \<Rightarrow> router" where
  "withdraw E r =
     (let keys = map fst (wr_sinks r); r = r\<lparr>wr_sinks := []\<rparr> in
      if wr_hasRoutes r then r\<lparr>wr_routes := fold (routes_unsubscribe E) keys (wr_routes r)\<rparr> else r)"

definition closeGate :: "router \<Rightarrow> router" where
  "closeGate r = r\<lparr>wr_alive := False\<rparr>"

definition dropRoutes :: "router \<Rightarrow> router" where
  "dropRoutes r = r\<lparr>wr_hasRoutes := False\<rparr>"

definition stop_router :: "client_env \<Rightarrow> router \<Rightarrow> router" where
  "stop_router E r = dropRoutes (closeGate (withdraw E r))"

section \<open>Refusals\<close>

text \<open>
  What a page reads of a refused call. Only a refusal the consent gate can have caused is relabelled: the code is
  \<open>CONSENT_DENIED\<close> or \<open>CONSENT_REQUIRED\<close> exactly when the protocol said \<open>unauthorized\<close> and the broker's own
  verdict is denied, or pending or unknown; an unavailable object is \<open>MODULE_NOT_LOADED\<close>; everything else is
  \<open>METHOD_FAILED\<close>. The sentence is the broker's reason exactly in those two cases and when it gave one.
\<close>

theorem refusal_wording:
  "let out = refusedCallOutcome qstr target method errorCode errorMessage status;
       state = status_text qstr status ''state''; reason = status_text qstr status ''reason'' in
   \<not> co_ok out
   \<and> (co_errorCode out = ''CONSENT_DENIED'' \<longleftrightarrow> errorCode = kUnauthorized \<and> state = ''denied'')
   \<and> (co_errorCode out = ''CONSENT_REQUIRED'' \<longleftrightarrow> errorCode = kUnauthorized \<and> state \<in> {''pending'', ''unknown''})
   \<and> (co_errorCode out = ''MODULE_NOT_LOADED'' \<longleftrightarrow> errorCode = ''object_unavailable'')
   \<and> co_error out = (if co_errorCode out \<in> {''CONSENT_DENIED'', ''CONSENT_REQUIRED''} \<and> reason \<noteq> [] then reason
        else if errorMessage \<noteq> [] then errorMessage else ''call to '' @ target @ ''.'' @ method @ '' failed: '' @ errorCode)"
  by (auto simp: refusedCallOutcome_def Let_def emptyOutcome_def kUnauthorized_def)

section \<open>Subscriptions\<close>

text \<open>What the queued work makes of the set of keys the core holds for the page.\<close>

fun work_keys :: "work \<Rightarrow> (string \<times> string) set \<Rightarrow> (string \<times> string) set" where
  "work_keys (WorkSubscribe has key) ks = (if has then insert key ks else ks)"
| "work_keys (WorkUnsubscribe has key) ks = (if has then ks - {key} else ks)"
| "work_keys _ ks = ks"

definition held :: "router \<Rightarrow> (string \<times> string) set" where
  "held r = set (map fst (m_subscriptions (wr_routes r)))"

definition watched :: "router \<Rightarrow> (string \<times> string) set" where
  "watched r = set (map fst (wr_sinks r))"

text \<open>The clients are there and give a new id, never 0, to every subscription.\<close>

definition clients_ok :: "client_env \<Rightarrow> bool" where
  "clients_ok E \<longleftrightarrow> (\<forall>t. ce_client E t) \<and> (\<forall>ids t e. ce_subscribe E ids t e \<noteq> 0 \<and> ce_subscribe E ids t e \<notin> set ids)"

definition routes_fit :: "routes \<Rightarrow> bool" where
  "routes_fit R \<longleftrightarrow> rt_api R \<and> distinct (map fst (m_subscriptions R))
     \<and> set (map snd (m_subscriptions R)) \<union> set (rt_cancelled R) \<subseteq> set (rt_issued R)"

text \<open>Every id given out and not cancelled is the subscription of a key: none is forgotten.\<close>

definition none_forgotten :: "routes \<Rightarrow> bool" where
  "none_forgotten R \<longleftrightarrow> set (rt_issued R) - set (rt_cancelled R) \<subseteq> set (map snd (m_subscriptions R))"

text \<open>A subscription in the queue is for a key that the core does not hold when its turn comes.\<close>

definition turn_ok :: "(string \<times> string) set \<Rightarrow> work \<Rightarrow> bool" where
  "turn_ok ks w \<longleftrightarrow> (case w of WorkSubscribe has key \<Rightarrow> has \<and> key \<notin> ks | WorkUnsubscribe has _ \<Rightarrow> has | _ \<Rightarrow> True)"

fun queue_ok :: "(string \<times> string) set \<Rightarrow> work list \<Rightarrow> bool" where
  "queue_ok ks [] = True"
| "queue_ok ks (w # ws) = (turn_ok ks w \<and> queue_ok (work_keys w ks) ws)"

lemma queue_ok_append [simp]: "queue_ok ks (ws @ [w]) \<longleftrightarrow> queue_ok ks ws \<and> turn_ok (fold work_keys ws ks) w"
  by (induction ws arbitrary: ks) auto

text \<open>The router is open, and once its queue has run the core holds exactly \<open>ks\<close>.\<close>

definition heading_for :: "(string \<times> string) set \<Rightarrow> router \<Rightarrow> bool" where
  "heading_for ks r \<longleftrightarrow> wr_alive r \<and> wr_hasRoutes r \<and> routes_fit (wr_routes r) \<and> none_forgotten (wr_routes r)
     \<and> queue_ok (held r) (wr_queue r) \<and> fold work_keys (wr_queue r) (held r) = ks"

definition router_fit :: "router \<Rightarrow> bool" where
  "router_fit r \<longleftrightarrow> distinct (map fst (wr_sinks r)) \<and> heading_for (watched r) r"

lemma update_notin: "k \<notin> set (map fst al) \<Longrightarrow> AList.update k v al = al @ [(k, v)]"
  by (induction al) auto

lemma subscribe_fit:
  assumes "clients_ok E" and "routes_fit R" and "none_forgotten R" and "key \<notin> set (map fst (m_subscriptions R))"
  shows "routes_fit (snd (routes_subscribe E key R))" and "none_forgotten (snd (routes_subscribe E key R))"
    and "set (map fst (m_subscriptions (snd (routes_subscribe E key R)))) = insert key (set (map fst (m_subscriptions R)))"
proof -
  let ?i = "ce_subscribe E (rt_issued R) (fst key) (snd key)"
  have upd: "AList.update key ?i (m_subscriptions R) = m_subscriptions R @ [(key, ?i)]"
    using assms(4) by (rule update_notin)
  have "snd (routes_subscribe E key R) = R\<lparr>m_subscriptions := m_subscriptions R @ [(key, ?i)], rt_issued := rt_issued R @ [?i]\<rparr>"
    using assms(1,2) upd by (simp add: routes_subscribe_def clients_ok_def routes_fit_def Let_def)
  then show "routes_fit (snd (routes_subscribe E key R))" "none_forgotten (snd (routes_subscribe E key R))"
    "set (map fst (m_subscriptions (snd (routes_subscribe E key R)))) = insert key (set (map fst (m_subscriptions R)))"
    using assms by (auto simp: routes_fit_def none_forgotten_def)
qed

lemma unsubscribe_fit:
  assumes "clients_ok E" and "routes_fit R" and "none_forgotten R"
  shows "routes_fit (routes_unsubscribe E key R)" and "none_forgotten (routes_unsubscribe E key R)"
    and "set (map fst (m_subscriptions (routes_unsubscribe E key R))) = set (map fst (m_subscriptions R)) - {key}"
proof -
  have "routes_fit (routes_unsubscribe E key R) \<and> none_forgotten (routes_unsubscribe E key R)
    \<and> set (map fst (m_subscriptions (routes_unsubscribe E key R))) = set (map fst (m_subscriptions R)) - {key}"
  proof (cases "map_of (m_subscriptions R) key")
    case None
    then have "key \<notin> set (map fst (m_subscriptions R))" by (simp add: map_of_eq_None_iff)
    with None assms show ?thesis by (simp add: routes_unsubscribe_def)
  next
    case (Some i)
    have eq: "routes_unsubscribe E key R = R\<lparr>m_subscriptions := AList.delete key (m_subscriptions R), rt_cancelled := rt_cancelled R @ [i]\<rparr>"
      using assms Some by (simp add: routes_unsubscribe_def cancel_def clients_ok_def routes_fit_def Let_def)
    have d: "distinct (map fst (m_subscriptions R))" and issued: "i \<in> set (rt_issued R)"
      using assms(2) map_of_SomeD [OF Some] by (force simp: routes_fit_def)+
    have keep: "x \<in> snd ` set (AList.delete key (m_subscriptions R))" if mem: "x \<in> snd ` set (m_subscriptions R)" and ne: "x \<noteq> i" for x
    proof -
      obtain z where "z \<in> set (m_subscriptions R)" "x = snd z" using mem by blast
      then have k: "(fst z, x) \<in> set (m_subscriptions R)" by simp
      then have "map_of (m_subscriptions R) (fst z) = Some x" using d by simp
      with Some ne have "fst z \<noteq> key" by auto
      with k have "(fst z, x) \<in> set (AList.delete key (m_subscriptions R))" by (simp add: AList.delete_eq)
      then show ?thesis by force
    qed
    have "snd ` set (AList.delete key (m_subscriptions R)) \<subseteq> snd ` set (m_subscriptions R)" by (auto simp: AList.delete_eq)
    with assms(2,3) d issued keep show ?thesis
      by (auto simp: eq routes_fit_def none_forgotten_def distinct_delete delete_keys distinct_removeAll simp del: set_map) (auto simp: AList.delete_eq)
  qed
  then show "routes_fit (routes_unsubscribe E key R)" "none_forgotten (routes_unsubscribe E key R)"
    "set (map fst (m_subscriptions (routes_unsubscribe E key R))) = set (map fst (m_subscriptions R)) - {key}" by blast+
qed


lemma runWork_keeps [simp]:
  "wr_sinks (runWork E w r) = wr_sinks r" "wr_queue (runWork E w r) = wr_queue r" "wr_alive (runWork E w r) = wr_alive r"
  "wr_hasRoutes (runWork E w r) = wr_hasRoutes r" "watched (runWork E w r) = watched r"
  by (cases w; simp add: runWork_def answer_page_def watched_def)+

lemma runWork_fit:
  assumes "clients_ok E" and "routes_fit (wr_routes r)" and "none_forgotten (wr_routes r)" and "turn_ok (held r) w"
  shows "routes_fit (wr_routes (runWork E w r))" and "none_forgotten (wr_routes (runWork E w r))"
    and "held (runWork E w r) = work_keys w (held r)"
proof -
  have "routes_fit (wr_routes (runWork E w r)) \<and> none_forgotten (wr_routes (runWork E w r)) \<and> held (runWork E w r) = work_keys w (held r)"
  proof (cases w)
    case (WorkSubscribe has key)
    with assms subscribe_fit [OF assms(1-3), of key] show ?thesis
      by (auto simp: runWork_def held_def turn_ok_def simp del: set_map)
  next
    case (WorkUnsubscribe has key)
    with assms unsubscribe_fit [OF assms(1-3), of key] show ?thesis
      by (auto simp: runWork_def held_def turn_ok_def simp del: set_map)
  qed (use assms in \<open>auto simp: runWork_def held_def answer_page_def\<close>)
  then show "routes_fit (wr_routes (runWork E w r))" "none_forgotten (wr_routes (runWork E w r))"
    "held (runWork E w r) = work_keys w (held r)" by blast+
qed

lemma serve_heading:
  assumes "clients_ok E" and "heading_for ks r"
  shows "heading_for ks (serveMain E r)" and "wr_sinks (serveMain E r) = wr_sinks r" and "wr_queue (serveMain E r) = tl (wr_queue r)"
proof -
  have "heading_for ks (serveMain E r) \<and> wr_sinks (serveMain E r) = wr_sinks r \<and> wr_queue (serveMain E r) = tl (wr_queue r)"
  proof (cases "wr_queue r")
    case (Cons w ws)
    let ?r = "r\<lparr>wr_queue := ws\<rparr>"
    have h: "held ?r = held r" by (simp add: held_def)
    have "turn_ok (held ?r) w" using assms(2) Cons by (simp add: heading_for_def h)
    from runWork_fit [OF assms(1) _ _ this] assms(2) Cons show ?thesis
      by (simp add: serveMain_def runUnderGate_def heading_for_def h)
  qed (use assms in \<open>simp add: serveMain_def\<close>)
  then show "heading_for ks (serveMain E r)" "wr_sinks (serveMain E r) = wr_sinks r" "wr_queue (serveMain E r) = tl (wr_queue r)" by blast+
qed

lemma dispatch_heading:
  assumes "clients_ok E" and "heading_for ks r" and "main \<Longrightarrow> wr_queue r = []" and "turn_ok ks w"
  shows "heading_for (work_keys w ks) (dispatch_work E main w r)" and "wr_sinks (dispatch_work E main w r) = wr_sinks r"
    and "main \<Longrightarrow> wr_queue (dispatch_work E main w r) = []" and "wr_hasRoutes (dispatch_work E main w r)"
proof -
  have "heading_for (work_keys w ks) (dispatch_work E main w r) \<and> wr_sinks (dispatch_work E main w r) = wr_sinks r
    \<and> (main \<longrightarrow> wr_queue (dispatch_work E main w r) = []) \<and> wr_hasRoutes (dispatch_work E main w r)"
  proof (cases main)
    case True
    with assms have q: "wr_queue r = []" and h: "held r = ks" by (simp_all add: heading_for_def)
    from runWork_fit [OF assms(1), of r w] assms(2,4) h q True show ?thesis
      by (simp add: dispatch_work_def runUnderGate_def heading_for_def)
  next
    case False
    have "held (r\<lparr>wr_queue := x\<rparr>) = held r" for x by (simp add: held_def)
    with assms(2,4) False show ?thesis by (simp add: dispatch_work_def heading_for_def)
  qed
  then show "heading_for (work_keys w ks) (dispatch_work E main w r)" "wr_sinks (dispatch_work E main w r) = wr_sinks r"
    "main \<Longrightarrow> wr_queue (dispatch_work E main w r) = []" "wr_hasRoutes (dispatch_work E main w r)" by blast+
qed

text \<open>The messages of a page, its events and the turns of the main thread.\<close>

datatype router_op =
    OpCall string string "json list" "64 word"
  | OpMethods string "64 word"
  | OpSubscribe "string \<times> string" nat
  | OpUnsubscribe "string \<times> string"
  | OpClosed
  | OpToken string
  | OpEmission "string \<times> string" string "json list"
  | OpServe

definition router_op :: "client_env \<Rightarrow> bool \<Rightarrow> router_op \<Rightarrow> router \<Rightarrow> router" where
  "router_op E main m r = (case m of
     OpCall target method args i \<Rightarrow> onCall E main target method args i r
   | OpMethods target i \<Rightarrow> onMethods E main target i r
   | OpSubscribe key sink \<Rightarrow> onSubscribe E main key sink r
   | OpUnsubscribe key \<Rightarrow> onUnsubscribe E main key r
   | OpClosed \<Rightarrow> onConnectionClosed E main r
   | OpToken name \<Rightarrow> onToken name r
   | OpEmission key name data \<Rightarrow> emission key name data r
   | OpServe \<Rightarrow> serveMain E r)"

definition router_inv :: "bool \<Rightarrow> router \<Rightarrow> bool" where
  "router_inv main r \<longleftrightarrow> router_fit r \<and> (main \<longrightarrow> wr_queue r = [])"

lemma heading_sinks [simp]: "heading_for ks (r\<lparr>wr_sinks := m\<rparr>) = heading_for ks r" "heading_for ks (r\<lparr>wr_events := e\<rparr>) = heading_for ks r"
  by (simp_all add: heading_for_def held_def)

lemma closed_heading:
  assumes "clients_ok E" and "heading_for ks r" and "main \<Longrightarrow> wr_queue r = []"
  shows "heading_for (ks - set keys') (fold (\<lambda>key. dispatch_work E main (WorkUnsubscribe True key)) keys' r)
    \<and> wr_sinks (fold (\<lambda>key. dispatch_work E main (WorkUnsubscribe True key)) keys' r) = wr_sinks r
    \<and> (main \<longrightarrow> wr_queue (fold (\<lambda>key. dispatch_work E main (WorkUnsubscribe True key)) keys' r) = [])"
  using assms(2,3)
proof (induction keys' arbitrary: r ks)
  case (Cons key keys')
  have t: "turn_ok ks (WorkUnsubscribe True key)" by (simp add: turn_ok_def)
  note step = dispatch_heading [OF assms(1) Cons.prems t]
  have "ks - {key} - set keys' = ks - set (key # keys')" by auto
  with Cons.IH [OF step(1) step(3)] step(2) show ?case by simp
qed simp

lemma router_inv_step:
  assumes "clients_ok E" and "router_inv main r"
  shows "router_inv main (router_op E main m r)"
proof -
  have fit: "heading_for (watched r) r" "distinct (map fst (wr_sinks r))" "wr_hasRoutes r" and q: "main \<Longrightarrow> wr_queue r = []"
    using assms(2) by (simp_all add: router_inv_def router_fit_def heading_for_def)
  note disp = dispatch_heading [OF assms(1) fit(1) q]
  show ?thesis
  proof (cases m)
    case (OpCall target mtd args i)
    with disp [of main "WorkCall True target mtd args i"] fit show ?thesis
      by (simp add: router_op_def onCall_def router_inv_def router_fit_def turn_ok_def watched_def)
  next
    case (OpMethods target i)
    with disp [of main "WorkMethods True target i"] fit show ?thesis
      by (simp add: router_op_def onMethods_def router_inv_def router_fit_def turn_ok_def watched_def)
  next
    case (OpSubscribe key sink)
    let ?r = "r\<lparr>wr_sinks := AList.update key sink (wr_sinks r)\<rparr>"
    have w: "watched ?r = insert key (watched r)" by (auto simp: watched_def update_keys simp del: set_map)
    have h: "heading_for (watched r) ?r" "main \<Longrightarrow> wr_queue ?r = []" using fit q by simp_all
    have d: "distinct (map fst (wr_sinks ?r))" using fit(2) by (simp add: distinct_update)
    show ?thesis
    proof (cases "key \<in> watched r")
      case True
      with OpSubscribe h w d show ?thesis
        by (auto simp: router_op_def onSubscribe_def router_inv_def router_fit_def Let_def insert_absorb watched_def simp del: set_map)
    next
      case False
      have t: "turn_ok (watched r) (WorkSubscribe True key)" using False by (simp add: turn_ok_def)
      from dispatch_heading [OF assms(1) h t] OpSubscribe False w d fit(3) show ?thesis
        by (auto simp: router_op_def onSubscribe_def router_inv_def router_fit_def Let_def watched_def simp del: set_map)
    qed
  next
    case (OpUnsubscribe key)
    let ?r = "r\<lparr>wr_sinks := AList.delete key (wr_sinks r)\<rparr>"
    have w: "watched ?r = watched r - {key}" by (simp add: watched_def delete_keys)
    have h: "heading_for (watched r) ?r" "main \<Longrightarrow> wr_queue ?r = []" using fit q by simp_all
    have d: "distinct (map fst (wr_sinks ?r))" using fit(2) by (simp add: distinct_delete)
    have t: "turn_ok (watched r) (WorkUnsubscribe True key)" by (simp add: turn_ok_def)
    from dispatch_heading [OF assms(1) h t] OpUnsubscribe w d fit q show ?thesis
      by (auto simp: router_op_def onUnsubscribe_def router_inv_def router_fit_def watched_def simp del: set_map)
  next
    case OpClosed
    have h: "heading_for (watched r) (r\<lparr>wr_sinks := []\<rparr>)" "main \<Longrightarrow> wr_queue (r\<lparr>wr_sinks := []\<rparr>) = []" using fit q by simp_all
    from closed_heading [OF assms(1) h, of main "map fst (wr_sinks r)"] OpClosed fit show ?thesis
      by (simp add: router_op_def onConnectionClosed_def router_inv_def router_fit_def watched_def)
  next
    case (OpEmission key name data)
    with fit q show ?thesis
      by (auto simp: router_op_def emission_def router_inv_def router_fit_def watched_def split: option.split)
  next
    case OpServe
    with serve_heading [OF assms(1) fit(1)] fit(2) q show ?thesis
      by (auto simp: router_op_def router_inv_def router_fit_def watched_def)
  qed (use assms in \<open>simp add: router_op_def onToken_def\<close>)
qed

definition page_run :: "client_env \<Rightarrow> bool \<Rightarrow> string \<Rightarrow> router_op list \<Rightarrow> router" where
  "page_run E main name ops = fold (router_op E main) ops (newRouter name True (newRoutes True name))"

lemma page_run_inv:
  assumes "clients_ok E"
  shows "router_inv main (page_run E main name ops)"
proof -
  have "router_inv main (newRouter name True (newRoutes True name))"
    by (simp add: router_inv_def router_fit_def heading_for_def newRouter_def newRoutes_def routes_fit_def none_forgotten_def
        watched_def held_def)
  then have "router_inv main (fold (router_op E main) ops (newRouter name True (newRoutes True name)))"
    by (induction ops rule: rev_induct) (simp_all add: router_inv_step [OF assms])
  then show ?thesis by (simp add: page_run_def)
qed


definition sampleClients :: client_env where
  "sampleClients = \<lparr>ce_client = (\<lambda>_. True), ce_invoke = (\<lambda>_ _ _. ([], [], JBool True)), ce_methods = (\<lambda>_. Some []),
     ce_subscribe = (\<lambda>ids _ _. Suc (sum_list ids)), ce_str = (\<lambda>_. [])\<rparr>"

lemma sample_clients_ok: "clients_ok sampleClients"
proof -
  have "Suc (sum_list ids) \<notin> set ids" for ids :: "nat list"
    using member_le_sum_list [of _ ids] by fastforce
  then show ?thesis by (simp add: clients_ok_def sampleClients_def)
qed


text \<open>
  A subscription that could not be armed stays in the table of sinks, so the page that asks again, once the target is there, is
  taken for one that has it already: nothing is armed, and no emission reaches it until it unsubscribes.
\<close>

lemma failed_subscribe_sticks:
  assumes "\<not> ce_client E0 (fst key)"
  shows "held (onSubscribe E1 True key sink (onSubscribe E0 True key sink (newRouter name True (newRoutes True name)))) = {}"
    and "watched (onSubscribe E1 True key sink (onSubscribe E0 True key sink (newRouter name True (newRoutes True name)))) = {key}"
  using assms
  by (simp_all add: onSubscribe_def dispatch_work_def runUnderGate_def runWork_def routes_subscribe_def newRouter_def newRoutes_def
      held_def watched_def Let_def)

section \<open>Stopping\<close>

lemma unsubscribe_each:
  assumes "clients_ok E" and "routes_fit R" and "none_forgotten R"
  shows "routes_fit (fold (routes_unsubscribe E) ks R) \<and> none_forgotten (fold (routes_unsubscribe E) ks R)
    \<and> set (map fst (m_subscriptions (fold (routes_unsubscribe E) ks R))) = set (map fst (m_subscriptions R)) - set ks"
  using assms(2,3)
proof (induction ks arbitrary: R)
  case (Cons k ks)
  note step = unsubscribe_fit [OF assms(1) Cons.prems, of k]
  from Cons.IH [OF step(1,2)] step(3) show ?case by (auto simp del: set_map)
qed simp

text \<open>Behind a closed gate nothing happens but bookkeeping of the page's own table.\<close>

definition outward :: "router \<Rightarrow> routes \<times> reply list \<times> (nat \<times> (string \<times> string) \<times> json list) list" where
  "outward r = (wr_routes r, wr_replies r, wr_events r)"

lemma closed_dispatch:
  "\<not> wr_alive r \<Longrightarrow> outward (dispatch_work E main w r) = outward r \<and> \<not> wr_alive (dispatch_work E main w r)"
  by (simp add: dispatch_work_def runUnderGate_def outward_def)

lemma closed_dispatches:
  "\<not> wr_alive r \<Longrightarrow> outward (fold (\<lambda>k. dispatch_work E main (f k)) ks r) = outward r \<and> \<not> wr_alive (fold (\<lambda>k. dispatch_work E main (f k)) ks r)"
  by (induction ks arbitrary: r) (simp_all add: closed_dispatch)

lemma closed_op:
  assumes "\<not> wr_alive r"
  shows "outward (router_op E main m r) = outward r \<and> \<not> wr_alive (router_op E main m r)"
proof -
  have f: "outward (r\<lparr>wr_sinks := x\<rparr>) = outward r" "\<not> wr_alive (r\<lparr>wr_sinks := x\<rparr>)" for x
    using assms by (simp_all add: outward_def)
  have g: "outward (r\<lparr>wr_queue := x\<rparr>) = outward r" for x by (simp add: outward_def)
  show ?thesis
  proof (cases m)
    case OpClosed
    with closed_dispatches [OF f(2)] f(1) show ?thesis by (simp add: router_op_def onConnectionClosed_def)
  qed (use assms f g in \<open>auto simp: closed_dispatch router_op_def onCall_def onMethods_def onSubscribe_def onUnsubscribe_def onToken_def
        emission_def serveMain_def runUnderGate_def Let_def split: list.split\<close>)
qed

lemma closed_run: "\<not> wr_alive r \<Longrightarrow> outward (fold (router_op E main) ops r) = outward r"
  by (induction ops arbitrary: r) (simp_all add: closed_op)



text \<open>
  With a withdrawal still posted, \<open>stop\<close> leaves the subscription with the routes: the sink is gone from the
  table, so \<open>stop\<close> does not see it, and the posted work finds the gate closed. The container destroys the
  routes after the API they would cancel it on.
\<close>

lemma posted_withdrawal_dropped:
  "let r = stop_router sampleClients (page_run sampleClients False ''p'' [OpSubscribe (''m'', ''e'') 4, OpServe, OpUnsubscribe (''m'', ''e'')]) in
     m_subscriptions (wr_routes (serveMain sampleClients r)) = [((''m'', ''e''), 1)] \<and> wr_queue (serveMain sampleClients r) = []"
  by code_simp

section \<open>The gate\<close>

text \<open>
  Threads inside the gate, as frames with the work they run, and the thread in \<open>stop\<close>. Work enters and leaves
  in two steps, so that a call in progress may be re-entered; its effect comes when it leaves.
\<close>

datatype gate_phase = GateOpen | Withdrawn nat | Closed nat | GateStopped nat

record gate_sys =
  gs_router :: router
  gs_frames :: "(nat \<times> work) multiset"
  gs_phase :: gate_phase

definition noOtherThreadInside :: "nat \<Rightarrow> gate_sys \<Rightarrow> bool" where
  "noOtherThreadInside t s \<longleftrightarrow> (\<forall>f \<in># gs_frames s. fst f = t)"

inductive gate_step :: "client_env \<Rightarrow> gate_sys \<Rightarrow> gate_sys \<Rightarrow> bool" for E where
  Message: "gate_step E s (s\<lparr>gs_router := router_op E False m (gs_router s)\<rparr>)"
    if "m \<noteq> OpServe"
| Enter: "gate_step E s (s\<lparr>gs_router := (gs_router s)\<lparr>wr_queue := ws\<rparr>, gs_frames := add_mset (t, w) (gs_frames s)\<rparr>)"
    if "wr_queue (gs_router s) = w # ws" "wr_alive (gs_router s)"
| Drop: "gate_step E s (s\<lparr>gs_router := (gs_router s)\<lparr>wr_queue := ws\<rparr>\<rparr>)"
    if "wr_queue (gs_router s) = w # ws" "\<not> wr_alive (gs_router s)"
| Leave: "gate_step E s (s\<lparr>gs_router := runWork E w (gs_router s), gs_frames := gs_frames s - {#(t, w)#}\<rparr>)"
    if "(t, w) \<in># gs_frames s"
| StopWithdraw: "gate_step E s (s\<lparr>gs_router := withdraw E (gs_router s), gs_phase := Withdrawn t\<rparr>)"
    if "gs_phase s = GateOpen"
| StopClose: "gate_step E s (s\<lparr>gs_router := closeGate (gs_router s), gs_phase := Closed t\<rparr>)"
    if "gs_phase s = Withdrawn t"
| StopWaited: "gate_step E s (s\<lparr>gs_router := dropRoutes (gs_router s), gs_phase := GateStopped t\<rparr>)"
    if "gs_phase s = Closed t" "noOtherThreadInside t s"

inductive gate_reach :: "client_env \<Rightarrow> gate_sys \<Rightarrow> gate_sys \<Rightarrow> bool" for E s0 where
  Start: "gate_reach E s0 s0"
| Step: "gate_reach E s0 s \<Longrightarrow> gate_step E s s' \<Longrightarrow> gate_reach E s0 s'"

definition gateOf :: "router \<Rightarrow> gate_sys" where
  "gateOf r = \<lparr>gs_router = r, gs_frames = {#}, gs_phase = GateOpen\<rparr>"

definition gate_inv :: "gate_sys \<Rightarrow> bool" where
  "gate_inv s \<longleftrightarrow> (case gs_phase s of
     Closed t \<Rightarrow> \<not> wr_alive (gs_router s)
   | GateStopped t \<Rightarrow> \<not> wr_alive (gs_router s) \<and> noOtherThreadInside t s
   | _ \<Rightarrow> True)"

lemma router_op_alive: "wr_alive (router_op E False m r) \<Longrightarrow> wr_alive r"
  using closed_op by blast

lemma gate_step_inv: "gate_step E s s' \<Longrightarrow> gate_inv s \<Longrightarrow> gate_inv s'"
proof (induction rule: gate_step.induct)
  case (Message m s)
  then show ?case
    using router_op_alive [of E m "gs_router s"] by (auto simp: gate_inv_def noOtherThreadInside_def split: gate_phase.splits)
next
  case (Leave t w s)
  then show ?case by (auto simp: gate_inv_def noOtherThreadInside_def dest: in_diffD split: gate_phase.splits)
qed (auto simp: gate_inv_def noOtherThreadInside_def closeGate_def dropRoutes_def withdraw_def Let_def split: gate_phase.splits)

lemma gate_reach_inv: "gate_reach E (gateOf r) s \<Longrightarrow> gate_inv s"
proof (induction rule: gate_reach.induct)
  case Start
  then show ?case by (simp add: gate_inv_def gateOf_def)
qed (rule gate_step_inv)

lemma stopped_step:
  assumes "gate_step E s s'" and "gs_phase s = GateStopped t" and "gate_inv s"
  shows "gs_phase s' = GateStopped t \<and> gs_frames s' \<subseteq># gs_frames s"
  using assms by (induction rule: gate_step.induct) (auto simp: gate_inv_def)


lemma gate_via: "gate_reach E s0 s \<Longrightarrow> gate_step E s s' \<Longrightarrow> s' = s'' \<Longrightarrow> gate_reach E s0 s''"
  using gate_reach.Step by metis

definition calledRouter :: router where
  "calledRouter = newRouter ''p'' True (newRoutes True ''p'')"

abbreviation pageCall :: work where "pageCall \<equiv> WorkCall True ''m'' ''f'' [] 9"

text \<open>
  The wait does not count the stopping thread's own frames: stopped from inside a call of the page, the gate
  is closed and the routes are dropped while that call still has the routes it read to go on with.
\<close>

lemma own_call_outlives_stop:
  "gate_reach sampleClients (gateOf calledRouter)
     \<lparr>gs_router = stop_router sampleClients calledRouter, gs_frames = {#(1, pageCall)#}, gs_phase = GateStopped 1\<rparr>"
proof -
  let ?r = "\<lambda>q. calledRouter\<lparr>wr_queue := q\<rparr>"
  have "gate_reach sampleClients (gateOf calledRouter) \<lparr>gs_router = ?r [pageCall], gs_frames = {#}, gs_phase = GateOpen\<rparr>"
    by (rule gate_via [OF gate_reach.Start Message [where m = "OpCall ''m'' ''f'' [] 9"]])
      (simp_all add: gateOf_def router_op_def onCall_def dispatch_work_def calledRouter_def newRouter_def)
  then have "gate_reach sampleClients (gateOf calledRouter) \<lparr>gs_router = calledRouter, gs_frames = {#(1, pageCall)#}, gs_phase = GateOpen\<rparr>"
    by (rule gate_via [OF _ Enter [where w = pageCall and ws = "[]" and t = 1]]) (simp_all add: calledRouter_def newRouter_def)
  then have "gate_reach sampleClients (gateOf calledRouter)
      \<lparr>gs_router = withdraw sampleClients calledRouter, gs_frames = {#(1, pageCall)#}, gs_phase = Withdrawn 1\<rparr>"
    by (rule gate_via [OF _ StopWithdraw [where t = 1]]) simp_all
  then have "gate_reach sampleClients (gateOf calledRouter)
      \<lparr>gs_router = closeGate (withdraw sampleClients calledRouter), gs_frames = {#(1, pageCall)#}, gs_phase = Closed 1\<rparr>"
    by (rule gate_via [OF _ StopClose [where t = 1]]) simp_all
  then show ?thesis
    by (rule gate_via [OF _ StopWaited [where t = 1]]) (simp_all add: noOtherThreadInside_def stop_router_def)
qed


end
