(* ===== verification/WebModuleGlue.thy ===== *)
theory WebModuleGlue
  imports Prelude
begin

text \<open>
  \<open>src/logos_core/web_module_glue.{h,cpp}\<close>: the provider that stands for a page and relays every question to it.
  What the page answers is an argument of the operations; what is sent to it is the log \<open>page_log\<close>. A
  \<open>QVariant\<close> is a JSON value, the invalid one \<open>null\<close>. The second half is the wait on the Qt main thread: nested
  event loops, the answers that may come late and the page that may die, as a step relation.
\<close>

section \<open>State and operations\<close>

text \<open>What crosses the channel: a call with the caller it names, if any; a token; and the calls on the handle.\<close>

datatype page_msg =
    PageCall "string option" string string "json list"
  | PageMethods
  | PageInform string string string
  | PageOnEvent string
  | PageDisconnect
  | PageRelease

record webglue =
  wg_name :: string
  wg_version :: string
  wg_page :: bool
  wg_awaiting :: nat
  wg_waits :: "nat list"
  wg_credential :: string
  wg_eventCallback :: bool
  wg_subscribed :: bool
  page_log :: "page_msg list"
  wg_events :: "(string \<times> json list) list"

definition newWebGlue :: "string \<Rightarrow> string \<Rightarrow> bool \<Rightarrow> webglue" where
  "newWebGlue name version page = \<lparr>wg_name = name, wg_version = version, wg_page = page, wg_awaiting = 0, wg_waits = [],
     wg_credential = [], wg_eventCallback = False, wg_subscribed = False, page_log = [], wg_events = []\<rparr>"

definition send_page :: "page_msg \<Rightarrow> webglue \<Rightarrow> webglue" where
  "send_page m g = g\<lparr>page_log := page_log g @ [m]\<rparr>"

definition destroyWebGlue :: "webglue \<Rightarrow> webglue" where
  "destroyWebGlue g =
     (if \<not> wg_page g then g
      else (send_page PageRelease ((send_page PageDisconnect g)\<lparr>wg_eventCallback := False\<rparr>))\<lparr>wg_page := False\<rparr>)"

text \<open>\<open>ring\<close> is the token store of the core.\<close>

definition glue_authToken :: "(string \<Rightarrow> string) \<Rightarrow> webglue \<Rightarrow> string" where
  "glue_authToken ring g = (if wg_credential g \<noteq> [] then wg_credential g else ring (wg_name g))"

text \<open>The door of a call: the one that carries the caller, where there is one and the handle has it (\<open>channel\<close>).\<close>

definition pageCallFor :: "(string \<Rightarrow> string) \<Rightarrow> bool \<Rightarrow> string \<Rightarrow> string \<Rightarrow> json list \<Rightarrow> webglue \<Rightarrow> page_msg" where
  "pageCallFor ring channel callerJson methodName args g =
     PageCall (if callerJson = [] \<or> \<not> channel then None else Some callerJson) (glue_authToken ring g) methodName args"

text \<open>The blocking call, off the Qt main thread; \<open>answer\<close> is the page's, the invalid value at its deadline.\<close>

definition awaitPageBlocking ::
  "(string \<Rightarrow> string) \<Rightarrow> bool \<Rightarrow> json \<Rightarrow> string \<Rightarrow> string \<Rightarrow> json list \<Rightarrow> webglue \<Rightarrow> json \<times> webglue" where
  "awaitPageBlocking ring channel answer callerJson methodName args g =
     (answer, send_page (pageCallFor ring channel callerJson methodName args g) g)"

text \<open>The two ends of a wait on the Qt main thread: the nested loop \<open>k\<close> is entered and left.\<close>

definition beginWait :: "(string \<Rightarrow> string) \<Rightarrow> bool \<Rightarrow> nat \<Rightarrow> string \<Rightarrow> string \<Rightarrow> json list \<Rightarrow> webglue \<Rightarrow> webglue" where
  "beginWait ring channel k callerJson methodName args g =
     (let m = pageCallFor ring channel callerJson methodName args g in
      send_page m (g\<lparr>wg_awaiting := wg_awaiting g + 1, wg_waits := wg_waits g @ [k]\<rparr>))"

definition endWait :: "nat \<Rightarrow> webglue \<Rightarrow> webglue" where
  "endWait k g = g\<lparr>wg_waits := remove1 k (wg_waits g), wg_awaiting := wg_awaiting g - 1\<rparr>"

definition isAwaitingPage :: "webglue \<Rightarrow> bool" where
  "isAwaitingPage g \<longleftrightarrow> wg_awaiting g > 0"

text \<open>The loops told to quit.\<close>

definition abandonPendingCalls :: "webglue \<Rightarrow> nat list" where
  "abandonPendingCalls g = wg_waits g"

definition web_callMethod ::
  "(string \<Rightarrow> string) \<Rightarrow> bool \<Rightarrow> json \<Rightarrow> string \<Rightarrow> string \<Rightarrow> json list \<Rightarrow> webglue \<Rightarrow> json \<times> webglue" where
  "web_callMethod ring channel answer currentCaller methodName args g =
     (if \<not> wg_page g then (JNull, g) else awaitPageBlocking ring channel answer currentCaller methodName args g)"

definition web_getMethods :: "json list \<Rightarrow> webglue \<Rightarrow> json list \<times> webglue" where
  "web_getMethods answer g = (if \<not> wg_page g then ([], g) else (answer, send_page PageMethods g))"

text \<open>\<open>localOk\<close> is what the base class answers, \<open>accepted\<close> what the page does.\<close>

definition web_informModuleToken ::
  "(string \<Rightarrow> string) \<Rightarrow> bool \<Rightarrow> bool \<Rightarrow> string \<Rightarrow> string \<Rightarrow> webglue \<Rightarrow> bool \<times> webglue" where
  "web_informModuleToken ring localOk accepted moduleName token g =
     (if \<not> wg_page g then (localOk, g)
      else (localOk \<and> accepted, send_page (PageInform (glue_authToken ring g) moduleName token) g))"

definition web_setEventListener :: "bool \<Rightarrow> webglue \<Rightarrow> webglue" where
  "web_setEventListener cb g =
     (let g = g\<lparr>wg_eventCallback := cb\<rparr> in
      if \<not> wg_page g \<or> wg_subscribed g then g else send_page (PageOnEvent []) (g\<lparr>wg_subscribed := True\<rparr>))"

text \<open>An event of the page, on the transport's delivery thread.\<close>

definition pageEvent :: "string \<Rightarrow> json list \<Rightarrow> webglue \<Rightarrow> webglue" where
  "pageEvent name data g = (if wg_eventCallback g then g\<lparr>wg_events := wg_events g @ [(name, data)]\<rparr> else g)"

definition deliverCredential :: "bool \<Rightarrow> string \<Rightarrow> webglue \<Rightarrow> bool \<times> webglue" where
  "deliverCredential accepted token g =
     (if \<not> wg_page g then (False, g)
      else (accepted, send_page (PageInform [] (wg_name g) token) (g\<lparr>wg_credential := token\<rparr>)))"

definition pageIsServing :: "json list \<Rightarrow> webglue \<Rightarrow> bool \<times> webglue" where
  "pageIsServing answer g = (let (ms, g) = web_getMethods answer g in (ms \<noteq> [], g))"

section \<open>What the relay presents\<close>

datatype glue_use =
    UseCall string string "json list"
  | UseMethods
  | UseInform string string
  | UseListener bool
  | UseEvent string "json list"

definition glue_use :: "(string \<Rightarrow> string) \<Rightarrow> bool \<Rightarrow> glue_use \<Rightarrow> webglue \<Rightarrow> webglue" where
  "glue_use ring channel u g = (case u of
     UseCall caller m args \<Rightarrow> snd (web_callMethod ring channel JNull caller m args g)
   | UseMethods \<Rightarrow> snd (web_getMethods [] g)
   | UseInform m tok \<Rightarrow> snd (web_informModuleToken ring True True m tok g)
   | UseListener cb \<Rightarrow> web_setEventListener cb g
   | UseEvent e d \<Rightarrow> pageEvent e d g)"

definition presents :: "string \<Rightarrow> page_msg \<Rightarrow> bool" where
  "presents token m \<longleftrightarrow> (case m of PageCall _ t _ _ \<Rightarrow> t = token | PageInform t _ _ \<Rightarrow> t = token | _ \<Rightarrow> True)"

definition subscriptions_made :: "webglue \<Rightarrow> nat" where
  "subscriptions_made g = length (filter (\<lambda>m. m = PageOnEvent []) (page_log g))"

lemma use_step:
  assumes "wg_credential g = token" and "token \<noteq> []"
  shows "\<exists>ms. page_log (glue_use ring channel u g) = page_log g @ ms \<and> (\<forall>m \<in> set ms. presents token m)"
    and "wg_credential (glue_use ring channel u g) = token"
  using assms
  by (cases u; auto simp: glue_use_def web_callMethod_def awaitPageBlocking_def pageCallFor_def glue_authToken_def send_page_def
      web_getMethods_def web_informModuleToken_def web_setEventListener_def pageEvent_def presents_def Let_def)+

lemma subscribed_step:
  assumes "subscriptions_made g = (if wg_subscribed g then 1 else 0)"
  shows "subscriptions_made (glue_use ring channel u g) = (if wg_subscribed (glue_use ring channel u g) then 1 else 0)"
  using assms
  by (cases u) (auto simp: glue_use_def web_callMethod_def awaitPageBlocking_def pageCallFor_def send_page_def subscriptions_made_def
      web_getMethods_def web_informModuleToken_def web_setEventListener_def pageEvent_def Let_def)

text \<open>
  From the delivery of its credential on, whatever the glue is used for, every message it relays presents the
  module's own credential and none another's, and a page is subscribed to at most once.
\<close>

theorem relay_presents_own_credential:
  assumes "token \<noteq> []" and "wg_page g" and "subscriptions_made g = (if wg_subscribed g then 1 else 0)"
    and "g' = fold (glue_use ring channel) us (snd (deliverCredential accepted token g))"
  shows "(\<exists>ms. page_log g' = page_log g @ PageInform [] (wg_name g) token # ms \<and> (\<forall>m \<in> set ms. presents token m))
    \<and> subscriptions_made g' \<le> 1"
  unfolding assms(4)
proof (induction us rule: rev_induct)
  case Nil
  then show ?case using assms(2,3) by (simp add: deliverCredential_def send_page_def subscriptions_made_def)
next
  case (snoc u us)
  let ?g = "fold (glue_use ring channel) us (snd (deliverCredential accepted token g))"
  have "wg_credential ?g = token \<and> subscriptions_made ?g = (if wg_subscribed ?g then 1 else 0)"
  proof (induction us rule: rev_induct)
    case Nil
    then show ?case using assms(2,3) by (simp add: deliverCredential_def send_page_def subscriptions_made_def)
  next
    case (snoc u us)
    then show ?case using use_step(2) [OF _ assms(1)] subscribed_step by simp
  qed
  then have "wg_credential ?g = token" "subscriptions_made (glue_use ring channel u ?g) \<le> 1"
    using subscribed_step [of ?g ring channel u] by auto
  with use_step(1) [OF _ assms(1), of ?g ring channel u] snoc.IH show ?case by fastforce
qed

section \<open>Waiting on the main thread\<close>

text \<open>
  A \<open>Waiter\<close> is the heap record that the transport's callback and the waiting frame share. \<open>ws_stack\<close> are the frames
  in their nested loops, innermost first; the loop of frame \<open>k\<close> lives as long as \<open>k\<close> is on it. \<open>ws_quit\<close> are the
  loops with a quit posted, \<open>ws_stray\<close> quits posted to a loop that is gone, and \<open>ws_returned\<close> what the calls answered.
\<close>

record waiter =
  wt_loop :: "nat option"
  wt_result :: json
  wt_done :: bool

record wait_sys =
  ws_glue :: webglue
  ws_waiters :: "waiter list"
  ws_stack :: "nat list"
  ws_quit :: "nat list"
  ws_stray :: "nat list"
  ws_returned :: "(nat \<times> json) list"

definition waitOf :: "webglue \<Rightarrow> wait_sys" where
  "waitOf g = \<lparr>ws_glue = g, ws_waiters = [], ws_stack = [], ws_quit = [], ws_stray = [], ws_returned = []\<rparr>"

definition post_quit :: "nat \<Rightarrow> wait_sys \<Rightarrow> wait_sys" where
  "post_quit k s = (if k \<in> set (ws_stack s) then s\<lparr>ws_quit := ws_quit s @ [k]\<rparr> else s\<lparr>ws_stray := ws_stray s @ [k]\<rparr>)"

text \<open>The callback of the asynchronous call: it wakes the loop only while the frame has not cleared it.\<close>

definition onAnswer :: "nat \<Rightarrow> json \<Rightarrow> wait_sys \<Rightarrow> wait_sys" where
  "onAnswer k v s =
     (let w = ws_waiters s ! k; s = s\<lparr>ws_waiters := (ws_waiters s)[k := w\<lparr>wt_result := v, wt_done := True\<rparr>]\<rparr> in
      case wt_loop w of None \<Rightarrow> s | Some l \<Rightarrow> post_quit l s)"

definition enterWait :: "(string \<Rightarrow> string) \<Rightarrow> bool \<Rightarrow> string \<Rightarrow> string \<Rightarrow> json list \<Rightarrow> wait_sys \<Rightarrow> wait_sys" where
  "enterWait ring channel caller m args s =
     (let k = length (ws_waiters s) in
      s\<lparr>ws_waiters := ws_waiters s @ [\<lparr>wt_loop = Some k, wt_result = JNull, wt_done = False\<rparr>], ws_stack := k # ws_stack s,
        ws_glue := beginWait ring channel k caller m args (ws_glue s)\<rparr>)"

text \<open>The frame clears the loop, takes the result and leaves.\<close>

definition leaveWait :: "nat \<Rightarrow> wait_sys \<Rightarrow> wait_sys" where
  "leaveWait k s =
     (let w = ws_waiters s ! k in
      s\<lparr>ws_waiters := (ws_waiters s)[k := w\<lparr>wt_loop := None\<rparr>], ws_stack := tl (ws_stack s),
        ws_returned := ws_returned s @ [(k, wt_result w)], ws_glue := endWait k (ws_glue s)\<rparr>)"

inductive wait_step :: "(string \<Rightarrow> string) \<Rightarrow> wait_sys \<Rightarrow> wait_sys \<Rightarrow> bool" for ring where
  Enter: "wait_step ring s (enterWait ring channel caller m args s)"
    if "wg_page (ws_glue s)"
| Answer: "wait_step ring s (onAnswer k v s)"
    if "k < length (ws_waiters s)" "\<not> wt_done (ws_waiters s ! k)"
| Deadline: "wait_step ring s (post_quit k s)"
    if "k \<in> set (ws_stack s)"
| Abandon: "wait_step ring s (fold post_quit (abandonPendingCalls (ws_glue s)) s)"
| Leave: "wait_step ring s (leaveWait k s)"
    if "ws_stack s = k # ks" "wt_done (ws_waiters s ! k) \<or> k \<in> set (ws_quit s)"

inductive wait_reach :: "(string \<Rightarrow> string) \<Rightarrow> wait_sys \<Rightarrow> wait_sys \<Rightarrow> bool" for ring s0 where
  Start: "wait_reach ring s0 s0"
| Step: "wait_reach ring s0 s \<Longrightarrow> wait_step ring s s' \<Longrightarrow> wait_reach ring s0 s'"

definition wait_inv :: "wait_sys \<Rightarrow> bool" where
  "wait_inv s \<longleftrightarrow> ws_stray s = [] \<and> distinct (ws_stack s) \<and> set (ws_stack s) \<subseteq> {..<length (ws_waiters s)}
     \<and> (\<forall>k < length (ws_waiters s). wt_loop (ws_waiters s ! k) = (if k \<in> set (ws_stack s) then Some k else None))
     \<and> wg_waits (ws_glue s) = rev (ws_stack s) \<and> wg_awaiting (ws_glue s) = length (ws_stack s)
     \<and> (\<forall>k < length (ws_waiters s). \<not> wt_done (ws_waiters s ! k) \<longrightarrow> wt_result (ws_waiters s ! k) = JNull)"

lemma post_quits:
  "set ks \<subseteq> set (ws_stack s) \<Longrightarrow> fold post_quit ks s = s\<lparr>ws_quit := ws_quit s @ ks\<rparr>"
  by (induction ks arbitrary: s) (simp_all add: post_quit_def)

lemma wait_inv_step: "wait_step ring s s' \<Longrightarrow> wait_inv s \<Longrightarrow> wait_inv s'"
proof (induction rule: wait_step.induct)
  case (Enter s channel caller m args)
  then show ?case
    by (auto simp: wait_inv_def enterWait_def beginWait_def send_page_def Let_def nth_append less_Suc_eq)
next
  case (Answer k s v)
  then show ?case by (auto simp: wait_inv_def onAnswer_def post_quit_def Let_def nth_list_update split: option.splits)
next
  case (Deadline k s)
  then show ?case by (simp add: wait_inv_def post_quit_def)
next
  case (Abandon s)
  then show ?case by (simp add: wait_inv_def abandonPendingCalls_def post_quits)
next
  case (Leave s k ks)
  then have "remove1 k (rev ks @ [k]) = rev ks" by (auto simp: wait_inv_def remove1_append)
  with Leave show ?case by (auto simp: wait_inv_def leaveWait_def endWait_def Let_def nth_list_update)
qed

lemma wait_inv_reach: "wait_reach ring (waitOf g) s \<Longrightarrow> wg_waits g = [] \<Longrightarrow> wg_awaiting g = 0 \<Longrightarrow> wait_inv s"
proof (induction rule: wait_reach.induct)
  case Start
  then show ?case by (simp add: wait_inv_def waitOf_def)
qed (rule wait_inv_step)

text \<open>What the answer to call \<open>k\<close> is so far.\<close>

definition answer_of :: "wait_sys \<Rightarrow> nat \<Rightarrow> json" where
  "answer_of s k = (if wt_done (ws_waiters s ! k) then wt_result (ws_waiters s ! k) else JNull)"

lemma returned_step:
  assumes "wait_step ring s s'" and "wait_inv s" and "\<forall>(k, v) \<in> set (ws_returned s). v = JNull \<or> v = answer_of s k \<and> k < length (ws_waiters s)"
  shows "\<forall>(k, v) \<in> set (ws_returned s'). v = JNull \<or> v = answer_of s' k \<and> k < length (ws_waiters s')"
  using assms
proof (induction rule: wait_step.induct)
  case (Enter s channel caller m args)
  then show ?case by (force simp: enterWait_def answer_of_def Let_def nth_append)
next
  case (Answer k s v)
  then have "ws_returned (onAnswer k v s) = ws_returned s" "length (ws_waiters (onAnswer k v s)) = length (ws_waiters s)"
    "answer_of (onAnswer k v s) j = (if j = k then v else answer_of s j)" for j
    by (auto simp: onAnswer_def post_quit_def answer_of_def Let_def nth_list_update split: option.split)
  moreover have "answer_of s k = JNull" using Answer by (simp add: answer_of_def)
  ultimately show ?case using Answer.prems(2) by auto
next
  case (Deadline k s)
  have same: "ws_waiters (post_quit k s) = ws_waiters s" "ws_returned (post_quit k s) = ws_returned s" by (simp_all add: post_quit_def)
  from Deadline show ?case unfolding answer_of_def same by blast
next
  case (Abandon s)
  let ?a = "fold post_quit (abandonPendingCalls (ws_glue s)) s"
  have same: "ws_waiters ?a = ws_waiters s" "ws_returned ?a = ws_returned s"
    using Abandon.prems(1) by (simp_all add: wait_inv_def abandonPendingCalls_def post_quits)
  from Abandon show ?case unfolding answer_of_def same by blast
next
  case (Leave s k ks)
  then have k: "k < length (ws_waiters s)" by (auto simp: wait_inv_def)
  then have a: "answer_of (leaveWait k s) j = answer_of s j" for j
    by (simp add: leaveWait_def answer_of_def Let_def nth_list_update)
  have "wt_result (ws_waiters s ! k) = answer_of s k"
    using Leave.prems(1) k by (simp add: wait_inv_def answer_of_def)
  with Leave.prems(2) k show ?case by (auto simp: a) (auto simp: leaveWait_def Let_def)
qed

text \<open>
  C26. However late an answer comes, it wakes no loop that is gone, and a call that ended without an answer returned the
  invalid value; the glue says it is awaiting its page exactly while a nested loop is on the stack.
\<close>

theorem late_answer_harmless:
  assumes "wait_reach ring (waitOf g) s" and "wg_waits g = []" and "wg_awaiting g = 0"
  shows "ws_stray s = [] \<and> (isAwaitingPage (ws_glue s) \<longleftrightarrow> ws_stack s \<noteq> [])
    \<and> (\<forall>k v. (k, v) \<in> set (ws_returned s) \<longrightarrow> v = JNull \<or> wt_done (ws_waiters s ! k) \<and> v = wt_result (ws_waiters s ! k))"
proof -
  have inv: "wait_inv s" by (rule wait_inv_reach [OF assms])
  have "\<forall>(k, v) \<in> set (ws_returned s). v = JNull \<or> v = answer_of s k \<and> k < length (ws_waiters s)"
    using assms(1)
  proof (induction rule: wait_reach.induct)
    case Start
    then show ?case by (simp add: waitOf_def)
  next
    case (Step s s')
    then show ?case using returned_step wait_inv_reach assms(2,3) by blast
  qed
  with inv show ?thesis by (auto simp: wait_inv_def isAwaitingPage_def answer_of_def split: if_splits)
qed

definition unwound :: "wait_sys \<Rightarrow> wait_sys" where
  "unwound s = fold leaveWait (ws_stack s) s"

lemma unwind_all:
  assumes "wait_inv s" and "set (ws_stack s) \<subseteq> set (ws_quit s)"
  shows "wait_reach ring s (unwound s) \<and> ws_stack (unwound s) = [] \<and> \<not> isAwaitingPage (ws_glue (unwound s))"
  using assms
proof (induction "ws_stack s" arbitrary: s)
  case Nil
  then show ?case by (simp add: unwound_def wait_reach.Start isAwaitingPage_def wait_inv_def)
next
  case (Cons k ks)
  note top = Cons.hyps(2) [symmetric]
  then have "k \<in> set (ws_quit s)" using Cons.prems(2) by auto
  with top have step: "wait_step ring s (leaveWait k s)" by (blast intro: wait_step.Leave)
  have st: "ws_stack (leaveWait k s) = ks" "ws_quit (leaveWait k s) = ws_quit s"
    using Cons.hyps(2) [symmetric] by (simp_all add: leaveWait_def Let_def)
  have "set (ws_stack (leaveWait k s)) \<subseteq> set (ws_quit (leaveWait k s))" using Cons.prems(2) unfolding st top by simp
  note ih = Cons.hyps(1) [OF st(1) [symmetric] wait_inv_step [OF step Cons.prems(1)] this]
  have u: "unwound s = unwound (leaveWait k s)" using Cons.hyps(2) [symmetric] st by (simp add: unwound_def)
  have "wait_reach ring s s'" if "wait_reach ring (leaveWait k s) s'" for s'
    using that by (induction rule: wait_reach.induct) (blast intro: wait_reach.intros step)+
  with ih show ?case by (simp add: u)
qed

text \<open>
  Once the waits of a dead page are abandoned, every frame can leave at once, innermost first, with no answer and no
  deadline: as many steps as there are frames empty the stack.
\<close>

theorem abandon_unwinds:
  assumes "wait_reach ring (waitOf g) s" and "wg_waits g = []" and "wg_awaiting g = 0"
  shows "\<exists>s'. wait_reach ring (fold post_quit (abandonPendingCalls (ws_glue s)) s) s' \<and> ws_stack s' = [] \<and> \<not> isAwaitingPage (ws_glue s')"
proof -
  let ?a = "fold post_quit (abandonPendingCalls (ws_glue s)) s"
  have inv: "wait_inv s" by (rule wait_inv_reach [OF assms])
  then have "set (ws_stack ?a) \<subseteq> set (ws_quit ?a)" by (auto simp: wait_inv_def abandonPendingCalls_def post_quits)
  from unwind_all [OF wait_inv_step [OF Abandon inv] this] show ?thesis by blast
qed

definition waitingGlue :: webglue where
  "waitingGlue = newWebGlue ''p'' ''1'' True"

definition waitingTwice :: wait_sys where
  "waitingTwice = enterWait (\<lambda>_. []) True [] ''g'' [] (enterWait (\<lambda>_. []) True ''c'' ''f'' [] (waitOf waitingGlue))"

lemma waiting_twice: "wait_reach (\<lambda>_. []) (waitOf waitingGlue) waitingTwice"
proof -
  have "wg_page (ws_glue (waitOf waitingGlue))" "wg_page (ws_glue (enterWait (\<lambda>_. []) True ''c'' ''f'' [] (waitOf waitingGlue)))" by code_simp+
  then show ?thesis unfolding waitingTwice_def
    by (rule wait_reach.Step [OF wait_reach.Step [OF wait_reach.Start wait_step.Enter] wait_step.Enter])
qed

theorem late_answer_harmless_witness:
  "ws_stray waitingTwice = [] \<and> isAwaitingPage (ws_glue waitingTwice)"
proof -
  have "ws_stack waitingTwice \<noteq> []" by code_simp
  then show ?thesis using late_answer_harmless [OF waiting_twice] by (simp add: waitingGlue_def newWebGlue_def)
qed

theorem abandon_unwinds_witness:
  "\<exists>s'. wait_reach (\<lambda>_. []) (fold post_quit (abandonPendingCalls (ws_glue waitingTwice)) waitingTwice) s' \<and> ws_stack s' = []
     \<and> \<not> isAwaitingPage (ws_glue s')"
  by (rule abandon_unwinds [OF waiting_twice]) (simp_all add: waitingGlue_def newWebGlue_def)

theorem relay_presents_own_credential_witness:
  "\<exists>ms. page_log (fold (glue_use (\<lambda>_. []) True) [UseCall ''c'' ''f'' [], UseListener True] (snd (deliverCredential True ''t'' waitingGlue)))
     = PageInform [] ''p'' ''t'' # ms \<and> ms = [PageCall (Some ''c'') ''t'' ''f'' [], PageOnEvent []]"
proof -
  have "wg_page waitingGlue" "subscriptions_made waitingGlue = (if wg_subscribed waitingGlue then 1 else 0)" by code_simp+
  from relay_presents_own_credential [OF _ this refl, of "''t''" "\<lambda>_. []" True "[UseCall ''c'' ''f'' [], UseListener True]" True]
  obtain ms where "page_log (fold (glue_use (\<lambda>_. []) True) [UseCall ''c'' ''f'' [], UseListener True] (snd (deliverCredential True ''t'' waitingGlue)))
     = page_log waitingGlue @ PageInform [] (wg_name waitingGlue) ''t'' # ms" by auto
  moreover have "page_log (fold (glue_use (\<lambda>_. []) True) [UseCall ''c'' ''f'' [], UseListener True] (snd (deliverCredential True ''t'' waitingGlue)))
     = [PageInform [] ''p'' ''t'', PageCall (Some ''c'') ''t'' ''f'' [], PageOnEvent []]"
    by code_simp
  ultimately show ?thesis by (simp add: waitingGlue_def newWebGlue_def)
qed

end
