(* ===== verification/WebContainer.thy ===== *)
theory WebContainer
  imports LoaderRegistry WebCallRouter WebModuleGlue
begin

text \<open>
  \<open>src/logos_core/web_container.{h,cpp}\<close>, \<open>web_module_view.{h,cpp}\<close>: the container that runs a module in a
  webview. What the backend, the transport, the token store and the pages answer is the record \<open>web_env\<close>; a
  view and a \<open>LogosAPI\<close> are numbers, \<open>wb_openViews\<close> and \<open>wb_liveApis\<close> those that exist. The router and the glue
  of an instance are those of \<open>WebCallRouter\<close> and \<open>WebModuleGlue\<close>. The nested waits of a page's calls are steps of
  their own, \<open>beginPageCall\<close> and \<open>endPageCall\<close>; a timer or a queued call is a turn of the event loop
  still to come. Without an application there is no nested loop to wait in, so the sweep that the code
  runs again at once finds nothing. Routes the host injected are taken to be of the container's own kind; they stay the
  host's, so a teardown withdraws a page's subscriptions from them and does not destroy them.
\<close>

section \<open>State\<close>

record ViewRequest =
  vr_moduleName :: string
  vr_entryPath :: string
  vr_moduleDir :: string
  vr_storagePath :: string

record OpenedView =
  ov_channel :: bool
  ov_pid :: "int option"

record web_env =
  we_open :: "ViewRequest \<Rightarrow> OpenedView option"
  we_forIdentity :: "string \<Rightarrow> string \<Rightarrow> bool"
  we_connect :: "string \<Rightarrow> bool"
  we_requestObject :: "string \<Rightarrow> bool"
  we_registerObject :: "string \<Rightarrow> bool"
  we_adoptCredentialFor :: "string \<Rightarrow> string \<Rightarrow> bool"
  we_credentialTaken :: "string \<Rightarrow> string \<Rightarrow> bool"
  we_rounds :: "string \<Rightarrow> nat \<Rightarrow> (bool \<times> bool) list"
  we_clients :: client_env
  we_app :: bool
  we_hash :: hash_iter

record WebInstance =
  wi_name :: string
  wi_view :: nat
  wi_router :: "router option"
  wi_ownRoutes :: bool
  wi_connection :: bool
  wi_glue :: "webglue option"
  wi_api :: "nat option"
  wi_pid :: int

text \<open>What a teardown does, in order; routes of the instance's own are destroyed with the subscriptions they still hold.\<close>

datatype teardown_step =
    StopRouter
  | DeleteApi nat
  | DropGlue webglue
  | StopPeer
  | DropRoutes "((string \<times> string) \<times> nat) list"
  | ClosePage nat

record web =
  wb_factory :: bool
  wb_hostApi :: bool
  wb_hostRoutes :: bool
  wb_modules :: "WebInstance umap"
  wb_retired :: "WebInstance list"
  wb_sweeps :: nat
  wb_posted :: "string list"
  wb_liveApis :: "nat list"
  wb_nextApi :: nat
  wb_openViews :: "nat list"
  wb_nextView :: nat
  wb_torn :: "(string \<times> teardown_step list) list"
  wb_quits :: "(nat \<times> nat) list"

definition emptyWeb :: web where
  "emptyWeb = \<lparr>wb_factory = False, wb_hostApi = False, wb_hostRoutes = False, wb_modules = [], wb_retired = [], wb_sweeps = 0,
     wb_posted = [], wb_liveApis = [], wb_nextApi = 0, wb_openViews = [], wb_nextView = 0, wb_torn = [], wb_quits = []\<rparr>"

definition kNoPid :: int where "kNoPid = -1"
definition kPageReadyTimeoutMs :: nat where "kPageReadyTimeoutMs = 120000"
definition kWebDefaultVersion :: string where "kWebDefaultVersion = ''1.0.0''"

definition kNeverPublished :: string where
  "kNeverPublished = ''the page never published a module: it answered the contract query with nothing before the deadline''"

definition setWebModuleViewFactory :: "bool \<Rightarrow> web \<Rightarrow> web" where
  "setWebModuleViewFactory f s = s\<lparr>wb_factory := f\<rparr>"

definition web_setHostApi :: "bool \<Rightarrow> web \<Rightarrow> web" where
  "web_setHostApi api s = s\<lparr>wb_hostApi := api\<rparr>"

definition web_setHostRoutes :: "bool \<Rightarrow> web \<Rightarrow> web" where
  "web_setHostRoutes r s = s\<lparr>wb_hostRoutes := r\<rparr>"

definition web_canHandle :: "ModuleDescriptor \<Rightarrow> bool" where
  "web_canHandle desc \<longleftrightarrow> d_format desc = ''web''"

definition awaiting :: "WebInstance \<Rightarrow> bool" where
  "awaiting inst \<longleftrightarrow> (case wi_glue inst of None \<Rightarrow> False | Some g \<Rightarrow> isAwaitingPage g)"

section \<open>Teardown\<close>

definition teardown_steps :: "web_env \<Rightarrow> WebInstance \<Rightarrow> teardown_step list" where
  "teardown_steps E inst =
     (case wi_router inst of None \<Rightarrow> [] | Some _ \<Rightarrow> [StopRouter])
     @ (case wi_api inst of None \<Rightarrow> [] | Some a \<Rightarrow> [DeleteApi a])
     @ (case wi_glue inst of None \<Rightarrow> [] | Some g \<Rightarrow> [DropGlue (destroyWebGlue g)])
     @ (if wi_connection inst then [StopPeer] else [])
     @ (case wi_router inst of None \<Rightarrow> []
        | Some r \<Rightarrow>
            if wi_ownRoutes inst then [DropRoutes (m_subscriptions (wr_routes (stop_router (we_clients E) r)))] else [])
     @ [ClosePage (wi_view inst)]"

definition tearDown :: "web_env \<Rightarrow> WebInstance \<Rightarrow> web \<Rightarrow> web" where
  "tearDown E inst s = s\<lparr>
     wb_liveApis := (case wi_api inst of None \<Rightarrow> wb_liveApis s | Some a \<Rightarrow> removeAll a (wb_liveApis s)),
     wb_openViews := removeAll (wi_view inst) (wb_openViews s),
     wb_torn := wb_torn s @ [(wi_name inst, teardown_steps E inst)]\<rparr>"

text \<open>Parked modules nobody waits for are destroyed; for the rest a further turn is asked for.\<close>

definition sweepReady :: "web_env \<Rightarrow> web \<Rightarrow> web" where
  "sweepReady E s = fold (tearDown E) (filter (\<lambda>i. \<not> awaiting i) (wb_retired s)) (s\<lparr>wb_retired := filter awaiting (wb_retired s)\<rparr>)"

definition armSweep :: "web_env \<Rightarrow> web \<Rightarrow> web" where
  "armSweep E s = (if \<not> we_app E then sweepReady E s else s\<lparr>wb_sweeps := wb_sweeps s + 1\<rparr>)"

definition sweepRetired :: "web_env \<Rightarrow> web \<Rightarrow> web" where
  "sweepRetired E s = (let s = sweepReady E s in if wb_retired s \<noteq> [] then armSweep E s else s)"

definition deferTearDown :: "web_env \<Rightarrow> WebInstance \<Rightarrow> web \<Rightarrow> web" where
  "deferTearDown E inst s = armSweep E (s\<lparr>wb_retired := wb_retired s @ [inst]\<rparr>)"

definition tearDownAllRetired :: "web_env \<Rightarrow> web \<Rightarrow> web" where
  "tearDownAllRetired E s = fold (tearDown E) (wb_retired s) (s\<lparr>wb_retired := []\<rparr>)"

text \<open>A turn of the event loop with a sweep due.\<close>

definition serveSweep :: "web_env \<Rightarrow> web \<Rightarrow> web" where
  "serveSweep E s = (if wb_sweeps s = 0 then s else sweepRetired E (s\<lparr>wb_sweeps := wb_sweeps s - 1\<rparr>))"

section \<open>Retirement\<close>

datatype Retirement = Unloaded | PageLost

definition takeInstance :: "string \<Rightarrow> web \<Rightarrow> WebInstance option \<times> web" where
  "takeInstance name s =
     (case map_of (wb_modules s) name of
        None \<Rightarrow> (None, s)
      | Some inst \<Rightarrow> (Some inst, s\<lparr>wb_modules := AList.delete name (wb_modules s)\<rparr>))"

text \<open>The nested loops of the page's calls, by view, that are told to quit.\<close>

definition abandonCalls :: "WebInstance \<Rightarrow> web \<Rightarrow> web" where
  "abandonCalls inst s =
     s\<lparr>wb_quits := wb_quits s @ (case wi_glue inst of None \<Rightarrow> [] | Some g \<Rightarrow> map (Pair (wi_view inst)) (abandonPendingCalls g))\<rparr>"

definition retire :: "web_env \<Rightarrow> string \<Rightarrow> Retirement \<Rightarrow> web \<Rightarrow> string list \<times> web" where
  "retire E name why s =
     (case takeInstance name s of
        (None, s) \<Rightarrow> ([], s)
      | (Some inst, s) \<Rightarrow>
          ([name],
           if why = PageLost
           then (let s = abandonCalls inst s in if awaiting inst then deferTearDown E inst s else tearDown E inst s)
           else tearDown E inst s))"

definition announceTermination :: "web_env \<Rightarrow> bool \<Rightarrow> string \<Rightarrow> web \<Rightarrow> string list \<times> web" where
  "announceTermination E main name s =
     (if main then retire E name PageLost s else ([], s\<lparr>wb_posted := wb_posted s @ [name]\<rparr>))"

definition servePosted :: "web_env \<Rightarrow> web \<Rightarrow> string list \<times> web" where
  "servePosted E s = (case wb_posted s of [] \<Rightarrow> ([], s) | n # ns \<Rightarrow> retire E n PageLost (s\<lparr>wb_posted := ns\<rparr>))"

definition web_terminate :: "web_env \<Rightarrow> string \<Rightarrow> web \<Rightarrow> string list \<times> web" where
  "web_terminate E name s = (let (ds, s) = retire E name Unloaded s in (ds, sweepRetired E s))"

fun web_terminate_each :: "web_env \<Rightarrow> string list \<Rightarrow> web \<Rightarrow> string list \<times> web" where
  "web_terminate_each E [] s = ([], s)"
| "web_terminate_each E (n # ns) s =
     (let (ds, s1) = web_terminate E n s; (ds', s2) = web_terminate_each E ns s1 in (ds @ ds', s2))"

definition web_terminateAll :: "web_env \<Rightarrow> web \<Rightarrow> string list \<times> web" where
  "web_terminateAll E s = (let (ds, s) = web_terminate_each E (we_hash E (keys (wb_modules s))) s in (ds, sweepRetired E s))"

definition destroyWebContainer :: "web_env \<Rightarrow> web \<Rightarrow> string list \<times> web" where
  "destroyWebContainer E s = (let (ds, s) = web_terminateAll E s in (ds, tearDownAllRetired E s))"

section \<open>Launch\<close>

definition webModuleVersion :: "ModuleDescriptor \<Rightarrow> exn + string" where
  "webModuleVersion desc =
     (case (if is_object (d_rawMetadata desc) then jvalue_string (d_rawMetadata desc) ''version'' [] else Inr []) of
        Inl e \<Rightarrow> Inl e
      | Inr v \<Rightarrow> Inr (if v = [] then kWebDefaultVersion else v))"

definition viewRequest :: "ModuleDescriptor \<Rightarrow> ViewRequest" where
  "viewRequest desc = \<lparr>vr_moduleName = d_name desc, vr_entryPath = d_path desc,
     vr_moduleDir = (if d_path desc = [] then [] else path_parent (d_path desc)), vr_storagePath = instancePersistencePath desc\<rparr>"

text \<open>From the connection on: the page's handle, its publication, and the entry in the table.\<close>

definition openConversation ::
  "web_env \<Rightarrow> ModuleDescriptor \<Rightarrow> string \<Rightarrow> WebInstance \<Rightarrow> web \<Rightarrow> launch_result \<times> string list \<times> web" where
  "openConversation E desc ver inst s =
     (let name = d_name desc in
      if \<not> we_connect E name then (NotLaunched, [], tearDown E inst s)
      else let inst = inst\<lparr>wi_connection := True\<rparr> in
      if \<not> we_requestObject E name then (NotLaunched, [], tearDown E inst s)
      else let g = newWebGlue name ver True; inst = inst\<lparr>wi_glue := Some g\<rparr> in
      if wi_api inst \<noteq> None \<and> \<not> we_registerObject E name then (NotLaunched, [], tearDown E inst s)
      else let inst = (if wi_api inst \<noteq> None then inst\<lparr>wi_glue := Some (web_setEventListener True g)\<rparr> else inst) in
        (Launched \<lparr>h_name = name, h_pid = wi_pid inst, h_endpoint = ''web://'' @ name\<rparr>, [],
         s\<lparr>wb_modules := AList.update name inst (wb_modules s)\<rparr>))"

text \<open>The module's identity and what it may reach.\<close>

definition identify ::
  "web_env \<Rightarrow> ModuleDescriptor \<Rightarrow> string \<Rightarrow> WebInstance \<Rightarrow> web \<Rightarrow> launch_result \<times> string list \<times> web" where
  "identify E desc ver inst s =
     (let name = d_name desc;
          router = (\<lambda>has. newRouter name has (newRoutes has name)) in
      if \<not> wb_hostApi s
      then openConversation E desc ver (inst\<lparr>wi_router := Some (router (wb_hostRoutes s))\<rparr>) s
      else if \<not> we_forIdentity E name (transportSetJson desc) then (NotLaunched, [], tearDown E inst s)
      else let api = wb_nextApi s in
        openConversation E desc ver (inst\<lparr>wi_api := Some api, wi_router := Some (router True), wi_ownRoutes := \<not> wb_hostRoutes s\<rparr>)
          (s\<lparr>wb_liveApis := wb_liveApis s @ [api], wb_nextApi := Suc api\<rparr>))"

definition web_launch ::
  "web_env \<Rightarrow> ModuleDescriptor \<Rightarrow> string \<Rightarrow> string list \<Rightarrow> web \<Rightarrow> launch_result \<times> string list \<times> web" where
  "web_launch E desc hostBinary args s =
     (let s = sweepRetired E s in
      if \<not> wb_factory s then (NotLaunched, [], s)
      else if d_name desc \<in> set (keys (wb_modules s)) then (NotLaunched, [], s)
      else case we_open E (viewRequest desc) of
        None \<Rightarrow> (NotLaunched, [], s)
      | Some v \<Rightarrow>
          if \<not> ov_channel v then (NotLaunched, [], s)
          else (case webModuleVersion desc of
              Inl e \<Rightarrow> (LaunchThrew e, [], s)
            | Inr ver \<Rightarrow>
                (let view = wb_nextView s;
                     inst = \<lparr>wi_name = d_name desc, wi_view = view, wi_router = None, wi_ownRoutes = False, wi_connection = False, wi_glue = None,
                       wi_api = None, wi_pid = (case ov_pid v of None \<Rightarrow> kNoPid | Some p \<Rightarrow> p)\<rparr>
                 in identify E desc ver inst (s\<lparr>wb_openViews := wb_openViews s @ [view], wb_nextView := Suc view\<rparr>))))"

section \<open>The other operations\<close>

definition on_glue :: "string \<Rightarrow> (webglue \<Rightarrow> webglue) \<Rightarrow> web \<Rightarrow> web" where
  "on_glue name f s = s\<lparr>wb_modules := umap_adjust name (\<lambda>i. i\<lparr>wi_glue := map_option f (wi_glue i)\<rparr>) (wb_modules s)\<rparr>"

definition glueFor :: "string \<Rightarrow> web \<Rightarrow> webglue option" where
  "glueFor name s = (case map_of (wb_modules s) name of None \<Rightarrow> None | Some i \<Rightarrow> wi_glue i)"

definition web_sendToken :: "web_env \<Rightarrow> string \<Rightarrow> string \<Rightarrow> web \<Rightarrow> bool \<times> string list \<times> web" where
  "web_sendToken E name token s =
     (case map_of (wb_modules s) name of
        None \<Rightarrow> (False, [], s)
      | Some inst \<Rightarrow>
          if wi_api inst \<noteq> None \<and> \<not> we_adoptCredentialFor E name token then (False, [], s)
          else (case wi_glue inst of
              None \<Rightarrow> (False, [], s)
            | Some g \<Rightarrow> (fst (deliverCredential (we_credentialTaken E name token) token g), [],
                on_glue name (\<lambda>g. snd (deliverCredential (we_credentialTaken E name token) token g)) s)))"

text \<open>
  One element of \<open>rounds\<close> per probe before the deadline: whether the page died while it ran, and whether it
  was serving.
\<close>

fun await_rounds :: "web_env \<Rightarrow> string \<Rightarrow> (bool \<times> bool) list \<Rightarrow> web \<Rightarrow> LoadOutcome \<times> string list \<times> web" where
  "await_rounds E name [] s = (\<lparr>verdict = VerdictFailed, lo_reason = kNeverPublished\<rparr>, [], s)"
| "await_rounds E name ((dies, serving) # rs) s =
     (if name \<notin> set (keys (wb_modules s))
      then (\<lparr>verdict = VerdictFailed, lo_reason = ''the page went away while it was loading''\<rparr>, [], s)
      else let s = on_glue name (\<lambda>g. snd (pageIsServing [] g)) s;
          (ds, s) = (if dies then retire E name PageLost s else ([], s)) in
        if serving then (\<lparr>verdict = VerdictLoaded, lo_reason = []\<rparr>, ds, s)
        else let (outcome, ds', s) = await_rounds E name rs s in (outcome, ds @ ds', s))"

definition web_awaitLoad :: "web_env \<Rightarrow> string \<Rightarrow> nat \<Rightarrow> web \<Rightarrow> LoadOutcome \<times> string list \<times> web" where
  "web_awaitLoad E name timeout s =
     (if name \<notin> set (keys (wb_modules s)) then (\<lparr>verdict = VerdictFailed, lo_reason = ''the web module is not running''\<rparr>, [], s)
      else await_rounds E name (we_rounds E name (max timeout kPageReadyTimeoutMs)) s)"

definition web_hasModule :: "string \<Rightarrow> web \<Rightarrow> bool" where
  "web_hasModule name s \<longleftrightarrow> name \<in> set (keys (wb_modules s))"

definition web_pid :: "string \<Rightarrow> web \<Rightarrow> int option" where
  "web_pid name s = map_option wi_pid (map_of (wb_modules s) name)"

definition web_getAllPids :: "web \<Rightarrow> int umap" where
  "web_getAllPids s = map (\<lambda>(n, i). (n, wi_pid i)) (wb_modules s)"

definition webContainer :: "web_env \<Rightarrow> web ModuleContainer" where
  "webContainer E = \<lparr>c_id = ''web'', c_canHandle = web_canHandle, c_launch = web_launch E,
     c_sendToken = web_sendToken E, c_awaitLoad = web_awaitLoad E, c_terminate = web_terminate E,
     c_terminateAll = web_terminateAll E, c_hasModule = web_hasModule, c_pid = web_pid,
     c_getAllPids = web_getAllPids, c_usage = None\<rparr>"

text \<open>A call into the page on the main thread enters and leaves its nested loop, wherever the instance is by then.\<close>

definition on_view :: "nat \<Rightarrow> (webglue \<Rightarrow> webglue) \<Rightarrow> WebInstance \<Rightarrow> WebInstance" where
  "on_view v f i = (if wi_view i = v then i\<lparr>wi_glue := map_option f (wi_glue i)\<rparr> else i)"

definition page_call :: "nat \<Rightarrow> (webglue \<Rightarrow> webglue) \<Rightarrow> web \<Rightarrow> web" where
  "page_call v f s = s\<lparr>wb_modules := umap_map (\<lambda>_. on_view v f) (wb_modules s), wb_retired := map (on_view v f) (wb_retired s)\<rparr>"

definition beginPageCall :: "(string \<Rightarrow> string) \<Rightarrow> nat \<Rightarrow> nat \<Rightarrow> string \<Rightarrow> string \<Rightarrow> json list \<Rightarrow> web \<Rightarrow> web" where
  "beginPageCall ring v k caller m args s = page_call v (beginWait ring True k caller m args) s"

definition endPageCall :: "nat \<Rightarrow> nat \<Rightarrow> web \<Rightarrow> web" where
  "endPageCall v k s = page_call v (endWait k) s"

section \<open>The contract\<close>

text \<open>What a teardown and a sweep leave of the table.\<close>

lemma tearDown_modules [simp]:
  "wb_modules (tearDown E inst s) = wb_modules s" "wb_retired (tearDown E inst s) = wb_retired s"
  "wb_factory (tearDown E inst s) = wb_factory s" "wb_hostApi (tearDown E inst s) = wb_hostApi s"
  by (simp_all add: tearDown_def)

lemma abandon_modules [simp]:
  "wb_modules (abandonCalls inst s) = wb_modules s" "wb_retired (abandonCalls inst s) = wb_retired s"
  by (simp_all add: abandonCalls_def)

lemma tearDowns_modules [simp]:
  "wb_modules (fold (tearDown E) is s) = wb_modules s" "wb_retired (fold (tearDown E) is s) = wb_retired s"
  "wb_factory (fold (tearDown E) is s) = wb_factory s" "wb_hostApi (fold (tearDown E) is s) = wb_hostApi s"
  by (induction "is" arbitrary: s) simp_all

lemma sweep_modules [simp]:
  "wb_modules (sweepReady E s) = wb_modules s" "wb_modules (armSweep E s) = wb_modules s" "wb_modules (sweepRetired E s) = wb_modules s"
  "wb_modules (deferTearDown E inst s) = wb_modules s"
  "wb_factory (sweepRetired E s) = wb_factory s" "wb_hostApi (sweepRetired E s) = wb_hostApi s"
  by (simp_all add: sweepReady_def armSweep_def sweepRetired_def deferTearDown_def Let_def)

lemma web_has: "web_hasModule n s \<longleftrightarrow> map_of (wb_modules s) n \<noteq> None"
  by (simp add: web_hasModule_def map_of_None_keys del: set_map)

lemma retire_modules:
  assumes "retire E name why s = (ds, s')"
  shows "wb_modules s' = AList.delete name (wb_modules s)" and "ds = (if web_hasModule name s then [name] else [])"
proof -
  have "wb_modules s' = AList.delete name (wb_modules s) \<and> ds = (if web_hasModule name s then [name] else [])"
  proof (cases "map_of (wb_modules s) name")
    case None
    then have "AList.delete name (wb_modules s) = wb_modules s" by (intro delete_id) (simp add: map_of_eq_None_iff)
    with assms None show ?thesis by (simp add: retire_def takeInstance_def web_has)
  next
    case (Some inst)
    with assms show ?thesis by (auto simp: retire_def takeInstance_def web_has Let_def)
  qed
  then show "wb_modules s' = AList.delete name (wb_modules s)" "ds = (if web_hasModule name s then [name] else [])" by blast+
qed

lemma web_terminate_modules:
  assumes "web_terminate E name s = (ds, s')"
  shows "wb_modules s' = AList.delete name (wb_modules s)" and "ds = (if web_hasModule name s then [name] else [])"
  using assms retire_modules [of E name Unloaded s] by (auto simp: web_terminate_def split: prod.splits)

lemma web_each_modules:
  assumes "web_terminate_each E ns s = (ds, s')"
  shows "map_of (wb_modules s') n = (if n \<in> set ns then None else map_of (wb_modules s) n)"
    and "umap_ok (wb_modules s) \<Longrightarrow> umap_ok (wb_modules s')"
    and "distinct ns \<Longrightarrow> ds = filter (\<lambda>n. web_hasModule n s) ns"
proof -
  have "map_of (wb_modules s') n = (if n \<in> set ns then None else map_of (wb_modules s) n)
    \<and> (umap_ok (wb_modules s) \<longrightarrow> umap_ok (wb_modules s'))
    \<and> (distinct ns \<longrightarrow> ds = filter (\<lambda>n. web_hasModule n s) ns)"
    using assms
  proof (induction ns arbitrary: s ds)
    case (Cons x ns)
    obtain d1 s1 where t: "web_terminate E x s = (d1, s1)" by (cases "web_terminate E x s")
    obtain d2 where e: "web_terminate_each E ns s1 = (d2, s')" "ds = d1 @ d2"
      using Cons.prems t by (auto split: prod.splits)
    have "filter (\<lambda>n. web_hasModule n s1) ns = filter (\<lambda>n. web_hasModule n s) ns" if "x \<notin> set ns"
      using that by (intro filter_cong) (auto simp: web_has web_terminate_modules(1) [OF t])
    then show ?case
      using Cons.IH [OF e(1)] web_terminate_modules [OF t] e(2) by auto
  qed simp
  then show "map_of (wb_modules s') n = (if n \<in> set ns then None else map_of (wb_modules s) n)"
    "umap_ok (wb_modules s) \<Longrightarrow> umap_ok (wb_modules s')"
    "distinct ns \<Longrightarrow> ds = filter (\<lambda>n. web_hasModule n s) ns" by blast+
qed

lemma web_terminateAll_modules:
  assumes "hash_order (we_hash E)" and "umap_ok (wb_modules s)" and "web_terminateAll E s = (ds, s')"
  shows "map_of (wb_modules s') n = None" and "umap_ok (wb_modules s')" and "ds = we_hash E (keys (wb_modules s))"
proof -
  let ?ns = "we_hash E (keys (wb_modules s))"
  have d: "distinct (keys (wb_modules s))" using assms(2) by (simp add: umap_ok_def)
  have ns: "distinct ?ns" "set ?ns = set (keys (wb_modules s))" using hash_orderD [OF assms(1) d] by simp_all
  obtain s1 where t: "web_terminate_each E ?ns s = (ds, s1)" "s' = sweepRetired E s1"
    using assms(3) by (auto simp: web_terminateAll_def split: prod.splits)
  note m = web_each_modules [OF t(1)]
  show "map_of (wb_modules s') n = None"
    using m(1) [of n] ns(2) map_of_None_keys [of "wb_modules s" n] t(2) by (auto simp del: set_map split: if_splits)
  show "umap_ok (wb_modules s')" using m(2) assms(2) t(2) by simp
  have "filter (\<lambda>n. web_hasModule n s) ?ns = ?ns"
    using ns(2) by (intro filter_True) (auto simp: web_hasModule_def simp del: set_map)
  then show "ds = ?ns" using m(3) ns(1) by simp
qed

lemma on_glue_modules [simp]:
  "keys (wb_modules (on_glue name f s)) = keys (wb_modules s)" "web_hasModule n (on_glue name f s) = web_hasModule n s"
  "umap_ok (wb_modules (on_glue name f s)) = umap_ok (wb_modules s)"
  by (simp_all add: on_glue_def web_hasModule_def umap_ok_def del: set_map)

definition web_names_ok :: "web_env \<Rightarrow> web \<Rightarrow> bool" where
  "web_names_ok E s \<longleftrightarrow> hash_order (we_hash E) \<and> umap_ok (wb_modules s)"

lemma names_on_glue [simp]: "web_names_ok E (on_glue name f s) = web_names_ok E s"
  by (simp add: web_names_ok_def)

lemma retire_ends: "web_names_ok E s \<Longrightarrow> retire E name why s = (ds, s') \<Longrightarrow> ends_only (web_names_ok E) web_hasModule name s ds s'"
  using retire_modules [of E name why s ds s'] by (auto simp: web_names_ok_def ends_only_def web_has)

lemma rounds_end:
  "web_names_ok E s \<Longrightarrow> await_rounds E name rs s = (outcome, ds, s') \<Longrightarrow> ends_only (web_names_ok E) web_hasModule name s ds s'"
proof (induction rs arbitrary: s ds outcome)
  case (Cons r rs)
  obtain dies serving where r: "r = (dies, serving)" by (cases r)
  show ?case
  proof (cases "web_hasModule name s")
    case False
    with Cons.prems show ?thesis by (simp add: r web_hasModule_def del: set_map)
  next
    case True
    define s0 where "s0 = on_glue name (\<lambda>g. snd (pageIsServing [] g)) s"
    have s0: "web_names_ok E s0" "web_hasModule n s0 = web_hasModule n s" for n using Cons.prems(1) by (simp_all add: s0_def)
    obtain d1 s1 where d: "(if dies then retire E name PageLost s0 else ([], s0)) = (d1, s1)"
      by (cases "if dies then retire E name PageLost s0 else ([], s0)")
    have one: "ends_only (web_names_ok E) web_hasModule name s0 d1 s1"
      using d retire_ends [OF s0(1), of name PageLost] s0(1) by (auto split: if_splits)
    have here: "name \<in> set (keys (wb_modules s))" using True by (simp add: web_hasModule_def del: set_map)
    have step: "await_rounds E name (r # rs) s = (if serving then (\<lparr>verdict = VerdictLoaded, lo_reason = []\<rparr>, d1, s1)
        else let (outcome, ds', s) = await_rounds E name rs s1 in (outcome, d1 @ ds', s))"
      using here d [unfolded s0_def] by (simp add: r Let_def del: set_map split del: if_split)
    show ?thesis
    proof (cases serving)
      case True
      with Cons.prems(2) step one s0(2) show ?thesis by (simp add: ends_only_def)
    next
      case False
      obtain o2 d2 s2 where e: "await_rounds E name rs s1 = (o2, d2, s2)" by (metis prod.exhaust)
      with Cons.prems(2) step False have eq: "ds = d1 @ d2" "s' = s2" by simp_all
      have ok1: "web_names_ok E s1" using one by (simp add: ends_only_def)
      note two = Cons.IH [OF ok1 e [folded eq(2)]]
      have "d2 = []" if "d1 \<noteq> []"
      proof -
        have "\<not> web_hasModule name s1" using one that by (simp add: ends_only_def)
        with e show ?thesis by (cases rs) (auto simp: web_hasModule_def simp del: set_map)
      qed
      with one two s0(2) eq show ?thesis by (auto simp: ends_only_def)
    qed
  qed
qed simp

lemma conversation_frame:
  assumes "openConversation E desc ver inst s = (r, ds, s')"
  shows "ds = []" "n \<noteq> d_name desc \<Longrightarrow> map_of (wb_modules s') n = map_of (wb_modules s) n"
    "umap_ok (wb_modules s) \<Longrightarrow> umap_ok (wb_modules s')" "r = Launched out \<Longrightarrow> web_hasModule (d_name desc) s'"
    "(\<And>h. r \<noteq> Launched h) \<Longrightarrow> wb_modules s' = wb_modules s"
  using assms by (auto simp: openConversation_def Let_def web_has split: if_splits)

lemma identify_frame:
  assumes "identify E desc ver inst s = (r, ds, s')"
  shows "ds = []" "n \<noteq> d_name desc \<Longrightarrow> map_of (wb_modules s') n = map_of (wb_modules s) n"
    "umap_ok (wb_modules s) \<Longrightarrow> umap_ok (wb_modules s')" "r = Launched out \<Longrightarrow> web_hasModule (d_name desc) s'"
    "(\<And>h. r \<noteq> Launched h) \<Longrightarrow> wb_modules s' = wb_modules s"
  using assms conversation_frame [of E desc ver _ "s\<lparr>wb_liveApis := wb_liveApis s @ [wb_nextApi s], wb_nextApi := Suc (wb_nextApi s)\<rparr>" r ds s']
    conversation_frame [of E desc ver _ s r ds s']
  by (auto simp: identify_def Let_def split: if_splits)

lemma web_launch_frame:
  assumes "web_launch E desc host args s = (r, ds, s')"
  shows "ds = []" "n \<noteq> d_name desc \<Longrightarrow> map_of (wb_modules s') n = map_of (wb_modules s) n"
    "umap_ok (wb_modules s) \<Longrightarrow> umap_ok (wb_modules s')" "r = Launched out \<Longrightarrow> web_hasModule (d_name desc) s'"
    "(\<And>h. r \<noteq> Launched h) \<Longrightarrow> wb_modules s' = wb_modules s"
  using assms identify_frame [of E desc _ _ "(sweepRetired E s)\<lparr>wb_openViews := _, wb_nextView := _\<rparr>" r ds s']
  by (auto simp: web_launch_def Let_def split: if_splits option.splits sum.splits)

interpretation web: module_container "webContainer E" "web_names_ok E" for E
proof (unfold_locales, goal_cases)
  case (1 s desc host args r ds s')
  then show ?case
    using web_launch_frame [of E desc host args s r ds s'] by (auto simp: webContainer_def web_names_ok_def ends_only_def web_has)
next
  case (2 s desc host args h ds s')
  then show ?case
    using web_launch_frame [of E desc host args s "Launched h" ds s'] by (auto simp: webContainer_def web_names_ok_def starts_only_def web_has)
next
  case (3 s name token sent ds s')
  then show ?case by (auto simp: webContainer_def web_sendToken_def ends_only_def split: option.splits if_splits)
next
  case (4 s name timeout outcome ds s')
  then show ?case
    using rounds_end [of E s name _ outcome ds s'] by (auto simp: webContainer_def web_awaitLoad_def split: if_splits)
next
  case (5 s name ds s')
  then show ?case
    using web_terminate_modules [of E name s ds s'] by (auto simp: webContainer_def web_names_ok_def ends_only_def web_has)
next
  case (6 s name ds s')
  then show ?case using web_terminate_modules [of E name s ds s'] by (simp add: webContainer_def web_has)
next
  case (7 s ds s')
  then show ?case
    using web_terminateAll_modules [of E s ds s'] hash_orderD [of "we_hash E" "keys (wb_modules s)"]
    by (auto simp: webContainer_def web_names_ok_def web_hasModule_def umap_ok_def)
next
  case (8 s ds s' name)
  then show ?case
    using web_terminateAll_modules(1) [of E s ds s' name] by (simp add: webContainer_def web_names_ok_def web_has)
qed

end
