(* ===== verification/WebBooks.thy ===== *)
theory WebBooks
  imports WebContainer
begin

text \<open>
  What the Web container owes its host over any run: every page that is open and every \<open>LogosAPI\<close> that lives belongs
  to a module in the table or to one parked for a later sweep, one each, so that a launch that is refused
  at any point leaves nothing behind; and a page that dies inside a call waits for that call to unwind.
\<close>

section \<open>Books\<close>

fun apis_of :: "WebInstance list \<Rightarrow> nat list" where
  "apis_of [] = []"
| "apis_of (i # is) = (case wi_api i of None \<Rightarrow> apis_of is | Some a \<Rightarrow> a # apis_of is)"

definition books :: "WebInstance list \<Rightarrow> web \<Rightarrow> bool" where
  "books is s \<longleftrightarrow> distinct (map wi_view is) \<and> set (wb_openViews s) = set (map wi_view is) \<and> (\<forall>v \<in> set (wb_openViews s). v < wb_nextView s)
     \<and> distinct (apis_of is) \<and> set (wb_liveApis s) = set (apis_of is) \<and> (\<forall>a \<in> set (wb_liveApis s). a < wb_nextApi s)"

definition owned_instances :: "web \<Rightarrow> WebInstance list" where
  "owned_instances s = map snd (wb_modules s) @ wb_retired s"

definition web_inv :: "web \<Rightarrow> bool" where
  "web_inv s \<longleftrightarrow> umap_ok (wb_modules s) \<and> books (owned_instances s) s"

lemma apis_of_append [simp]: "apis_of (is @ js) = apis_of is @ apis_of js"
  by (induction "is") (simp_all split: option.split)

lemma mset_apis: "mset (apis_of is) = (\<Sum>i \<in># mset is. case wi_api i of None \<Rightarrow> {#} | Some a \<Rightarrow> {#a#})"
  by (induction "is") (simp_all split: option.split)

lemma books_perm:
  assumes "mset is = mset js"
  shows "books is s = books js s"
proof -
  have "mset (map wi_view is) = mset (map wi_view js)" "mset (apis_of is) = mset (apis_of js)"
    using assms by (simp_all add: mset_apis)
  then have "set (map wi_view is) = set (map wi_view js)" "distinct (map wi_view is) = distinct (map wi_view js)"
    "set (apis_of is) = set (apis_of js)" "distinct (apis_of is) = distinct (apis_of js)"
    using mset_eq_setD mset_eq_imp_distinct_iff by blast+
  then show ?thesis by (simp add: books_def del: set_map)
qed

lemma books_view: "map wi_view is = map wi_view js \<Longrightarrow> map wi_api is = map wi_api js \<Longrightarrow> books is s = books js s"
proof -
  assume v: "map wi_view is = map wi_view js" and a: "map wi_api is = map wi_api js"
  from a have "apis_of is = apis_of js"
    by (induction "is" js rule: list_induct2') (simp_all split: option.split)
  with v show ?thesis by (simp add: books_def del: set_map)
qed

text \<open>A field that is not a number of the books does not matter.\<close>

lemma books_frames [simp]:
  "books is (s\<lparr>wb_modules := m\<rparr>) = books is s" "books is (s\<lparr>wb_retired := r\<rparr>) = books is s"
  "books is (s\<lparr>wb_sweeps := k\<rparr>) = books is s" "books is (s\<lparr>wb_posted := q\<rparr>) = books is s"
  "books is (s\<lparr>wb_quits := qs\<rparr>) = books is s"
  "books is (s\<lparr>wb_factory := b\<rparr>) = books is s" "books is (s\<lparr>wb_hostApi := b\<rparr>) = books is s" "books is (s\<lparr>wb_hostRoutes := b\<rparr>) = books is s"
  by (simp_all add: books_def)

lemma books_tearDown:
  assumes "books (inst # is) s"
  shows "books is (tearDown E inst s)"
  using assms by (auto simp: books_def tearDown_def split: option.splits)

lemma books_tearDowns: "books (js @ is) s \<Longrightarrow> books is (fold (tearDown E) js s)"
  by (induction js arbitrary: s) (auto dest: books_tearDown)

lemma sweepReady_books:
  assumes "books (map snd (wb_modules s) @ wb_retired s) s"
  shows "books (map snd (wb_modules (sweepReady E s)) @ wb_retired (sweepReady E s)) (sweepReady E s)"
proof -
  let ?ready = "filter (\<lambda>i. \<not> awaiting i) (wb_retired s)" and ?rest = "filter awaiting (wb_retired s)"
  have "mset (?ready @ map snd (wb_modules s) @ ?rest) = mset (map snd (wb_modules s) @ wb_retired s)"
    using multiset_partition [of "mset (wb_retired s)" awaiting] by (simp add: ac_simps)
  then have "books (?ready @ map snd (wb_modules s) @ ?rest) (s\<lparr>wb_retired := ?rest\<rparr>)"
    using assms books_perm by fastforce
  from books_tearDowns [OF this] show ?thesis by (simp add: sweepReady_def)
qed

lemma armSweep_inv: "web_inv s \<Longrightarrow> web_inv (armSweep E s)"
  using sweepReady_books [of s E] by (auto simp: web_inv_def owned_instances_def armSweep_def)

lemma sweepRetired_inv: "web_inv s \<Longrightarrow> web_inv (sweepRetired E s)"
  using sweepReady_books [of s E] armSweep_inv [of "sweepReady E s" E]
  by (auto simp: web_inv_def owned_instances_def sweepRetired_def Let_def)

lemma serveSweep_inv: "web_inv s \<Longrightarrow> web_inv (serveSweep E s)"
  using sweepRetired_inv [of "s\<lparr>wb_sweeps := wb_sweeps s - 1\<rparr>" E] by (auto simp: web_inv_def owned_instances_def serveSweep_def)

lemma take_mset:
  assumes "umap_ok m" and "map_of m name = Some v"
  shows "mset (map snd m) = add_mset v (mset (map snd (AList.delete name m)))"
  using assms
proof (induction m)
  case (Cons e m)
  then show ?case
    by (cases e) (auto simp: umap_ok_def delete_id simp flip: set_map split: if_splits)
qed simp

lemma retire_inv:
  assumes "web_inv s" and "retire E name why s = (ds, s')"
  shows "web_inv s'"
proof (cases "map_of (wb_modules s) name")
  case None
  with assms show ?thesis by (simp add: retire_def takeInstance_def)
next
  case (Some inst)
  let ?t = "s\<lparr>wb_modules := AList.delete name (wb_modules s)\<rparr>"
  have ok: "umap_ok (wb_modules s)" and b: "books (owned_instances s) s" using assms(1) by (simp_all add: web_inv_def)
  have "mset (owned_instances s) = mset (inst # owned_instances ?t)" "mset (owned_instances s) = mset (owned_instances (?t\<lparr>wb_retired := wb_retired s @ [inst]\<rparr>))"
    using take_mset [OF ok Some] by (simp_all add: owned_instances_def)
  then have b1: "books (inst # owned_instances ?t) ?t" and b2: "books (owned_instances (?t\<lparr>wb_retired := wb_retired s @ [inst]\<rparr>)) ?t"
    using b books_perm by fastforce+
  have "web_inv (tearDown E inst ?t)" "web_inv (tearDown E inst (abandonCalls inst ?t))"
    using books_tearDown [OF b1] books_tearDown [of inst "owned_instances ?t" "abandonCalls inst ?t"] b1 ok
    by (simp_all add: web_inv_def owned_instances_def abandonCalls_def)
  moreover have "web_inv (deferTearDown E inst (abandonCalls inst ?t))"
    unfolding deferTearDown_def
    by (rule armSweep_inv) (use b2 ok in \<open>simp add: web_inv_def owned_instances_def abandonCalls_def\<close>)
  ultimately show ?thesis using assms(2) Some by (auto simp: retire_def takeInstance_def Let_def split: if_splits)
qed

lemma terminate_inv: "web_inv s \<Longrightarrow> web_terminate E name s = (ds, s') \<Longrightarrow> web_inv s'"
  using retire_inv sweepRetired_inv by (fastforce simp: web_terminate_def split: prod.splits)

lemma terminate_each_inv: "web_inv s \<Longrightarrow> web_terminate_each E ns s = (ds, s') \<Longrightarrow> web_inv s'"
  by (induction ns arbitrary: s ds) (auto split: prod.splits dest: terminate_inv)

lemma terminateAll_inv: "web_inv s \<Longrightarrow> web_terminateAll E s = (ds, s') \<Longrightarrow> web_inv s'"
  using terminate_each_inv sweepRetired_inv by (fastforce simp: web_terminateAll_def split: prod.splits)

text \<open>Turning the instances over one by one, their view and API kept.\<close>

lemma map_instances_inv:
  assumes "web_inv s" and "\<And>n i. wi_view (f n i) = wi_view i \<and> wi_api (f n i) = wi_api i"
    and "\<And>i. wi_view (g i) = wi_view i \<and> wi_api (g i) = wi_api i"
  shows "web_inv (s\<lparr>wb_modules := umap_map f (wb_modules s), wb_retired := map g (wb_retired s)\<rparr>)"
proof -
  have "map wi_view (map snd (umap_map f m)) = map wi_view (map snd m)" "map wi_api (map snd (umap_map f m)) = map wi_api (map snd m)" for m
    using assms(2) by (induction m) (auto simp: umap_map_def)
  then have "books (map snd (umap_map f (wb_modules s)) @ map g (wb_retired s)) s = books (owned_instances s) s"
    unfolding owned_instances_def using assms(3) by (intro books_view) (simp_all add: comp_def)
  with assms(1) show ?thesis by (simp add: web_inv_def owned_instances_def)
qed

lemma on_glue_inv:
  assumes "web_inv s"
  shows "web_inv (on_glue name f s)"
proof -
  have "on_glue name f s = s\<lparr>wb_modules := umap_map (\<lambda>n i. if n = name then i\<lparr>wi_glue := map_option f (wi_glue i)\<rparr> else i) (wb_modules s),
      wb_retired := map (\<lambda>i. i) (wb_retired s)\<rparr>"
    by (cases s) (auto simp: on_glue_def umap_adjust_def umap_map_def)
  with map_instances_inv [OF assms, of "\<lambda>n i. if n = name then i\<lparr>wi_glue := map_option f (wi_glue i)\<rparr> else i" "\<lambda>i. i"]
  show ?thesis by simp
qed

lemma page_call_inv: "web_inv s \<Longrightarrow> web_inv (page_call v f s)"
  unfolding page_call_def by (rule map_instances_inv) (simp_all add: on_view_def)

lemma sendToken_inv: "web_inv s \<Longrightarrow> web_sendToken E name token s = (sent, ds, s') \<Longrightarrow> web_inv s'"
  by (auto simp: web_sendToken_def on_glue_inv split: option.splits if_splits)

lemma await_inv: "web_inv s \<Longrightarrow> await_rounds E name rs s = (outcome, ds, s') \<Longrightarrow> web_inv s'"
proof (induction rs arbitrary: s outcome ds)
  case (Cons r rs)
  obtain dies serving where r: "r = (dies, serving)" by (cases r)
  let ?s = "on_glue name (\<lambda>g. snd (pageIsServing [] g)) s"
  obtain d s1 where d: "(if dies then retire E name PageLost ?s else ([], ?s)) = (d, s1)" by (cases "if dies then retire E name PageLost ?s else ([], ?s)")
  have "web_inv s1"
    using d retire_inv [OF on_glue_inv [OF Cons.prems(1)], of E name PageLost] on_glue_inv [OF Cons.prems(1)] by (auto split: if_splits)
  with Cons.IH [of s1] Cons.prems d show ?case
    by (auto simp: r Let_def simp del: set_map split: prod.splits if_splits)
qed simp

text \<open>A launch numbers its page and its API afresh, so what it takes back on a refusal is just them.\<close>

lemma books_open:
  assumes "books is s" and "wi_view inst = wb_nextView s" and "wi_api inst = None"
  shows "books (inst # is) (s\<lparr>wb_openViews := wb_openViews s @ [wb_nextView s], wb_nextView := Suc (wb_nextView s)\<rparr>)"
  using assms by (auto simp: books_def less_SucI)

lemma books_api:
  assumes "books (inst # is) s" and "wi_api inst = None" and "wi_view inst' = wi_view inst" and "wi_api inst' = Some (wb_nextApi s)"
  shows "books (inst' # is) (s\<lparr>wb_liveApis := wb_liveApis s @ [wb_nextApi s], wb_nextApi := Suc (wb_nextApi s)\<rparr>)"
  using assms by (auto simp: books_def less_SucI)

lemma books_same: "books (inst # is) s \<Longrightarrow> wi_view inst' = wi_view inst \<Longrightarrow> wi_api inst' = wi_api inst \<Longrightarrow> books (inst' # is) s"
  using books_view [of "inst' # is" "inst # is" s] by simp

lemma update_absent: "k \<notin> set (keys m) \<Longrightarrow> AList.update k v m = m @ [(k, v)]"
  by (induction m) auto

lemma conversation_books:
  assumes "books (inst # owned_instances s) s" and "umap_ok (wb_modules s)" and "d_name desc \<notin> set (keys (wb_modules s))"
    and "openConversation E desc ver inst s = (r, ds, s')"
  shows "web_inv s'"
proof -
  have torn: "web_inv (tearDown E i s)" if "wi_view i = wi_view inst" "wi_api i = wi_api inst" for i
    using books_tearDown [OF books_same [OF assms(1) that]] assms(2) by (simp add: web_inv_def owned_instances_def)
  have added: "web_inv (s\<lparr>wb_modules := AList.update (d_name desc) i (wb_modules s)\<rparr>)"
    if "wi_view i = wi_view inst" "wi_api i = wi_api inst" for i
  proof -
    have "mset (owned_instances (s\<lparr>wb_modules := AList.update (d_name desc) i (wb_modules s)\<rparr>)) = mset (i # owned_instances s)"
      by (simp add: owned_instances_def update_absent [OF assms(3)])
    then show ?thesis using books_perm books_same [OF assms(1) that] assms(2) by (fastforce simp: web_inv_def)
  qed
  show ?thesis
    using assms(4) torn added by (auto simp: openConversation_def Let_def split: if_splits)
qed

lemma identify_books:
  assumes "books (inst # owned_instances s) s" and "wi_api inst = None" and "umap_ok (wb_modules s)" and "d_name desc \<notin> set (keys (wb_modules s))"
    and "identify E desc ver inst s = (r, ds, s')"
  shows "web_inv s'"
proof -
  let ?t = "s\<lparr>wb_liveApis := wb_liveApis s @ [wb_nextApi s], wb_nextApi := Suc (wb_nextApi s)\<rparr>"
  let ?i = "inst\<lparr>wi_api := Some (wb_nextApi s), wi_router := Some (newRouter (d_name desc) True (newRoutes True (d_name desc))),
      wi_ownRoutes := \<not> wb_hostRoutes s\<rparr>"
  let ?j = "inst\<lparr>wi_router := Some (newRouter (d_name desc) (wb_hostRoutes s) (newRoutes (wb_hostRoutes s) (d_name desc)))\<rparr>"
  have o: "owned_instances ?t = owned_instances s" by (simp add: owned_instances_def)
  have b: "books (?i # owned_instances ?t) ?t" unfolding o by (rule books_api [OF assms(1,2)]) simp_all
  have c: "books (?j # owned_instances s) s" by (rule books_same [OF assms(1)]) simp_all
  have "web_inv (tearDown E inst s)" using books_tearDown [OF assms(1)] assms(3) by (simp add: web_inv_def owned_instances_def)
  with assms(3-5) conversation_books [OF b] conversation_books [OF c] show ?thesis
    by (auto simp: identify_def Let_def split: if_splits)
qed

lemma launch_inv:
  assumes "web_inv s" and "web_launch E desc host args s = (r, ds, s')"
  shows "web_inv s'"
proof -
  let ?s = "sweepRetired E s"
  have inv: "web_inv ?s" by (rule sweepRetired_inv [OF assms(1)])
  define opened where "opened = (\<lambda>p. \<lparr>wi_name = d_name desc, wi_view = wb_nextView ?s, wi_router = None, wi_ownRoutes = False, wi_connection = False, wi_glue = None,
      wi_api = None, wi_pid = p\<rparr>)"
  define t where "t = ?s\<lparr>wb_openViews := wb_openViews ?s @ [wb_nextView ?s], wb_nextView := Suc (wb_nextView ?s)\<rparr>"
  have o: "owned_instances t = owned_instances ?s" by (simp add: owned_instances_def t_def)
  have b: "books (opened p # owned_instances t) t" for p
    using books_open [of "owned_instances ?s" ?s "opened p"] inv unfolding o by (simp add: web_inv_def t_def opened_def)
  have "web_inv s'" if "identify E desc ver (opened p) t = (r, ds, s')" "d_name desc \<notin> set (keys (wb_modules ?s))" for ver p
    using identify_books [OF b _ _ _ that(1)] that(2) inv by (simp add: opened_def web_inv_def t_def del: set_map)
  with inv assms(2) show ?thesis
    by (auto simp: web_launch_def Let_def opened_def t_def simp del: set_map split: if_splits option.splits sum.splits)
qed

section \<open>Runs\<close>

datatype web_op =
    WLaunch ModuleDescriptor
  | WToken string string
  | WAwait string nat
  | WTerminate string
  | WTerminateAll
  | WDied bool string
  | WPosted
  | WSweep
  | WBegin nat nat string "json list"
  | WEnd nat nat
  | WFactory bool
  | WHostApi bool
  | WHostRoutes bool

definition web_op :: "web_env \<Rightarrow> web_op \<Rightarrow> web \<Rightarrow> web" where
  "web_op E m s = (case m of
     WLaunch desc \<Rightarrow> snd (snd (web_launch E desc [] [] s))
   | WToken name token \<Rightarrow> snd (snd (web_sendToken E name token s))
   | WAwait name timeout \<Rightarrow> snd (snd (web_awaitLoad E name timeout s))
   | WTerminate name \<Rightarrow> snd (web_terminate E name s)
   | WTerminateAll \<Rightarrow> snd (web_terminateAll E s)
   | WDied main name \<Rightarrow> snd (announceTermination E main name s)
   | WPosted \<Rightarrow> snd (servePosted E s)
   | WSweep \<Rightarrow> serveSweep E s
   | WBegin v k m args \<Rightarrow> beginPageCall (\<lambda>_. []) v k [] m args s
   | WEnd v k \<Rightarrow> endPageCall v k s
   | WFactory b \<Rightarrow> setWebModuleViewFactory b s
   | WHostApi b \<Rightarrow> web_setHostApi b s
   | WHostRoutes b \<Rightarrow> web_setHostRoutes b s)"

lemma setters_inv:
  "web_inv (s\<lparr>wb_factory := b\<rparr>) = web_inv s" "web_inv (s\<lparr>wb_hostApi := b\<rparr>) = web_inv s" "web_inv (s\<lparr>wb_hostRoutes := b\<rparr>) = web_inv s"
  "web_inv (s\<lparr>wb_posted := q\<rparr>) = web_inv s"
  by (simp_all add: web_inv_def owned_instances_def)

lemma web_op_inv:
  assumes "web_inv s"
  shows "web_inv (web_op E m s)"
proof (cases m)
  case (WLaunch desc)
  then show ?thesis using launch_inv [OF assms] by (simp add: web_op_def) (metis prod.collapse)
next
  case (WToken name token)
  then show ?thesis using sendToken_inv [OF assms] by (simp add: web_op_def) (metis prod.collapse)
next
  case (WAwait name timeout)
  then show ?thesis
    using await_inv [OF assms] assms by (simp add: web_op_def web_awaitLoad_def del: set_map) (metis prod.collapse)
next
  case (WTerminate name)
  then show ?thesis using terminate_inv [OF assms] by (simp add: web_op_def) (metis prod.collapse)
next
  case WTerminateAll
  then show ?thesis using terminateAll_inv [OF assms] by (simp add: web_op_def) (metis prod.collapse)
next
  case (WDied main name)
  then show ?thesis
    using retire_inv [OF assms, of E name PageLost] assms by (auto simp: web_op_def announceTermination_def setters_inv) (metis prod.collapse)
next
  case WPosted
  show ?thesis
  proof (cases "wb_posted s")
    case (Cons n ns)
    have "web_inv (s\<lparr>wb_posted := ns\<rparr>)" using assms by (simp add: setters_inv)
    from retire_inv [OF this, of E n PageLost] WPosted Cons show ?thesis by (simp add: web_op_def servePosted_def) (metis prod.collapse)
  qed (use assms WPosted in \<open>simp add: web_op_def servePosted_def\<close>)
next
  case WSweep
  then show ?thesis using serveSweep_inv [OF assms] by (simp add: web_op_def)
next
  case (WBegin v k m args)
  then show ?thesis using page_call_inv [OF assms] by (simp add: web_op_def beginPageCall_def)
next
  case (WEnd v k)
  then show ?thesis using page_call_inv [OF assms] by (simp add: web_op_def endPageCall_def)
qed (use assms in \<open>simp_all add: web_op_def setWebModuleViewFactory_def web_setHostApi_def web_setHostRoutes_def setters_inv\<close>)

definition web_run :: "web_env \<Rightarrow> web_op list \<Rightarrow> web" where
  "web_run E ops = fold (web_op E) ops emptyWeb"

lemma web_run_inv: "web_inv (web_run E ops)"
proof (induction ops rule: rev_induct)
  case Nil
  then show ?case by (simp add: web_run_def web_inv_def books_def owned_instances_def emptyWeb_def)
next
  case (snoc m ops)
  then show ?case using web_op_inv by (simp add: web_run_def)
qed

lemma tearDowns_all:
  assumes "web_inv s" and "wb_modules s = []"
  shows "wb_openViews (tearDownAllRetired E s) = [] \<and> wb_liveApis (tearDownAllRetired E s) = []"
proof -
  have "books [] (fold (tearDown E) (wb_retired s) (s\<lparr>wb_retired := []\<rparr>))"
    by (rule books_tearDowns) (use assms in \<open>simp add: web_inv_def owned_instances_def\<close>)
  then show ?thesis by (simp add: tearDownAllRetired_def books_def)
qed

text \<open>
  C20. Over any run of launches, loads that wait, unloads, deaths, nested calls and sweeps, the open pages are those of the
  modules in the table and of those parked, one each, and so are the published APIs; destroying the container
  closes every page and unpublishes every API.
\<close>

theorem web_nothing_leaks:
  assumes "hash_order (we_hash E)"
  shows "let s = web_run E ops in
     distinct (map wi_view (owned_instances s)) \<and> set (wb_openViews s) = set (map wi_view (owned_instances s))
   \<and> distinct (apis_of (owned_instances s)) \<and> set (wb_liveApis s) = set (apis_of (owned_instances s))
   \<and> wb_openViews (snd (destroyWebContainer E s)) = [] \<and> wb_liveApis (snd (destroyWebContainer E s)) = []"
proof -
  let ?s = "web_run E ops"
  have inv: "web_inv ?s" by (rule web_run_inv)
  obtain ds t where t: "web_terminateAll E ?s = (ds, t)" by (cases "web_terminateAll E ?s")
  have "umap_ok (wb_modules ?s)" using inv by (simp add: web_inv_def)
  then have "map_of (wb_modules t) n = None" for n by (rule web_terminateAll_modules(1) [OF assms _ t])
  then have "wb_modules t = []" by (cases "wb_modules t") (force split: if_splits)+
  with terminateAll_inv [OF inv t] tearDowns_all have "wb_openViews (tearDownAllRetired E t) = [] \<and> wb_liveApis (tearDownAllRetired E t) = []"
    by blast
  with inv show ?thesis by (simp add: Let_def web_inv_def books_def destroyWebContainer_def t)
qed

section \<open>Launching and losing a page\<close>

definition web_launchable :: "web_env \<Rightarrow> ModuleDescriptor \<Rightarrow> web \<Rightarrow> bool" where
  "web_launchable E desc s \<longleftrightarrow> wb_factory s \<and> \<not> web_hasModule (d_name desc) s
     \<and> (case we_open E (viewRequest desc) of None \<Rightarrow> False | Some v \<Rightarrow> ov_channel v)
     \<and> (case webModuleVersion desc of Inl _ \<Rightarrow> False | Inr _ \<Rightarrow> True)
     \<and> (wb_hostApi s \<longrightarrow> we_forIdentity E (d_name desc) (transportSetJson desc) \<and> we_registerObject E (d_name desc))
     \<and> we_connect E (d_name desc) \<and> we_requestObject E (d_name desc)"

lemma conversation_verdict:
  assumes "openConversation E desc ver inst s = (r, ds, s')"
  shows "(\<exists>out. r = Launched out) \<longleftrightarrow> we_connect E (d_name desc) \<and> we_requestObject E (d_name desc)
      \<and> (wi_api inst \<noteq> None \<longrightarrow> we_registerObject E (d_name desc))"
    and "wb_retired s' = wb_retired s"
  using assms by (auto simp: openConversation_def Let_def split: if_splits)

lemma identify_verdict:
  assumes "identify E desc ver inst s = (r, ds, s')" and "wi_api inst = None"
  shows "(\<exists>out. r = Launched out) \<longleftrightarrow> we_connect E (d_name desc) \<and> we_requestObject E (d_name desc)
      \<and> (wb_hostApi s \<longrightarrow> we_forIdentity E (d_name desc) (transportSetJson desc) \<and> we_registerObject E (d_name desc))"
    and "wb_retired s' = wb_retired s"
proof -
  let ?t = "s\<lparr>wb_liveApis := wb_liveApis s @ [wb_nextApi s], wb_nextApi := Suc (wb_nextApi s)\<rparr>"
  have "((\<exists>out. r = Launched out) \<longleftrightarrow> we_connect E (d_name desc) \<and> we_requestObject E (d_name desc)
      \<and> (wb_hostApi s \<longrightarrow> we_forIdentity E (d_name desc) (transportSetJson desc) \<and> we_registerObject E (d_name desc))) \<and> wb_retired s' = wb_retired s"
    using assms conversation_verdict [of E desc ver _ ?t r ds s'] conversation_verdict [of E desc ver _ s r ds s']
    by (auto simp: identify_def Let_def split: if_splits)
  then show "(\<exists>out. r = Launched out) \<longleftrightarrow> we_connect E (d_name desc) \<and> we_requestObject E (d_name desc)
      \<and> (wb_hostApi s \<longrightarrow> we_forIdentity E (d_name desc) (transportSetJson desc) \<and> we_registerObject E (d_name desc))"
    "wb_retired s' = wb_retired s" by blast+
qed

lemma launch_retired: "web_launch E desc host args s = (r, ds, s') \<Longrightarrow> wb_retired s' = wb_retired (sweepRetired E s)"
  using identify_verdict(2) [of E desc _ _ "(sweepRetired E s)\<lparr>wb_openViews := _, wb_nextView := _\<rparr>" r ds s']
  by (auto simp: web_launch_def Let_def simp del: set_map split: if_splits option.splits sum.splits)

lemma launch_verdict:
  assumes "web_launch E desc host args s = (r, ds, s')"
  shows "(\<exists>out. r = Launched out) \<longleftrightarrow> web_launchable E desc s"
proof -
  let ?s = "sweepRetired E s"
  let ?t = "?s\<lparr>wb_openViews := wb_openViews ?s @ [wb_nextView ?s], wb_nextView := Suc (wb_nextView ?s)\<rparr>"
  have *: "(\<exists>out. r = Launched out) \<longleftrightarrow> we_connect E (d_name desc) \<and> we_requestObject E (d_name desc)
      \<and> (wb_hostApi s \<longrightarrow> we_forIdentity E (d_name desc) (transportSetJson desc) \<and> we_registerObject E (d_name desc))"
    if "identify E desc ver inst ?t = (r, ds, s')" "wi_api inst = None" for ver inst
    using identify_verdict(1) [OF that] by simp
  show ?thesis
  proof (cases "wb_factory s \<and> \<not> web_hasModule (d_name desc) s")
    case False
    with assms show ?thesis by (auto simp: web_launch_def web_launchable_def Let_def web_hasModule_def simp del: set_map split: if_splits)
  next
    case True
    with assms show ?thesis
      by (auto simp: web_launch_def web_launchable_def Let_def web_hasModule_def * simp del: set_map split: if_splits option.splits sum.splits)
  qed
qed

text \<open>What the books say of the open pages and the live APIs.\<close>

lemma books_of:
  assumes "web_inv s"
  shows "set (wb_openViews s) = wi_view ` set (owned_instances s)" and "set (wb_liveApis s) = set (apis_of (owned_instances s))"
  using assms by (auto simp: web_inv_def books_def)

text \<open>
  C21. A launch starts the module exactly when the host installed a factory, the name is free, the backend opened a page with a
  channel, the metadata parses and, where the host has an API, the identity is granted and published, and the page answers
  for its handle; a refused launch leaves the table, the open pages and the live APIs as the sweep left them.
\<close>

theorem web_launch_verdict:
  assumes "web_inv s" and "web_launch E desc host args s = (r, ds, s')"
  shows "((\<exists>out. r = Launched out) \<longleftrightarrow> web_launchable E desc s) \<and> ds = []
    \<and> (if web_launchable E desc s
       then web_hasModule (d_name desc) s'
       else wb_modules s' = wb_modules s \<and> wb_retired s' = wb_retired (sweepRetired E s)
         \<and> set (wb_openViews s') = set (wb_openViews (sweepRetired E s)) \<and> set (wb_liveApis s') = set (wb_liveApis (sweepRetired E s)))"
proof -
  note v = launch_verdict [OF assms(2)] and f = web_launch_frame [OF assms(2)]
  have "web_hasModule (d_name desc) s'" if "web_launchable E desc s" using v f(4) that by blast
  moreover have "wb_modules s' = wb_modules s" if "\<not> web_launchable E desc s" using v f(5) that by blast
  moreover have "set (wb_openViews s') = set (wb_openViews (sweepRetired E s)) \<and> set (wb_liveApis s') = set (wb_liveApis (sweepRetired E s))"
    if "wb_modules s' = wb_modules s"
  proof -
    have "owned_instances s' = owned_instances (sweepRetired E s)" using that launch_retired [OF assms(2)] by (simp add: owned_instances_def)
    then show ?thesis using books_of [OF launch_inv [OF assms]] books_of [OF sweepRetired_inv [OF assms(1)]] by simp
  qed
  ultimately show ?thesis using v f(1) launch_retired [OF assms(2)] by simp
qed

text \<open>What a sweep does with a module that is parked.\<close>

lemma tearDowns_sweeps [simp]: "wb_sweeps (fold (tearDown E) is s) = wb_sweeps s"
  by (induction "is" arbitrary: s) (simp_all add: tearDown_def)

lemma tearDowns_torn:
  "wb_torn (fold (tearDown E) is s) = wb_torn s @ map (\<lambda>i. (wi_name i, teardown_steps E i)) is"
  "set (wb_openViews (fold (tearDown E) is s)) = set (wb_openViews s) - wi_view ` set is"
  by (induction "is" arbitrary: s) (auto simp: tearDown_def)

lemma serveSweep_waits:
  assumes "we_app E" and "inst \<in> set (wb_retired s)" and "awaiting inst" and "wb_sweeps s > 0"
  shows "inst \<in> set (wb_retired (serveSweep E s)) \<and> wb_sweeps (serveSweep E s) > 0"
  using assms by (auto simp: serveSweep_def sweepRetired_def sweepReady_def armSweep_def Let_def filter_empty_conv)

lemma serveSweep_tears:
  assumes "we_app E" and "inst \<in> set (wb_retired s)" and "\<not> awaiting inst" and "wb_sweeps s > 0"
  shows "(wi_name inst, teardown_steps E inst) \<in> set (wb_torn (serveSweep E s)) \<and> wi_view inst \<notin> set (wb_openViews (serveSweep E s))"
  using assms by (auto simp: serveSweep_def sweepRetired_def sweepReady_def armSweep_def Let_def tearDowns_torn)

lemma endPageCalls:
  assumes "i \<in> set (wb_retired s)" and "wi_view i = v" and "wi_glue i = Some g"
  shows "wb_sweeps (fold (endPageCall v) ks s) = wb_sweeps s \<and>
    (\<exists>i' g'. i' \<in> set (wb_retired (fold (endPageCall v) ks s)) \<and> wi_view i' = v \<and> wi_name i' = wi_name i \<and> wi_glue i' = Some g'
      \<and> wg_awaiting g' = wg_awaiting g - length ks)"
  using assms
proof (induction ks arbitrary: i g s)
  case (Cons k ks)
  let ?i = "on_view v (endWait k) i"
  have "?i \<in> set (wb_retired (endPageCall v k s))" "wi_view ?i = v" "wi_glue ?i = Some (endWait k g)"
    using Cons.prems imageI [OF Cons.prems(1), of "on_view v (endWait k)"] by (simp_all add: endPageCall_def page_call_def) (simp_all add: on_view_def)
  from Cons.IH [OF this] Cons.prems show ?case by (simp add: on_view_def endWait_def endPageCall_def page_call_def)
qed auto

text \<open>
  C22. A page that dies inside a call into it: its death is announced once and the module is out of the table, the call is told
  to give up, but nothing of the module is destroyed while it has not; every sweep finds it parked and asks for another,
  and the one after the last call has left tears it down.
\<close>

theorem lost_page_waits:
  assumes "we_app E" and "map_of (wb_modules s) name = Some inst" and "wi_glue inst = Some g" and "isAwaitingPage g"
    and "retire E name PageLost s = (ds, s')"
  shows "ds = [name] \<and> wb_modules s' = AList.delete name (wb_modules s) \<and> wb_retired s' = wb_retired s @ [inst]
    \<and> wb_quits s' = wb_quits s @ map (Pair (wi_view inst)) (wg_waits g)
    \<and> wb_torn s' = wb_torn s \<and> wb_openViews s' = wb_openViews s \<and> wb_liveApis s' = wb_liveApis s
    \<and> (\<forall>n. inst \<in> set (wb_retired ((serveSweep E ^^ n) s')) \<and> wb_sweeps ((serveSweep E ^^ n) s') > 0)
    \<and> (length ks = wg_awaiting g \<longrightarrow>
         wi_name inst \<in> fst ` set (wb_torn (serveSweep E (fold (endPageCall (wi_view inst)) ks s')))
         \<and> wi_view inst \<notin> set (wb_openViews (serveSweep E (fold (endPageCall (wi_view inst)) ks s'))))"
proof -
  have w: "awaiting inst" using assms(3,4) by (simp add: awaiting_def)
  have s': "ds = [name]" "s' = s\<lparr>wb_modules := AList.delete name (wb_modules s), wb_quits := wb_quits s @ map (Pair (wi_view inst)) (wg_waits g),
      wb_retired := wb_retired s @ [inst], wb_sweeps := wb_sweeps s + 1\<rparr>"
    using assms w by (auto simp: retire_def takeInstance_def deferTearDown_def armSweep_def abandonCalls_def abandonPendingCalls_def Let_def)
  have sweeps: "inst \<in> set (wb_retired ((serveSweep E ^^ n) s')) \<and> wb_sweeps ((serveSweep E ^^ n) s') > 0" for n
  proof (induction n)
    case (Suc n)
    then show ?case using serveSweep_waits [OF assms(1) _ w] by simp
  qed (simp add: s'(2))
  let ?t = "fold (endPageCall (wi_view inst)) ks s'"
  obtain i' g' where i': "wb_sweeps ?t = wb_sweeps s'" "i' \<in> set (wb_retired ?t)" "wi_view i' = wi_view inst" "wi_name i' = wi_name inst"
      "wi_glue i' = Some g'" "wg_awaiting g' = wg_awaiting g - length ks"
    using endPageCalls [of inst s' "wi_view inst" g ks] assms(3) s'(2) by auto
  have last: "wi_name inst \<in> fst ` set (wb_torn (serveSweep E ?t)) \<and> wi_view inst \<notin> set (wb_openViews (serveSweep E ?t))"
    if "length ks = wg_awaiting g"
  proof -
    have "\<not> awaiting i'" using i' that by (simp add: awaiting_def isAwaitingPage_def)
    moreover have "wb_sweeps ?t > 0" using i'(1) s'(2) by simp
    ultimately show ?thesis using serveSweep_tears [OF assms(1) i'(2)] i'(3,4) by force
  qed
  show ?thesis using s' sweeps last by simp
qed

section \<open>What the container does not cover\<close>

text \<open>An unload does not ask whether a call is inside the page: the module is torn down under it.\<close>

lemma unload_under_call:
  assumes "map_of (wb_modules s) name = Some inst" and "awaiting inst" and "retire E name Unloaded s = (ds, s')"
  shows "wb_torn s' = wb_torn s @ [(wi_name inst, teardown_steps E inst)]" and "wb_retired s' = wb_retired s" and "wb_quits s' = wb_quits s"
  using assms by (auto simp: retire_def takeInstance_def tearDown_def)

text \<open>A death that is reported before the launch has entered the module in the table is taken for nothing.\<close>

lemma early_death_lost: "\<not> web_hasModule name s \<Longrightarrow> retire E name PageLost s = ([], s)"
  by (auto simp: retire_def takeInstance_def web_has split: option.split)

text \<open>The probe of a load counts as no wait: a death while it runs tears its glue down at once.\<close>

lemma probed_page_torn:
  assumes "map_of (wb_modules s) name = Some inst" and "\<not> awaiting inst" and "retire E name PageLost s = (ds, s')"
  shows "wb_torn s' = wb_torn s @ [(wi_name inst, teardown_steps E inst)]" and "wb_retired s' = wb_retired s"
  using assms by (auto simp: retire_def takeInstance_def tearDown_def abandonCalls_def Let_def)

section \<open>Witnesses\<close>

definition sampleWebEnv :: web_env where
  "sampleWebEnv = \<lparr>we_open = (\<lambda>_. Some \<lparr>ov_channel = True, ov_pid = None\<rparr>), we_forIdentity = (\<lambda>_ _. True), we_connect = (\<lambda>_. True),
     we_requestObject = (\<lambda>n. n \<noteq> ''mute''), we_registerObject = (\<lambda>_. True), we_adoptCredentialFor = (\<lambda>_ _. True),
     we_credentialTaken = (\<lambda>_ _. True), we_rounds = (\<lambda>_ _. [(False, True)]),
     we_clients = sampleClients, we_app = True, we_hash = (\<lambda>xs. xs)\<rparr>"

definition samplePage :: "string \<Rightarrow> ModuleDescriptor" where
  "samplePage n = emptyDescriptor\<lparr>d_name := n, d_path := ''/m/index.html'', d_format := ''web''\<rparr>"

definition sampleHost :: web where
  "sampleHost = emptyWeb\<lparr>wb_factory := True, wb_hostApi := True, wb_hostRoutes := True\<rparr>"

lemmas web_eval = sampleWebEnv_def samplePage_def sampleHost_def emptyWeb_def emptyDescriptor_def web_launch_def sweepRetired_def
  sweepReady_def Let_def identify_def openConversation_def webModuleVersion_def

lemma sampleHost_inv: "web_inv sampleHost"
  by (simp add: web_inv_def books_def owned_instances_def sampleHost_def emptyWeb_def)

theorem web_nothing_leaks_witness:
  "\<exists>v a. wb_openViews (web_run sampleWebEnv [WFactory True, WHostApi True, WLaunch (samplePage ''mute''), WLaunch (samplePage ''app'')]) = [v]
    \<and> wb_liveApis (web_run sampleWebEnv [WFactory True, WHostApi True, WLaunch (samplePage ''mute''), WLaunch (samplePage ''app'')]) = [a]
    \<and> wb_openViews (snd (destroyWebContainer sampleWebEnv
        (web_run sampleWebEnv [WFactory True, WHostApi True, WLaunch (samplePage ''mute''), WLaunch (samplePage ''app'')]))) = []"
  using web_nothing_leaks [of sampleWebEnv "[WFactory True, WHostApi True, WLaunch (samplePage ''mute''), WLaunch (samplePage ''app'')]"]
  by (simp add: hash_order_id web_run_def web_op_def setWebModuleViewFactory_def web_setHostApi_def tearDown_def web_eval)

theorem web_launch_verdict_witness:
  "\<not> web_launchable sampleWebEnv (samplePage ''mute'') sampleHost
    \<and> wb_modules (snd (snd (web_launch sampleWebEnv (samplePage ''mute'') [] [] sampleHost))) = []"
proof -
  obtain r ds s' where l: "web_launch sampleWebEnv (samplePage ''mute'') [] [] sampleHost = (r, ds, s')" by (metis prod.exhaust)
  have "\<not> web_launchable sampleWebEnv (samplePage ''mute'') sampleHost"
    by (simp add: web_launchable_def sampleWebEnv_def samplePage_def sampleHost_def)
  with web_launch_verdict [OF sampleHost_inv l] l show ?thesis by (simp add: sampleHost_def emptyWeb_def)
qed

definition calledHost :: web where
  "calledHost = beginPageCall (\<lambda>_. []) 0 7 [] ''boom'' [] (snd (snd (web_launch sampleWebEnv (samplePage ''app'') [] [] sampleHost)))"

lemma calledHost_app:
  "\<exists>inst g. map_of (wb_modules calledHost) ''app'' = Some inst \<and> wi_glue inst = Some g \<and> wg_awaiting g = 1 \<and> wi_view inst = 0 \<and> wi_name inst = ''app''"
  by (simp add: calledHost_def beginPageCall_def page_call_def on_view_def umap_map_def newWebGlue_def web_setEventListener_def send_page_def
      beginWait_def web_eval)

theorem lost_page_waits_witness:
  "fst (retire sampleWebEnv ''app'' PageLost calledHost) = [''app'']
    \<and> 0 \<notin> set (wb_openViews (serveSweep sampleWebEnv (endPageCall 0 7 (snd (retire sampleWebEnv ''app'' PageLost calledHost)))))"
proof -
  obtain inst g where i: "map_of (wb_modules calledHost) ''app'' = Some inst" "wi_glue inst = Some g" "wg_awaiting g = 1" "wi_view inst = 0"
    using calledHost_app by blast
  obtain ds s' where r: "retire sampleWebEnv ''app'' PageLost calledHost = (ds, s')" by (cases "retire sampleWebEnv ''app'' PageLost calledHost")
  have "we_app sampleWebEnv" "isAwaitingPage g" using i(3) by (simp_all add: sampleWebEnv_def isAwaitingPage_def)
  from lost_page_waits [OF this(1) i(1,2) this(2) r, of "[7]"] i(3,4) r show ?thesis by simp
qed

end
