(* ===== verification/CoreLoaders.thy ===== *)
theory CoreLoaders
  imports ManagerRun WebBooks
begin

text \<open>
  The loader table of \<open>module_manager.cpp\<close> itself, \<open>loaderRegistry\<close>: the pair that is linked in, the Native pair and the Web
  pair, in this order, each container with a state of its own inside \<open>core_state\<close>. The pair linked in is
  a package's, an argument; where its container keeps \<open>module_container\<close>, the table keeps \<open>loader_fleet\<close>, so what the
  manager's theories prove under that contract holds of the program as it is put together.
\<close>

section \<open>A loader on its part of the state\<close>

definition liftLoader :: "('s \<Rightarrow> 'c) \<Rightarrow> ('c \<Rightarrow> 's \<Rightarrow> 's) \<Rightarrow> 'c ModuleLoader \<Rightarrow> 's ModuleLoader" where
  "liftLoader get put l =
     \<lparr>l_id = l_id l, l_canHandle = l_canHandle l,
      l_load = (\<lambda>desc s. let (r, ds, c) = l_load l desc (get s) in (r, ds, put c s)),
      l_sendToken = (\<lambda>name token s. let (sent, ds, c) = l_sendToken l name token (get s) in (sent, ds, put c s)),
      l_awaitLoad = (\<lambda>name timeout s. let (outcome, ds, c) = l_awaitLoad l name timeout (get s) in (outcome, ds, put c s)),
      l_terminate = (\<lambda>name s. let (ds, c) = l_terminate l name (get s) in (ds, put c s)),
      l_terminateAll = (\<lambda>s. let (ds, c) = l_terminateAll l (get s) in (ds, put c s)),
      l_hasModule = (\<lambda>name s. l_hasModule l name (get s)),
      l_pid = (\<lambda>name s. l_pid l name (get s)),
      l_getAllPids = (\<lambda>s. l_getAllPids l (get s)),
      l_getAllResourceUsage = (\<lambda>s. l_getAllResourceUsage l (get s))\<rparr>"

locale state_part =
  fixes get :: "'s \<Rightarrow> 'c" and put :: "'c \<Rightarrow> 's \<Rightarrow> 's" and part_ok :: "'c \<Rightarrow> bool" and whole_ok :: "'s \<Rightarrow> bool"
  assumes get_put: "get (put c s) = c"
    and ok_get: "whole_ok s \<Longrightarrow> part_ok (get s)"
    and ok_put: "whole_ok s \<Longrightarrow> part_ok c \<Longrightarrow> whole_ok (put c s)"
begin

lemma lift_ends: "whole_ok s \<Longrightarrow> ends_only part_ok has name (get s) ds c \<Longrightarrow> ends_only whole_ok (\<lambda>n s. has n (get s)) name s ds (put c s)"
  by (simp add: ends_only_def get_put ok_put)

lemma lift_starts: "whole_ok s \<Longrightarrow> starts_only part_ok has name (get s) ds c \<Longrightarrow> starts_only whole_ok (\<lambda>n s. has n (get s)) name s ds (put c s)"
  by (simp add: starts_only_def get_put ok_put)

lemma lift_runner:
  assumes l: "module_runner l part_ok"
  shows "module_runner (liftLoader get put l) whole_ok"
proof (unfold_locales, goal_cases)
  case (1 s desc r ds s')
  then obtain c where c: "l_load l desc (get s) = (r, ds, c)" "s' = put c s" by (auto simp: liftLoader_def split: prod.splits)
  show ?case using lift_ends [OF 1(1) module_runner.load_ends [OF l ok_get [OF 1(1)] c(1) 1(3)]] c(2) by (simp add: liftLoader_def)
next
  case (2 s desc h ds s')
  then obtain c where c: "l_load l desc (get s) = (Launched h, ds, c)" "s' = put c s" by (auto simp: liftLoader_def split: prod.splits)
  show ?case using lift_starts [OF 2(1) module_runner.load_starts [OF l ok_get [OF 2(1)] c(1)]] c(2) by (simp add: liftLoader_def)
next
  case (3 s name token sent ds s')
  then obtain c where c: "l_sendToken l name token (get s) = (sent, ds, c)" "s' = put c s" by (auto simp: liftLoader_def split: prod.splits)
  show ?case using lift_ends [OF 3(1) module_runner.token_ends [OF l ok_get [OF 3(1)] c(1)]] c(2) by (simp add: liftLoader_def)
next
  case (4 s name timeout outcome ds s')
  then obtain c where c: "l_awaitLoad l name timeout (get s) = (outcome, ds, c)" "s' = put c s" by (auto simp: liftLoader_def split: prod.splits)
  show ?case using lift_ends [OF 4(1) module_runner.await_ends [OF l ok_get [OF 4(1)] c(1)]] c(2) by (simp add: liftLoader_def)
next
  case (5 s name ds s')
  then obtain c where c: "l_terminate l name (get s) = (ds, c)" "s' = put c s" by (auto simp: liftLoader_def split: prod.splits)
  show ?case using lift_ends [OF 5(1) module_runner.terminate_ends [OF l ok_get [OF 5(1)] c(1)]] c(2) by (simp add: liftLoader_def)
next
  case (6 s name ds s')
  then obtain c where c: "l_terminate l name (get s) = (ds, c)" "s' = put c s" by (auto simp: liftLoader_def split: prod.splits)
  show ?case using module_runner.terminate_gone [OF l ok_get [OF 6(1)] c(1)] c(2) by (simp add: liftLoader_def get_put)
next
  case (7 s ds s')
  then obtain c where c: "l_terminateAll l (get s) = (ds, c)" "s' = put c s" by (auto simp: liftLoader_def split: prod.splits)
  show ?case using module_runner.terminateAll_ok [OF l ok_get [OF 7(1)] c(1)] c(2) ok_put [OF 7(1)] by (simp add: liftLoader_def)
next
  case (8 s ds s' name)
  then obtain c where c: "l_terminateAll l (get s) = (ds, c)" "s' = put c s" by (auto simp: liftLoader_def split: prod.splits)
  show ?case using module_runner.terminateAll_gone [OF l ok_get [OF 8(1)] c(1)] c(2) by (simp add: liftLoader_def get_put)
qed

end

lemma lift_keeps: "(\<And>c s. P (put c s) = P s) \<Longrightarrow> keeps P (liftLoader get put l)"
  by (simp add: keeps_def liftLoader_def split: prod.split)

lemma lift_has [simp]: "l_hasModule (liftLoader get put l) n s = l_hasModule l n (get s)"
  "l_canHandle (liftLoader get put l) = l_canHandle l" "l_id (liftLoader get put l) = l_id l"
  by (simp_all add: liftLoader_def)

section \<open>The table\<close>

record 'p core_state =
  co_default :: 'p
  co_native :: inproc
  co_web :: web

definition core_ok :: "('p \<Rightarrow> bool) \<Rightarrow> inproc_env \<Rightarrow> web_env \<Rightarrow> 'p core_state \<Rightarrow> bool" where
  "core_ok ok E W s \<longleftrightarrow> ok (co_default s) \<and> inproc_names_ok E (co_native s) \<and> web_names_ok W (co_web s)"

interpretation default_part: state_part co_default "\<lambda>c. co_default_update (\<lambda>_. c)" ok "core_ok ok E W" for ok E W
  by unfold_locales (simp_all add: core_ok_def)

interpretation native_part: state_part co_native "\<lambda>c. co_native_update (\<lambda>_. c)" "inproc_names_ok E" "core_ok ok E W" for ok E W
  by unfold_locales (simp_all add: core_ok_def)

interpretation web_part: state_part co_web "\<lambda>c. co_web_update (\<lambda>_. c)" "web_names_ok W" "core_ok ok E W" for ok E W
  by unfold_locales (simp_all add: core_ok_def)

text \<open>The pair linked in is registered where the two factories answer, the Native and the Web pair always.\<close>

definition defaultLoader :: "'p ModuleContainer \<Rightarrow> ModuleFormatLoader \<Rightarrow> 'p core_state ModuleLoader" where
  "defaultLoader c f = liftLoader co_default (\<lambda>c. co_default_update (\<lambda>_. c)) (compositeModuleLoader c f)"

definition inProcLoader :: "inproc_env \<Rightarrow> 'p core_state ModuleLoader" where
  "inProcLoader E = liftLoader co_native (\<lambda>c. co_native_update (\<lambda>_. c)) (compositeModuleLoader (inprocContainer E) (bareModuleFormatLoader ''bare''))"

definition webLoader :: "web_env \<Rightarrow> 'p core_state ModuleLoader" where
  "webLoader W = liftLoader co_web (\<lambda>c. co_web_update (\<lambda>_. c)) (compositeModuleLoader (webContainer W) (webModuleFormatLoader ''web''))"

definition loaderRegistry :: "inproc_env \<Rightarrow> web_env \<Rightarrow> 'p ModuleContainer option \<Rightarrow> ModuleFormatLoader option \<Rightarrow> 'p core_state loaders" where
  "loaderRegistry E W container fl =
     (let reg = (case (container, fl) of (Some c, Some f) \<Rightarrow> registerLoader (defaultLoader c f) [] | _ \<Rightarrow> []);
          reg = registerLoader (inProcLoader E) reg in
      registerLoader (webLoader W) reg)"

lemma registry_cases:
  obtains "loaderRegistry E W container fl = [inProcLoader E, webLoader W]" "container = None \<or> fl = None"
  | c f where "container = Some c" "fl = Some f" "loaderRegistry E W container fl = [defaultLoader c f, inProcLoader E, webLoader W]"
  by (cases container; cases fl) (simp_all add: loaderRegistry_def registerLoader_def)

context module_container begin

lemma composite_runner: "module_runner (compositeModuleLoader container fl) ok"
  by (rule runner.module_runner_axioms)

end

lemma registry_runners:
  "module_runner (inProcLoader E) (core_ok ok E W)" "module_runner (webLoader W) (core_ok ok E W)"
  "module_container c ok \<Longrightarrow> module_runner (defaultLoader c f) (core_ok ok E W)"
  unfolding inProcLoader_def webLoader_def defaultLoader_def
  using native_part.lift_runner [OF inproc.composite_runner] web_part.lift_runner [OF web.composite_runner]
    default_part.lift_runner [OF module_container.composite_runner]
  by blast+

lemma registry_has [simp]:
  "l_hasModule (inProcLoader E) n s = inproc_hasModule n (co_native s)" "l_hasModule (webLoader W) n s = web_hasModule n (co_web s)"
  "l_hasModule (defaultLoader c f) n s = c_hasModule c n (co_default s)"
  by (simp_all add: inProcLoader_def webLoader_def defaultLoader_def compositeModuleLoader_def inprocContainer_def webContainer_def)

lemma registry_keeps:
  "keeps (\<lambda>s. P (co_default s)) (inProcLoader E)" "keeps (\<lambda>s. P (co_default s)) (webLoader W)"
  "keeps (\<lambda>s. Q (co_native s)) (defaultLoader c f)" "keeps (\<lambda>s. Q (co_native s)) (webLoader W)"
  "keeps (\<lambda>s. R (co_web s)) (inProcLoader E)" "keeps (\<lambda>s. R (co_web s)) (defaultLoader c f)"
  unfolding inProcLoader_def webLoader_def defaultLoader_def by (rule lift_keeps, simp)+

lemma core_fleet:
  assumes "container \<noteq> None \<Longrightarrow> fl \<noteq> None \<Longrightarrow> module_container (the container) ok"
  shows "loader_fleet (loaderRegistry E W container fl) (core_ok ok E W)"
proof (rule registry_cases [of E W container fl])
  assume "loaderRegistry E W container fl = [inProcLoader E, webLoader W]"
  then show ?thesis
    by (intro loader_fleet.intro) (auto simp: less_Suc_eq registry_runners registry_keeps registry_has [abs_def])
next
  fix c f
  assume "container = Some c" "fl = Some f" "loaderRegistry E W container fl = [defaultLoader c f, inProcLoader E, webLoader W]"
  with assms show ?thesis
    by (intro loader_fleet.intro) (auto simp: less_Suc_eq registry_runners registry_keeps registry_has [abs_def])
qed

interpretation core: loader_fleet "loaderRegistry E W None None" "core_ok ok E W" for ok E W
  by (rule core_fleet) simp

section \<open>The manager on this table\<close>

text \<open>Where a module runs.\<close>

definition runs_default :: "'p ModuleContainer option \<Rightarrow> ModuleFormatLoader option \<Rightarrow> string \<Rightarrow> 'p core_state \<Rightarrow> bool" where
  "runs_default container fl n s \<longleftrightarrow> (case (container, fl) of (Some c, Some f) \<Rightarrow> c_hasModule c n (co_default s) | _ \<Rightarrow> False)"

lemma registry_place:
  fixes container :: "'p ModuleContainer option"
  assumes "\<And>i n. i < length (loaderRegistry E W container fl) \<Longrightarrow> l_hasModule (loaderRegistry E W container fl ! i) n s \<Longrightarrow> L n \<and> F n = Some i"
  shows "runs_default container fl n s \<or> inproc_hasModule n (co_native s) \<or> web_hasModule n (co_web s) \<Longrightarrow> L n"
    and "\<not> (inproc_hasModule n (co_native s) \<and> web_hasModule n (co_web s))"
    and "runs_default container fl n s \<Longrightarrow> \<not> inproc_hasModule n (co_native s) \<and> \<not> web_hasModule n (co_web s)"
proof -
  have "(runs_default container fl n s \<or> inproc_hasModule n (co_native s) \<or> web_hasModule n (co_web s) \<longrightarrow> L n)
    \<and> \<not> (inproc_hasModule n (co_native s) \<and> web_hasModule n (co_web s))
    \<and> (runs_default container fl n s \<longrightarrow> \<not> inproc_hasModule n (co_native s) \<and> \<not> web_hasModule n (co_web s))"
  proof (rule registry_cases [of E W container fl])
    assume t: "loaderRegistry E W container fl = [inProcLoader E, webLoader W]" and "container = None \<or> fl = None"
    then show ?thesis using assms [of 0 n] assms [of 1 n] by (auto simp: runs_default_def split: option.splits)
  next
    fix c f
    assume "container = Some c" "fl = Some f" "loaderRegistry E W container fl = [defaultLoader c f, inProcLoader E, webLoader W]"
    then show ?thesis using assms [of 0 n] assms [of 1 n] assms [of 2 n] by (auto simp: runs_default_def)
  qed
  then show "runs_default container fl n s \<or> inproc_hasModule n (co_native s) \<or> web_hasModule n (co_web s) \<Longrightarrow> L n"
    "\<not> (inproc_hasModule n (co_native s) \<and> web_hasModule n (co_web s))"
    "runs_default container fl n s \<Longrightarrow> \<not> inproc_hasModule n (co_native s) \<and> \<not> web_hasModule n (co_web s)" by blast+
qed

lemma newWorld_inv:
  assumes "ok c" and "\<And>n. \<not> running ls n c"
  shows "mgr_inv ls ok (newWorld ls c)"
  using assms by (simp add: mgr_inv_def fleet_inv_def newWorld_def registry_fit_def registry_ok_def emptyRegistry_def isLoaded_def running_def)

text \<open>
  The manager on the table the program builds, with the container that is linked in keeping its contract: after any
  run of operations, deaths, restarts and turns of the event loop, a module that any of the three containers
  runs is loaded, and no module runs in two of them.
\<close>

theorem core_no_orphans:
  assumes "container \<noteq> None \<Longrightarrow> fl \<noteq> None \<Longrightarrow> module_container (the container) ok"
    and "core_ok ok E W s" and "\<And>n. \<not> running (loaderRegistry E W container fl) n s"
    and "mgr_reach (loaderRegistry E W container fl) (core_ok ok E W) (newWorld (loaderRegistry E W container fl) s) w"
  shows "(runs_default container fl n (w_containers w) \<or> inproc_hasModule n (co_native (w_containers w)) \<or> web_hasModule n (co_web (w_containers w))
      \<longrightarrow> isLoaded (w_registry w) n)
    \<and> \<not> (inproc_hasModule n (co_native (w_containers w)) \<and> web_hasModule n (co_web (w_containers w)))
    \<and> \<not> (runs_default container fl n (w_containers w) \<and> (inproc_hasModule n (co_native (w_containers w)) \<or> web_hasModule n (co_web (w_containers w))))"
proof -
  let ?ls = "loaderRegistry E W container fl"
  have "fleet_inv ?ls (core_ok ok E W) w"
    using loader_fleet.reach_inv [OF core_fleet [OF assms(1)] assms(4) newWorld_inv] assms(2,3) by (simp add: mgr_inv_def)
  then have "isLoaded (w_registry w) n \<and> loaderFor (w_registry w) n = Some i"
    if "i < length ?ls" "l_hasModule (?ls ! i) n (w_containers w)" for i n
    using that by (simp add: fleet_inv_def)
  from registry_place [of E W container fl "w_containers w" "isLoaded (w_registry w)" "loaderFor (w_registry w)", OF this]
  show ?thesis by blast
qed

text \<open>
  A descriptor that names no loader goes by its format: a Bare image to the Native container, a page to the Web
  container, and anything else to the pair linked in, if it takes it; where that pair takes neither format.
\<close>

theorem format_decides:
  assumes "jfind (loaderConfig desc) ''id'' = None" and "d_format desc \<in> {''bare'', ''web''} \<Longrightarrow> fl \<noteq> None \<Longrightarrow> \<not> f_canHandle (the fl) desc"
  shows "\<exists>r. select (loaderRegistry E W container fl) desc = Inr r
    \<and> (if d_format desc = ''bare'' then \<exists>i. r = Some i \<and> loaderRegistry E W container fl ! i = inProcLoader E
       else if d_format desc = ''web'' then \<exists>i. r = Some i \<and> loaderRegistry E W container fl ! i = webLoader W
       else r = (case (container, fl) of (Some c, Some f) \<Rightarrow> if f_canHandle f desc \<and> c_canHandle c desc then Some 0 else None | _ \<Rightarrow> None))"
proof -
  have h: "l_canHandle (inProcLoader E) desc \<longleftrightarrow> d_format desc = ''bare''" "l_canHandle (webLoader W) desc \<longleftrightarrow> d_format desc = ''web''"
    "l_canHandle (defaultLoader c f) desc \<longleftrightarrow> f_canHandle f desc \<and> c_canHandle c desc" for c f
    by (simp_all add: inProcLoader_def webLoader_def defaultLoader_def compositeModuleLoader_def inprocContainer_def webContainer_def
        bareModuleFormatLoader_def webModuleFormatLoader_def inproc_canHandle_def web_canHandle_def)
  show ?thesis
  proof (rule registry_cases [of E W container fl])
    assume "loaderRegistry E W container fl = [inProcLoader E, webLoader W]" "container = None \<or> fl = None"
    with assms(1) h show ?thesis by (auto simp: select_def split: option.split)
  next
    fix c f
    assume "container = Some c" "fl = Some f" "loaderRegistry E W container fl = [defaultLoader c f, inProcLoader E, webLoader W]"
    with assms h show ?thesis by (auto simp: select_def)
  qed
qed

definition coreStart :: "unit core_state" where
  "coreStart = \<lparr>co_default = (), co_native = setHostApi True emptyInproc, co_web = sampleHost\<rparr>"

definition sampleTable :: "unit core_state loaders" where
  "sampleTable = loaderRegistry sample_env sampleWebEnv None None"

definition coreScanned :: "unit core_state world" where
  "coreScanned = mgr_discoverInstalledModules sampleMgr (\<lambda>_. None) (\<lambda>_. [sample_package ''a'' ''/m/a_bare.so'']) (newWorld sampleTable coreStart)"

definition coreUp :: "unit core_state world" where
  "coreUp = (case mgr_loadModule sampleMgr ''a'' coreScanned of Some (_, w) \<Rightarrow> w | None \<Rightarrow> coreScanned)"

lemma core_up_reach: "mgr_reach sampleTable (core_ok (\<lambda>_. True) sample_env sampleWebEnv) (newWorld sampleTable coreStart) coreUp"
proof -
  have ho: "hash_order (e_hash sampleMgr)" by (rule sample_outside(2))
  have "mgr_loadModule sampleMgr ''a'' coreScanned \<noteq> None"
    by (simp add: mgr_loadModule_def withEntry_def Let_def split: prod.split)
  then obtain r w where w: "mgr_loadModule sampleMgr ''a'' coreScanned = Some (r, w)" by fastforce
  have up: "coreUp = w" by (simp add: coreUp_def w)
  show ?thesis
    unfolding up
    by (rule ReachStep [OF ReachStep [OF ReachStart] StepLoad [OF ho w]]) (unfold coreScanned_def, rule StepDiscover [OF ho])
qed

lemma core_start:
  "core_ok (\<lambda>_. True) sample_env sampleWebEnv coreStart" "\<not> running sampleTable n coreStart"
proof -
  show "core_ok (\<lambda>_. True) sample_env sampleWebEnv coreStart"
    by (simp add: core_ok_def coreStart_def inproc_names_ok_def web_names_ok_def sample_env_def sampleWebEnv_def hash_order_id
        setHostApi_def emptyInproc_def sampleHost_def emptyWeb_def)
  show "\<not> running sampleTable n coreStart"
    by (auto simp: running_def sampleTable_def loaderRegistry_def registerLoader_def nth_Cons' coreStart_def inproc_hasModule_def
        web_hasModule_def setHostApi_def emptyInproc_def sampleHost_def emptyWeb_def)
qed

theorem core_no_orphans_witness:
  "inproc_hasModule ''a'' (co_native (w_containers coreUp)) \<and> isLoaded (w_registry coreUp) ''a'' \<and> \<not> web_hasModule ''a'' (co_web (w_containers coreUp))"
proof -
  have "inproc_hasModule ''a'' (co_native (w_containers coreUp))"
    unfolding coreUp_def coreScanned_def by code_simp
  then show ?thesis
    using core_no_orphans [of None None "\<lambda>_. True" sample_env sampleWebEnv coreStart coreUp "''a''", folded sampleTable_def]
      core_start core_up_reach by blast
qed

theorem format_decides_witness:
  "\<exists>i. select (loaderRegistry sample_env sampleWebEnv (None :: unit ModuleContainer option) None) (samplePage ''p'') = Inr (Some i)
     \<and> loaderRegistry sample_env sampleWebEnv (None :: unit ModuleContainer option) None ! i = webLoader sampleWebEnv"
  using format_decides [of "samplePage ''p''" None sample_env sampleWebEnv "None :: unit ModuleContainer option"]
  by (auto simp: samplePage_def emptyDescriptor_def jfind_def)

section \<open>Turns of the event loop\<close>

lemma registry_web:
  assumes "i < length (loaderRegistry E W container fl)"
  shows "l_hasModule (loaderRegistry E W container fl ! i) n (s\<lparr>co_web := c\<rparr>) =
    (if i = length (loaderRegistry E W container fl) - 1 then web_hasModule n c else l_hasModule (loaderRegistry E W container fl ! i) n s)"
  using assms by (auto simp: loaderRegistry_def registerLoader_def less_Suc_eq nth_append split: option.splits)

lemma registry_last:
  "l_hasModule (loaderRegistry E W container fl ! (length (loaderRegistry E W container fl) - 1)) = (\<lambda>n s. web_hasModule n (co_web s))"
  "loaderRegistry E W container fl \<noteq> []"
  by (auto simp: loaderRegistry_def registerLoader_def nth_append Let_def intro!: ext split: option.splits)

lemma core_web_ok: "core_ok ok E W s \<Longrightarrow> web_names_ok W (co_web s)"
  by (simp add: core_ok_def)

lemma serveSweep_modules [simp]: "wb_modules (serveSweep E s) = wb_modules s"
  by (simp add: serveSweep_def)

text \<open>
  What the Web container does on its own between two operations are steps of the manager's machine: a sweep moves no
  module, and a page lost under a name in the table is the death of a module of the Web loader, which
  its callback reports.
\<close>

theorem web_turns_are_steps:
  assumes "core_ok ok E W s" and "ls = loaderRegistry E W container fl" and "w_containers w = s"
  shows "mgr_step ls (core_ok ok E W) w (w\<lparr>w_containers := s\<lparr>co_web := serveSweep W (co_web s)\<rparr>\<rparr>)
    \<and> (\<forall>c. retire W n PageLost (co_web s) = ([n], c) \<longrightarrow>
        mgr_step ls (core_ok ok E W) w (onTerminated M n (w\<lparr>w_containers := s\<lparr>co_web := c\<rparr>\<rparr>)))"
proof (intro conjI allI impI)
  let ?last = "length ls - 1"
  have same: "l_hasModule (ls ! ?last) m s = web_hasModule m (co_web s)" for m
    unfolding assms(2) registry_last(1) ..
  show "mgr_step ls (core_ok ok E W) w (w\<lparr>w_containers := s\<lparr>co_web := serveSweep W (co_web s)\<rparr>\<rparr>)"
  proof (rule StepWork)
    show "core_ok ok E W (s\<lparr>co_web := serveSweep W (co_web s)\<rparr>)"
      using assms(1) by (simp add: core_ok_def web_names_ok_def)
    show "l_hasModule (ls ! i) m (s\<lparr>co_web := serveSweep W (co_web s)\<rparr>) = l_hasModule (ls ! i) m (w_containers w)" if "i < length ls" for i m
      using registry_web [where i = i and s = s and c = "serveSweep W (co_web s)" and n = m and E = E and W = W and container = container and fl = fl]
        same [of m] that assms(3)
      by (cases "i = ?last") (simp_all add: assms(2) web_hasModule_def)
  qed
next
  fix c
  let ?last = "length ls - 1"
  assume lost: "retire W n PageLost (co_web s) = ([n], c)"
  have has: "web_hasModule n (co_web s)" using retire_modules(2) [OF lost] by (simp split: if_splits)
  have ends: "ends_only (core_ok ok E W) (\<lambda>n s. web_hasModule n (co_web s)) n s [n] (s\<lparr>co_web := c\<rparr>)"
    by (rule web_part.lift_ends [OF assms(1) retire_ends [OF core_web_ok [OF assms(1)] lost]])
  have "container_death ls (core_ok ok E W) ?last n s (s\<lparr>co_web := c\<rparr>)"
    unfolding container_death_def
    using ends has registry_last [of E W container fl] registry_web [where s = s and c = c and E = E and W = W and container = container and fl = fl] assms(2) by auto
  then show "mgr_step ls (core_ok ok E W) w (onTerminated M n (w\<lparr>w_containers := s\<lparr>co_web := c\<rparr>\<rparr>))"
    using StepDeath [of ls "core_ok ok E W" ?last n w] assms(3) by simp
qed

theorem web_turns_are_steps_witness:
  "mgr_step sampleTable (core_ok (\<lambda>_. True) sample_env sampleWebEnv) (newWorld sampleTable coreStart)
     ((newWorld sampleTable coreStart)\<lparr>w_containers := coreStart\<lparr>co_web := serveSweep sampleWebEnv (co_web coreStart)\<rparr>\<rparr>)"
  using web_turns_are_steps [OF core_start(1) sampleTable_def, of "newWorld sampleTable coreStart"] by (simp add: newWorld_def)

end
