(* ===== verification/ModuleStats.thy ===== *)
theory ModuleStats
  imports LoaderRegistry
begin

text \<open>
  \<open>src/logos_core/module_stats_json.{h,cpp}\<close>: the merge behind \<open>logos_core_get_module_stats\<close>, and the history
  that turns CPU times into percentages. A \<open>double\<close> is a rational number, so that nothing is rounded; a time is a
  number of milliseconds. The percentage function is an argument with a state of its own, as the code
  hands it over.
\<close>

section \<open>The percentage of a module\<close>

type_synonym cpu_history = "(rat \<times> int) umap"

definition percentFor :: "string \<Rightarrow> rat \<Rightarrow> int \<Rightarrow> cpu_history \<Rightarrow> rat \<times> cpu_history" where
  "percentFor name cpu now h =
     (let percent = (case map_of h name of
            None \<Rightarrow> 0
          | Some (c, t) \<Rightarrow> (let elapsed = of_int (now - t) / 1000 in if elapsed > 0 then ((cpu - c) / elapsed) * 100 else 0))
      in (if percent < 0 then 0 else percent, AList.update name (cpu, now) h))"

section \<open>The merge\<close>

text \<open>\<open>j[k] = v\<close> on an object, whose members are kept by key.\<close>

fun insert_member :: "string \<Rightarrow> json \<Rightarrow> (string \<times> json) list \<Rightarrow> (string \<times> json) list" where
  "insert_member k v [] = [(k, v)]"
| "insert_member k v ((k', v') # ms) =
     (if k = k' then (k, v) # ms else if k < k' then (k, v) # (k', v') # ms else (k', v') # insert_member k v ms)"

fun set_member :: "string \<Rightarrow> json \<Rightarrow> json \<Rightarrow> json" where
  "set_member k v (JObject ms) = JObject (insert_member k v ms)"
| "set_member k v j = j"

definition entry_name :: "json \<Rightarrow> string option" where
  "entry_name j = (case jfind j ''name'' of Some (JString n) \<Rightarrow> Some n | _ \<Rightarrow> None)"

definition stampProcess :: "json \<Rightarrow> json" where
  "stampProcess j =
     (case entry_name j of
        None \<Rightarrow> j
      | Some _ \<Rightarrow> set_member ''memory_kind'' (JString ''rss'') (set_member ''scope'' (JString ''process'') j))"

definition unmeasured :: "string \<Rightarrow> int \<Rightarrow> json" where
  "unmeasured name pid = JObject
     [(''cpu_percent'', JNull), (''cpu_time_seconds'', JNull), (''memory_kind'', JNull), (''memory_mb'', JNull),
      (''name'', JString name), (''pid'', JInt pid), (''scope'', JString ''in_process'')]"

definition measuredEntry :: "rat \<Rightarrow> ModuleResourceUsage \<Rightarrow> json \<Rightarrow> json" where
  "measuredEntry percent cost j =
     set_member ''memory_kind'' (JString (if memoryIsResident cost then ''image_resident'' else ''image_mapped''))
      (set_member ''memory_mb'' (JFloat (of_nat (memoryBytes cost) / (1024 * 1024)))
       (set_member ''cpu_time_seconds'' (JFloat (cpuTimeSeconds cost))
        (set_member ''cpu_percent'' (JFloat percent) j)))"

fun inProcessEntries ::
  "(string \<Rightarrow> rat \<Rightarrow> 'h \<Rightarrow> rat \<times> 'h) \<Rightarrow> ModuleResourceUsage umap \<Rightarrow> string list \<Rightarrow> int umap \<Rightarrow> 'h \<Rightarrow> json list \<times> 'h" where
  "inProcessEntries cpu usage reported [] h = ([], h)"
| "inProcessEntries cpu usage reported ((name, pid) # rest) h =
     (if 0 \<le> pid \<or> name \<in> set reported then inProcessEntries cpu usage reported rest h
      else let (entry, h) = (case map_of usage name of
              None \<Rightarrow> (unmeasured name pid, h)
            | Some cost \<Rightarrow> (let (p, h) = cpu name (cpuTimeSeconds cost) h in (measuredEntry p cost (unmeasured name pid), h)));
            (es, h) = inProcessEntries cpu usage reported rest h
        in (entry # es, h))"

definition elements_of :: "json \<Rightarrow> json list" where
  "elements_of j = (case j of JArray xs \<Rightarrow> xs | _ \<Rightarrow> [])"

text \<open>The pids are visited in the order of the hash table.\<close>

definition mergeModuleStats ::
  "hash_iter \<Rightarrow> (string \<Rightarrow> rat \<Rightarrow> 'h \<Rightarrow> rat \<times> 'h) \<Rightarrow> int umap \<Rightarrow> json \<Rightarrow> ModuleResourceUsage umap \<Rightarrow> 'h \<Rightarrow> json \<times> 'h" where
  "mergeModuleStats ho cpu pids processStats usage h =
     (let merged = elements_of processStats;
          reported = List.map_filter entry_name merged;
          (es, h) = inProcessEntries cpu usage reported (map (\<lambda>n. (n, the (map_of pids n))) (ho (keys pids))) h
      in (JArray (map stampProcess merged @ es), h))"

section \<open>What the array says\<close>

lemma map_of_insert_member: "map_of (insert_member k v ms) = (map_of ms)(k \<mapsto> v)"
  by (induction ms) auto

lemma jfind_set_member: "is_object j \<Longrightarrow> jfind (set_member k v j) x = (if x = k then Some v else jfind j x)"
  by (cases j) (simp_all add: jfind_def map_of_insert_member)

lemma is_object_set_member [simp]: "is_object (set_member k v j) = is_object j"
  by (cases j) simp_all

lemma named_object: "entry_name j = Some n \<Longrightarrow> is_object j"
  by (cases j) (simp_all add: entry_name_def jfind_def)

text \<open>What an entry of a module without a process says: its figures, or that nobody measured it.\<close>

definition in_process_entry :: "ModuleResourceUsage umap \<Rightarrow> int umap \<Rightarrow> string \<Rightarrow> json \<Rightarrow> bool" where
  "in_process_entry usage pids n e \<longleftrightarrow> jfind e ''name'' = Some (JString n) \<and> jfind e ''pid'' = map_option JInt (map_of pids n)
     \<and> jfind e ''scope'' = Some (JString ''in_process'')
     \<and> (case map_of usage n of
          None \<Rightarrow> (\<forall>k \<in> {''cpu_percent'', ''cpu_time_seconds'', ''memory_mb'', ''memory_kind''}. jfind e k = Some JNull)
        | Some cost \<Rightarrow> (\<exists>p. jfind e ''cpu_percent'' = Some (JFloat p))
            \<and> jfind e ''cpu_time_seconds'' = Some (JFloat (cpuTimeSeconds cost))
            \<and> jfind e ''memory_mb'' = Some (JFloat (of_nat (memoryBytes cost) / 1048576))
            \<and> jfind e ''memory_kind'' = Some (JString (if memoryIsResident cost then ''image_resident'' else ''image_mapped'')))"

lemma unmeasured_entry:
  "map_of pids n = Some pid \<Longrightarrow> map_of usage n = None \<Longrightarrow> in_process_entry usage pids n (unmeasured n pid)"
  "map_of pids n = Some pid \<Longrightarrow> map_of usage n = Some cost \<Longrightarrow> in_process_entry usage pids n (measuredEntry p cost (unmeasured n pid))"
  by (simp_all add: in_process_entry_def measuredEntry_def unmeasured_def jfind_def)

lemma inProcess_each:
  assumes "inProcessEntries cpu usage reported nps h = (es, h')" and "\<forall>(n, pid) \<in> set nps. map_of pids n = Some pid"
  shows "list_all2 (in_process_entry usage pids) (map fst (filter (\<lambda>(n, pid). pid < 0 \<and> n \<notin> set reported) nps)) es"
  using assms
proof (induction nps arbitrary: h es)
  case (Cons np rest)
  obtain name pid where np: "np = (name, pid)" by (cases np)
  show ?case
  proof (cases "0 \<le> pid \<or> name \<in> set reported")
    case True
    with Cons np show ?thesis by auto
  next
    case False
    obtain e h1 where e: "(case map_of usage name of None \<Rightarrow> (unmeasured name pid, h)
        | Some cost \<Rightarrow> (let (p, h) = cpu name (cpuTimeSeconds cost) h in (measuredEntry p cost (unmeasured name pid), h))) = (e, h1)"
      by fastforce
    have "map_of pids name = Some pid" using Cons.prems(2) np by simp
    with e have one: "in_process_entry usage pids name e"
      using unmeasured_entry [of pids name pid usage] by (auto split: option.splits prod.splits)
    obtain es' h2 where es: "inProcessEntries cpu usage reported rest h1 = (es', h2)" by fastforce
    have "es = e # es'" using Cons.prems(1) False e es np by simp
    moreover have "h2 = h'" using Cons.prems(1) False e es np by simp
    ultimately show ?thesis using one Cons.IH [of h1 es'] es False Cons.prems(2) np by auto
  qed
qed simp

lemma visited_pids:
  assumes "hash_order ho" and "umap_ok pids"
  shows "\<forall>(n, pid) \<in> set (map (\<lambda>n. (n, the (map_of pids n))) (ho (keys pids))). map_of pids n = Some pid"
proof -
  have "n \<in> set (keys pids)" if "n \<in> set (ho (keys pids))" for n
    using hash_orderD(2) [OF assms(1), of "keys pids"] assms(2) that by (simp add: umap_ok_def del: set_map)
  then have "map_of pids n = Some (the (map_of pids n))" if "n \<in> set (ho (keys pids))" for n
    using key_map_of_Some [of n pids] that by fastforce
  then show ?thesis by (auto simp del: map_of_eq_None_iff)
qed

lemma stamp_fields: "k \<notin> {''scope'', ''memory_kind''} \<Longrightarrow> jfind (stampProcess j) k = jfind j k"
  by (cases "entry_name j") (auto simp: stampProcess_def jfind_set_member named_object)

lemma stamp_name [simp]: "entry_name (stampProcess j) = entry_name j"
  by (simp add: entry_name_def stamp_fields)

lemma merge_exact:
  assumes "hash_order ho" and "umap_ok pids"
  shows "(\<forall>j. entry_name (stampProcess j) = entry_name j \<and>
        (\<forall>k. k \<notin> {''scope'', ''memory_kind''} \<longrightarrow> jfind (stampProcess j) k = jfind j k))
    \<and> (\<exists>ns es. elements_of (fst (mergeModuleStats ho cpu pids ps usage h)) = map stampProcess (elements_of ps) @ es
    \<and> distinct ns \<and> set ns = {n. (\<exists>pid < 0. map_of pids n = Some pid) \<and> (\<forall>j \<in> set (elements_of ps). entry_name j \<noteq> Some n)}
    \<and> list_all2 (in_process_entry usage pids) ns es)"
proof -
  let ?merged = "elements_of ps" and ?order = "map (\<lambda>n. (n, the (map_of pids n))) (ho (keys pids))"
  let ?reported = "List.map_filter entry_name ?merged"
  obtain es h' where es: "inProcessEntries cpu usage ?reported ?order h = (es, h')" by fastforce
  define ns where "ns = map fst (filter (\<lambda>(n, pid). pid < 0 \<and> n \<notin> set ?reported) ?order)"
  have keys: "distinct (ho (keys pids))" "set (ho (keys pids)) = set (keys pids)"
    using hash_orderD [OF assms(1), of "keys pids"] assms(2) by (simp_all add: umap_ok_def del: set_map)
  have found: "map_of pids n = Some (the (map_of pids n))" if "n \<in> set (keys pids)" for n
    using key_map_of_Some [OF that] by auto
  have reported: "n \<in> set ?reported \<longleftrightarrow> (\<exists>j \<in> set ?merged. entry_name j = Some n)" for n
    by (force simp: List.map_filter_def)
  have fst_ns: "ns = filter (\<lambda>n. the (map_of pids n) < 0 \<and> n \<notin> set ?reported) (ho (keys pids))"
    by (simp add: ns_def filter_map comp_def)
  have "set ns = {n. (\<exists>pid < 0. map_of pids n = Some pid) \<and> (\<forall>j \<in> set ?merged. entry_name j \<noteq> Some n)}"
    unfolding fst_ns using keys(2) found map_of_Some_key reported by (auto simp del: set_map)
  moreover have "distinct ns" using keys(1) by (simp add: fst_ns)
  moreover have "list_all2 (in_process_entry usage pids) ns es"
    unfolding ns_def by (rule inProcess_each [OF es visited_pids [OF assms]])
  moreover have "elements_of (fst (mergeModuleStats ho cpu pids ps usage h)) = map stampProcess ?merged @ es"
    by (simp add: mergeModuleStats_def es elements_of_def [of "JArray _"])
  ultimately show ?thesis using stamp_fields by auto
qed

text \<open>
  C37. The array: the process entries in their order, stamped and otherwise as process-stats gave them, then exactly one
  entry for each module that has no process and that process-stats did not answer for, with the figures its
  container measured, or nulls, never zeroes, where none did.
\<close>

theorem stats_merge_exact:
  assumes "hash_order ho" and "umap_ok pids"
  shows "(\<forall>j. entry_name (stampProcess j) = entry_name j \<and>
        (\<forall>k. k \<notin> {''scope'', ''memory_kind''} \<longrightarrow> jfind (stampProcess j) k = jfind j k))
    \<and> (\<exists>ns es. elements_of (fst (mergeModuleStats ho cpu pids ps usage h)) = map stampProcess (elements_of ps) @ es
    \<and> distinct ns \<and> set ns = {n. (\<exists>pid < 0. map_of pids n = Some pid) \<and> (\<forall>j \<in> set (elements_of ps). entry_name j \<noteq> Some n)}
    \<and> list_all2 (in_process_entry usage pids) ns es)"
  by (rule merge_exact [OF assms])

text \<open>A module with a process that process-stats could not read is in no entry of the array.\<close>

lemma unread_process_missing:
  assumes "hash_order ho" and "umap_ok pids" and "map_of pids n = Some pid" and "0 \<le> pid" and "\<forall>j \<in> set (elements_of ps). entry_name j \<noteq> Some n"
  shows "\<forall>j \<in> set (elements_of (fst (mergeModuleStats ho cpu pids ps usage h))). entry_name j \<noteq> Some n"
proof -
  let ?order = "map (\<lambda>n. (n, the (map_of pids n))) (ho (keys pids))" and ?reported = "List.map_filter entry_name (elements_of ps)"
  obtain es h' where es: "inProcessEntries cpu usage ?reported ?order h = (es, h')" by fastforce
  have each: "list_all2 (in_process_entry usage pids) (map fst (filter (\<lambda>(n, pid). pid < 0 \<and> n \<notin> set ?reported) ?order)) es"
    by (intro inProcess_each [OF es visited_pids [OF assms(1,2)]])
  have "entry_name e \<noteq> Some n" if "e \<in> set es" for e
  proof -
    obtain i where i: "i < length es" "e = es ! i" using \<open>e \<in> set es\<close> by (auto simp: in_set_conv_nth)
    let ?m = "map fst (filter (\<lambda>(n, pid). pid < 0 \<and> n \<notin> set ?reported) ?order) ! i"
    have "in_process_entry usage pids ?m e" and l: "i < length (map fst (filter (\<lambda>(n, pid). pid < 0 \<and> n \<notin> set ?reported) ?order))"
      using each i by (simp_all add: list_all2_conv_all_nth)
    moreover have "?m \<noteq> n" using nth_mem [OF l] assms(3,4) by auto
    ultimately show ?thesis by (simp add: in_process_entry_def entry_name_def)
  qed
  then show ?thesis using assms(5) es by (auto simp: mergeModuleStats_def elements_of_def [of "JArray _"])
qed

section \<open>Percentages over a run\<close>

text \<open>The history answers as if it were handed all earlier samples: the slope to the last one of the same module, if time went on.\<close>

definition last_sample :: "string \<Rightarrow> (string \<times> rat \<times> int) list \<Rightarrow> (rat \<times> int) option" where
  "last_sample n samples = map_of (rev samples) n"

definition percent_between :: "(rat \<times> int) option \<Rightarrow> rat \<Rightarrow> int \<Rightarrow> rat" where
  "percent_between before cpu now =
     (case before of
        None \<Rightarrow> 0
      | Some (c, t) \<Rightarrow> if t < now then max 0 (100000 * (cpu - c) / of_int (now - t)) else 0)"

definition samples_taken :: "(string \<times> rat \<times> int) list \<Rightarrow> cpu_history" where
  "samples_taken samples = fold (\<lambda>(n, c, t) h. snd (percentFor n c t h)) samples []"

lemma samples_lookup: "map_of (samples_taken samples) n = last_sample n samples"
proof (induction samples rule: rev_induct)
  case (snoc s samples)
  then show ?case by (cases s) (auto simp: samples_taken_def last_sample_def percentFor_def Let_def)
qed (simp add: samples_taken_def last_sample_def)

text \<open>
  C38. Whatever samples of whatever modules came before, the percentage answered for a sample is the one between it and
  the latest earlier sample of that module, never negative, and zero where there is none or no time passed.
\<close>

theorem percent_is_slope:
  "fst (percentFor n cpu now (samples_taken samples)) = percent_between (last_sample n samples) cpu now
   \<and> 0 \<le> fst (percentFor n cpu now (samples_taken samples))"
proof -
  have "fst (percentFor n cpu now (samples_taken samples)) = percent_between (last_sample n samples) cpu now"
    by (auto simp: percentFor_def percent_between_def samples_lookup Let_def max_def field_simps split: option.split)
  then show ?thesis by (auto simp: percent_between_def split: option.split)
qed

theorem stats_merge_exact_witness:
  "\<exists>ns es. elements_of (fst (mergeModuleStats (\<lambda>xs. xs) (\<lambda>n c. percentFor n c 5) [(''p'', 12), (''b'', -1)]
      (JArray [JObject [(''name'', JString ''p'')]]) [(''b'', \<lparr>cpuTimeSeconds = 1, memoryBytes = 1048576, memoryIsResident = True\<rparr>)] []))
      = map stampProcess [JObject [(''name'', JString ''p'')]] @ es \<and> set ns = {''b''} \<and> length ns = 1 \<and> length es = 1"
proof -
  let ?pids = "[(''p'', 12), (''b'', -1)] :: int umap" and ?ps = "JArray [JObject [(''name'', JString ''p'')]]"
  let ?u = "[(''b'', \<lparr>cpuTimeSeconds = 1, memoryBytes = 1048576, memoryIsResident = True\<rparr>)] :: ModuleResourceUsage umap"
  have "umap_ok ?pids" by (simp add: umap_ok_def)
  from conjunct2 [OF stats_merge_exact [OF hash_order_id this, of "\<lambda>n c. percentFor n c 5" ?ps ?u "[]"]] obtain ns es where
    r: "elements_of (fst (mergeModuleStats (\<lambda>xs. xs) (\<lambda>n c. percentFor n c 5) ?pids ?ps ?u [])) = map stampProcess (elements_of ?ps) @ es"
      "distinct ns" "set ns = {n. (\<exists>pid < 0. map_of ?pids n = Some pid) \<and> (\<forall>j \<in> set (elements_of ?ps). entry_name j \<noteq> Some n)}"
      "list_all2 (in_process_entry ?u ?pids) ns es" by blast
  have "set ns = {''b''}" unfolding r(3) by (auto simp: elements_of_def entry_name_def jfind_def split: if_splits)
  moreover have "length ns = 1" using distinct_card [OF r(2)] unfolding calculation by simp
  moreover have "length es = length ns" using r(4) by (simp add: list_all2_lengthD)
  ultimately show ?thesis using r(1) by (intro exI [of _ ns] exI [of _ es]) (simp add: elements_of_def)
qed

end
