(* ===== verification/BestEffortLoad.thy ===== *)
theory BestEffortLoad
  imports ManagerRun
begin

text \<open>
  The third way to load, \<open>LOGOS_LOAD_REQUIRED_AND_OPTIONAL\<close>: the required tree and every optional branch that is wholly
  installed, where a branch that fails changes nothing of the answer.
\<close>

definition collaborators :: "registry \<Rightarrow> string \<Rightarrow> string set" where
  "collaborators r name = wanted (isKnown r) (directDependencies r) (moduleOptionalDependencies r) [name]"

definition resolvable_best :: "registry \<Rightarrow> string \<Rightarrow> bool" where
  "resolvable_best r name \<longleftrightarrow> isKnown r name \<and> (\<forall>m \<in> needed r name. \<forall>d \<in> set (hard (directDependencies r) m). isKnown r d)
     \<and> acyclic (edges_within (collaborators r name) (directDependencies r))"

lemma resolve_collaborators:
  assumes ho: "hash_order (e_hash E)" and clean: "\<And>n. isKnown (w_registry w) n \<Longrightarrow> CHR 0x00 \<notin> set n"
  shows "\<exists>res. resolveFor E [name] BestEffort w = Some res \<and> rr_ok res = resolvable_best (w_registry w) name
    \<and> (rr_ok res \<longrightarrow> needed (w_registry w) name \<subseteq> collaborators (w_registry w) name \<and> distinct (rr_order res) \<and> set (rr_order res) = collaborators (w_registry w) name \<and> name \<in> set (rr_order res)
        \<and> (\<forall>n. isBestEffort res n \<longleftrightarrow> n \<in> collaborators (w_registry w) name \<and> n \<notin> needed (w_registry w) name))"
proof -
  let ?r = "w_registry w" and ?soft = "moduleOptionalDependencies (w_registry w)"
  obtain res g base where res: "resolve (e_hash E) [name] (isKnown ?r) (directDependencies ?r) (Some ?soft) BestEffort = Some res"
    "set base = required (isKnown ?r) (directDependencies ?r) [name]" "growth_inv (isKnown ?r) (directDependencies ?r) ?soft base g"
    "\<forall>h \<in> set (modulesToLoad g). \<forall>x \<in> set (?soft h). settled h x g"
    "orders (directDependencies ?r) (Some ?soft) (modulesToLoad g) res"
    "set (missing res) = {n. \<not> isKnown ?r n \<and> touched (isKnown ?r) (hard (directDependencies ?r)) (set [name]) n}"
    "set (bestEffort res) = set (modulesToLoad g) - required (isKnown ?r) (directDependencies ?r) [name]"
    by (rule known.resolve_best [OF ho, of "[name]" ?r ?soft])
  have miss: "missing res = [] \<longleftrightarrow> isKnown ?r name \<and> (\<forall>m \<in> needed ?r name. \<forall>d \<in> set (hard (directDependencies ?r) m). isKnown ?r d)"
  proof -
    have "missing res = [] \<longleftrightarrow> set (missing res) = {}" by simp
    also have "\<dots> \<longleftrightarrow> isKnown ?r name \<and> (\<forall>m \<in> needed ?r name. \<forall>d \<in> set (hard (directDependencies ?r) m). isKnown ?r d)"
      unfolding res(6) needed_def required_def touched_def by (auto simp: Ball_def)
    finally show ?thesis .
  qed
  have mods: "set (modulesToLoad g) = collaborators ?r name" if "missing res = []"
    unfolding collaborators_def
    by (rule known.wanted_growth(1) [OF res(2,3) none_missing_known [OF res(6) that] clean res(4)])
  have ok: "rr_ok res = resolvable_best ?r name"
    using orders_cycle [OF res(5)] mods miss by (auto simp: rr_ok_def resolvable_best_def)
  have "needed ?r name \<subseteq> collaborators ?r name \<and> distinct (rr_order res) \<and> set (rr_order res) = collaborators ?r name \<and> name \<in> set (rr_order res)
      \<and> (\<forall>n. isBestEffort res n \<longleftrightarrow> n \<in> collaborators ?r name \<and> n \<notin> needed ?r name)" if t: "rr_ok res"
  proof -
    have m: "missing res = []" and c: "\<not> hasCycle res" using t by (simp_all add: rr_ok_def)
    have "set base \<subseteq> set (modulesToLoad g)" using res(3) by (auto simp: growth_inv_def)
    then have sub: "needed ?r name \<subseteq> set (modulesToLoad g)" by (simp add: res(2) needed_def)
    have "name \<in> set base" using m miss by (auto simp: res(2) required_def intro: reaches.intros)
    then have "name \<in> set (modulesToLoad g)" using res(3) by (auto simp: growth_inv_def)
    then show ?thesis using orders_full [OF res(5) c] mods [OF m] res(7) sub by (auto simp: isBestEffort_def needed_def list_ex_iff)
  qed
  with res(1) ok show ?thesis by (auto simp: resolveFor_def)
qed

context loader_fleet begin

lemma best_effort_done:
  assumes fleet: "fleet_inv ls ok w" and out: "\<not> insideLoad w" and ho: "hash_order (e_hash E)"
    and clean: "\<And>n. isKnown (w_registry w) n \<Longrightarrow> CHR 0x00 \<notin> set n"
  shows "\<exists>r w'. mgr_loadModuleWithDependencies E name BestEffort w = Some (r, w') \<and> fleet_inv ls ok w' \<and> \<not> insideLoad w'
    \<and> (\<forall>n. isLoaded (w_registry w) n \<longrightarrow> isLoaded (w_registry w') n)
    \<and> (\<forall>n. isLoaded (w_registry w') n \<and> \<not> isLoaded (w_registry w) n \<longrightarrow> resolvable_best (w_registry w) name \<and> n \<in> collaborators (w_registry w) name)
    \<and> (\<forall>b. r = Inr b \<longrightarrow> b = (resolvable_best (w_registry w) name
        \<and> (\<forall>n \<in> needed (w_registry w) name. isLoaded (w_registry w') n)))"
proof -
  let ?v = "(forgetDeaths name w)\<lparr>insideLoad := True\<rparr>"
  have fv: "fleet_inv ls ok ?v" "w_registry ?v = w_registry w" using fleet by simp_all
  obtain res where res: "resolveFor E [name] BestEffort ?v = Some res" "rr_ok res = resolvable_best (w_registry w) name"
    "rr_ok res \<Longrightarrow> needed (w_registry w) name \<subseteq> collaborators (w_registry w) name \<and> distinct (rr_order res) \<and> set (rr_order res) = collaborators (w_registry w) name \<and> name \<in> set (rr_order res)
        \<and> (\<forall>n. isBestEffort res n \<longleftrightarrow> n \<in> collaborators (w_registry w) name \<and> n \<notin> needed (w_registry w) name)"
    using resolve_collaborators [OF ho, of ?v name] clean unfolding fv(2) by blast
  show ?thesis
  proof (cases "rr_ok res")
    case False
    then have "mgr_loadModuleWithDependencies E name BestEffort w = Some (Inr False, flushFeed E (?v\<lparr>insideLoad := False\<rparr>))"
      using res(1) out by (simp add: mgr_loadModuleWithDependencies_def Let_def withEntry_def)
    with False res(2) fleet show ?thesis by simp
  next
    case True
    note order = res(3) [OF True]
    obtain r v where each: "loadEach E (isBestEffort res) (rr_order res) ?v = (r, v)"
      by (cases "loadEach E (isBestEffort res) (rr_order res) ?v")
    have "rr_order res \<noteq> []" "name \<in> set (rr_order res)" using order by auto
    then have "mgr_loadModuleWithDependencies E name BestEffort w = Some (r, flushFeed E (v\<lparr>insideLoad := False\<rparr>))"
      using res(1) True out each by (simp add: mgr_loadModuleWithDependencies_def Let_def withEntry_def)
    moreover have "distinct (rr_order res)" using order by blast
    note d = loadEach_done [OF fv(1) this each]
    ultimately show ?thesis using d res(2) order True fv(2) by auto
  qed
qed

end



end
