(* ===== verification/LogosCore.thy ===== *)
theory LogosCore
  imports CoreLoaders ModuleStats BestEffortLoad
begin

text \<open>
  \<open>src/logos_core/logos_core.{h,cpp}\<close>: the C interface, on the manager with the core's own loader table, and the array
  conversions of \<open>module_manager.cpp\<close>. A \<open>const char*\<close> argument is a string option; \<open>std::abort\<close> (and
  an \<open>assert\<close> on a null pointer) is \<open>Aborted\<close>, an exception that crosses the boundary \<open>Threw\<close>, a call
  that would not return \<open>Stuck\<close>. An array handed to the caller is the list of its slots, the null pointer \<open>None\<close>.
\<close>

section \<open>Arrays and strings\<close>

text \<open>What \<open>strcpy\<close> copies of a \<open>std::string\<close>, and what a C caller reads of a \<open>char*\<close>.\<close>

definition c_string :: "string \<Rightarrow> string" where
  "c_string s = takeWhile (\<lambda>c. c \<noteq> CHR 0x00) s"

definition toNullTerminatedArray :: "string list \<Rightarrow> string option list" where
  "toNullTerminatedArray xs = (if xs = [] then [None] else map (\<lambda>s. Some (c_string s)) xs @ [None])"

fun read_array :: "string option list \<Rightarrow> string list" where
  "read_array (Some s # slots) = s # read_array slots"
| "read_array _ = []"

section \<open>State and calls\<close>

datatype 'r api = Aborted | Stuck | Threw exn | Answer 'r

record 'p core =
  lc_world :: "'p core_state world"
  lc_cpuHistory :: cpu_history

definition newCore :: "inproc_env \<Rightarrow> web_env \<Rightarrow> 'p ModuleContainer option \<Rightarrow> ModuleFormatLoader option \<Rightarrow> 'p \<Rightarrow> 'p core" where
  "newCore E W container fl p =
     \<lparr>lc_world = newWorld (loaderRegistry E W container fl) \<lparr>co_default = p, co_native = emptyInproc, co_web = emptyWeb\<rparr>,
      lc_cpuHistory = []\<rparr>"

definition set_world :: "'p core_state world \<Rightarrow> 'p core \<Rightarrow> 'p core" where
  "set_world w c = c\<lparr>lc_world := w\<rparr>"

text \<open>A call that is passed on to the manager.\<close>

definition passed_on ::
  "('a \<Rightarrow> 'r) \<Rightarrow> ('p core_state world \<Rightarrow> ((exn + 'a) \<times> 'p core_state world) option) \<Rightarrow> 'p core \<Rightarrow> 'r api \<times> 'p core" where
  "passed_on f body c =
     (case body (lc_world c) of
        None \<Rightarrow> (Stuck, c)
      | Some (Inl x, w) \<Rightarrow> (Threw x, set_world w c)
      | Some (Inr a, w) \<Rightarrow> (Answer (f a), set_world w c))"

definition no_throw :: "('w \<Rightarrow> ('a \<times> 'w) option) \<Rightarrow> 'w \<Rightarrow> ((exn + 'a) \<times> 'w) option" where
  "no_throw body w = map_option (\<lambda>(a, w). (Inr a, w)) (body w)"

definition set_only :: "('p core_state world \<Rightarrow> 'p core_state world) \<Rightarrow> 'p core \<Rightarrow> unit api \<times> 'p core" where
  "set_only f c = (Answer (), set_world (f (lc_world c)) c)"

definition c_int :: "bool \<Rightarrow> int" where
  "c_int b = (if b then 1 else 0)"

section \<open>Starting and stopping\<close>

definition logos_core_init :: "'p core \<Rightarrow> unit api \<times> 'p core" where
  "logos_core_init c = (Answer (), c)"

definition logos_core_add_modules_dir :: "string option \<Rightarrow> 'p core \<Rightarrow> unit api \<times> 'p core" where
  "logos_core_add_modules_dir dir c = (case dir of None \<Rightarrow> (Aborted, c) | Some d \<Rightarrow> set_only (mgr_addModulesDir d) c)"

text \<open>\<open>LOGOS_SUPERVISION\<close>, read where no budget is set.\<close>

definition applySupervisionFromEnvironment :: "string option \<Rightarrow> 'c world \<Rightarrow> 'c world" where
  "applySupervisionFromEnvironment env w =
     (if maxRestarts (policy (w_supervisor w)) > 0 then w
      else case env of
        None \<Rightarrow> w
      | Some v \<Rightarrow>
          if v = [] then w
          else let p = policyFromEnvironment (Some v) in
            if maxRestarts p \<le> 0 then w else w\<lparr>w_supervisor := setPolicy p (w_supervisor w)\<rparr>)"

text \<open>Both containers are handed the host's API; the Web container is offered no routes of its own here.\<close>

definition anchorCoreApi :: "'p core_state world \<Rightarrow> 'p core_state world" where
  "anchorCoreApi w =
     w\<lparr>w_containers := (w_containers w)\<lparr>co_native := setHostApi True (co_native (w_containers w)),
        co_web := web_setHostApi True (co_web (w_containers w))\<rparr>\<rparr>"

text \<open>The environment, the artifacts' metadata and the package scan are the host's.\<close>

definition logos_core_start ::
  "mgr_env \<Rightarrow> string option \<Rightarrow> (string \<Rightarrow> PluginMetadata option) \<Rightarrow> (string list \<Rightarrow> InstalledPackage list) \<Rightarrow> 'p core \<Rightarrow> unit api \<times> 'p core" where
  "logos_core_start E env meta scan c =
     (let w = applySupervisionFromEnvironment env (lc_world c);
          w = anchorCoreApi w;
          c = set_world (mgr_discoverInstalledModules E meta scan w) c
      in case passed_on (\<lambda>_. ()) (initializeCapabilityModule E) c of
           (Answer _, c) \<Rightarrow> passed_on (\<lambda>_. ()) (initializeModulesState E) c
         | failed \<Rightarrow> failed)"

definition logos_core_cleanup :: "mgr_env \<Rightarrow> 'p core \<Rightarrow> unit api \<times> 'p core" where
  "logos_core_cleanup E c = passed_on id (no_throw (mgr_clear E)) c"

definition logos_core_refresh_modules ::
  "mgr_env \<Rightarrow> (string \<Rightarrow> PluginMetadata option) \<Rightarrow> (string list \<Rightarrow> InstalledPackage list) \<Rightarrow> 'p core \<Rightarrow> unit api \<times> 'p core" where
  "logos_core_refresh_modules E meta scan c = set_only (mgr_discoverInstalledModules E meta scan) c"

section \<open>Modules\<close>

text \<open>\<open>LogosLoadDeps\<close> crosses the boundary as an integer.\<close>

definition LOGOS_LOAD_MODULE_ONLY :: int where "LOGOS_LOAD_MODULE_ONLY = 0"
definition LOGOS_LOAD_REQUIRED_DEPS :: int where "LOGOS_LOAD_REQUIRED_DEPS = 1"
definition LOGOS_LOAD_REQUIRED_AND_OPTIONAL :: int where "LOGOS_LOAD_REQUIRED_AND_OPTIONAL = 2"

definition logos_core_load_module :: "mgr_env \<Rightarrow> string option \<Rightarrow> int \<Rightarrow> 'p core \<Rightarrow> int api \<times> 'p core" where
  "logos_core_load_module E name deps c =
     (case name of
        None \<Rightarrow> (Aborted, c)
      | Some n \<Rightarrow>
          if deps = LOGOS_LOAD_REQUIRED_AND_OPTIONAL then passed_on c_int (mgr_loadModuleWithDependencies E n BestEffort) c
          else if deps = LOGOS_LOAD_REQUIRED_DEPS then passed_on c_int (mgr_loadModuleWithDependencies E n OrderOnly) c
          else if deps = LOGOS_LOAD_MODULE_ONLY then passed_on c_int (mgr_loadModule E n) c
          else passed_on c_int (mgr_loadModuleWithDependencies E n OrderOnly) c)"

definition logos_core_unload_module :: "mgr_env \<Rightarrow> string option \<Rightarrow> bool \<Rightarrow> 'p core \<Rightarrow> int api \<times> 'p core" where
  "logos_core_unload_module E name with_dependents c =
     (case name of
        None \<Rightarrow> (Aborted, c)
      | Some n \<Rightarrow>
          if with_dependents then passed_on c_int (no_throw (mgr_unloadModuleWithDependents E n)) c
          else passed_on c_int (no_throw (mgr_unloadModule E n)) c)"

definition logos_core_process_module ::
  "mgr_env \<Rightarrow> (string \<Rightarrow> PluginMetadata option) \<Rightarrow> string option \<Rightarrow> 'p core \<Rightarrow> string option api \<times> 'p core" where
  "logos_core_process_module E meta module_path c =
     (case module_path of
        None \<Rightarrow> (Aborted, c)
      | Some p \<Rightarrow> (let (name, w) = mgr_processModule E meta p (lc_world c) in (Answer (map_option c_string name), set_world w c)))"

definition logos_core_add_bare_module ::
  "mgr_env \<Rightarrow> (string \<Rightarrow> bool) \<Rightarrow> string option \<Rightarrow> string option \<Rightarrow> 'p core \<Rightarrow> string option api \<times> 'p core" where
  "logos_core_add_bare_module E isFile metadata_json image_path c =
     (case (metadata_json, image_path) of
        (Some metadata, Some img) \<Rightarrow>
          passed_on (map_option c_string) (\<lambda>w. Some (mgr_addEmbeddedBareModule E isFile metadata img w)) c
      | _ \<Rightarrow> (Aborted, c))"

section \<open>Queries\<close>

definition with_name :: "string option \<Rightarrow> (string \<Rightarrow> 'r api) \<Rightarrow> 'r api" where
  "with_name name f = (case name of None \<Rightarrow> Aborted | Some n \<Rightarrow> f n)"

definition answer_array :: "string list option \<Rightarrow> string option list api" where
  "answer_array xs = (case xs of None \<Rightarrow> Stuck | Some xs \<Rightarrow> Answer (toNullTerminatedArray xs))"

definition logos_core_get_loaded_modules :: "mgr_env \<Rightarrow> 'p core \<Rightarrow> string option list api" where
  "logos_core_get_loaded_modules E c = Answer (toNullTerminatedArray (loadedModuleNames (e_hash E) (w_registry (lc_world c))))"

definition logos_core_get_known_modules :: "mgr_env \<Rightarrow> 'p core \<Rightarrow> string option list api" where
  "logos_core_get_known_modules E c = Answer (toNullTerminatedArray (knownModuleNames (e_hash E) (w_registry (lc_world c))))"

definition logos_core_optional_load_report :: "mgr_env \<Rightarrow> string option \<Rightarrow> 'p core \<Rightarrow> string api" where
  "logos_core_optional_load_report E name c =
     with_name name (\<lambda>n. case optionalLoadReportJson E n (lc_world c) of None \<Rightarrow> Stuck | Some j \<Rightarrow> Answer (c_string j))"

definition logos_core_get_module_dependencies :: "string option \<Rightarrow> bool \<Rightarrow> 'p core \<Rightarrow> string option list api" where
  "logos_core_get_module_dependencies name recursive c =
     with_name name (\<lambda>n. answer_array (getDependencies n recursive (lc_world c)))"

definition logos_core_get_module_optional_dependencies :: "string option \<Rightarrow> 'p core \<Rightarrow> string option list api" where
  "logos_core_get_module_optional_dependencies name c =
     with_name name (\<lambda>n. Answer (toNullTerminatedArray (getOptionalDependencies n (lc_world c))))"

definition logos_core_get_module_dependents :: "string option \<Rightarrow> bool \<Rightarrow> 'p core \<Rightarrow> string option list api" where
  "logos_core_get_module_dependents name recursive c =
     with_name name (\<lambda>n. answer_array (getDependents n recursive (lc_world c)))"

definition logos_core_get_modules_info :: "mgr_env \<Rightarrow> 'p core \<Rightarrow> string api" where
  "logos_core_get_modules_info E c = Answer (c_string (getModulesInfoJson E (lc_world c)))"

definition logos_core_get_token :: "string option \<Rightarrow> 'p core \<Rightarrow> string option api" where
  "logos_core_get_token key c =
     with_name key (\<lambda>k. let token = getToken k (lc_world c) in Answer (if token = [] then None else Some token))"

text \<open>\<open>stats\<close> is process-stats' answer for the pids; a text that does not parse is the discarded value, no array.\<close>

definition logos_core_get_module_stats :: "mgr_env \<Rightarrow> (int umap \<Rightarrow> string option) \<Rightarrow> 'p core \<Rightarrow> json \<times> 'p core" where
  "logos_core_get_module_stats E stats c =
     (let pids = getModuleProcessIds (lc_world c);
          processStats = (case stats pids of None \<Rightarrow> JNull | Some raw \<Rightarrow> (case e_parse E raw of None \<Rightarrow> JNull | Some j \<Rightarrow> j));
          nowMs = e_steady E div 1000000;
          (merged, history) = mergeModuleStats (e_hash E) (\<lambda>name cpu h. percentFor name cpu nowMs h) pids processStats
             (getModuleResourceUsage (lc_world c)) (lc_cpuHistory c)
      in (merged, c\<lparr>lc_cpuHistory := history\<rparr>))"

section \<open>Configuration\<close>

definition logos_core_set_persistence_base_path :: "string option \<Rightarrow> 'p core \<Rightarrow> unit api \<times> 'p core" where
  "logos_core_set_persistence_base_path base_path c =
     (case base_path of None \<Rightarrow> (Aborted, c) | Some p \<Rightarrow> set_only (setPersistenceBasePath p) c)"

definition or_empty :: "string option \<Rightarrow> string" where
  "or_empty s = (case s of None \<Rightarrow> [] | Some s \<Rightarrow> s)"

definition logos_core_set_module_transports :: "string option \<Rightarrow> string option \<Rightarrow> 'p core \<Rightarrow> unit api \<times> 'p core" where
  "logos_core_set_module_transports name transport_set_json c =
     (case name of None \<Rightarrow> (Aborted, c) | Some n \<Rightarrow> set_only (setModuleTransports n (or_empty transport_set_json)) c)"

definition logos_core_set_access_policy :: "mgr_env \<Rightarrow> string option \<Rightarrow> 'p core \<Rightarrow> unit api \<times> 'p core" where
  "logos_core_set_access_policy E policy_json c = passed_on id (\<lambda>w. Some (setAccessPolicy E (or_empty policy_json) w)) c"

definition logos_core_set_container_policy :: "string option \<Rightarrow> 'p core \<Rightarrow> unit api \<times> 'p core" where
  "logos_core_set_container_policy p c = set_only (\<lambda>w. snd (setContainerPolicy (or_empty p) w)) c"

definition logos_core_set_supervision_policy :: "int \<Rightarrow> int \<Rightarrow> int \<Rightarrow> 'p core \<Rightarrow> unit api \<times> 'p core" where
  "logos_core_set_supervision_policy max_restarts window_ms backoff_ms c =
     (let p = defaultPolicy\<lparr>maxRestarts := max_restarts\<rparr>;
          p = (if window_ms > 0 then p\<lparr>window := window_ms\<rparr> else p);
          p = (if backoff_ms \<ge> 0 then p\<lparr>backoff := backoff_ms\<rparr> else p)
      in set_only (\<lambda>w. w\<lparr>w_supervisor := setPolicy p (w_supervisor w)\<rparr>) c)"

section \<open>Runs of the program\<close>

text \<open>The calls of the interface, and between them the turns of the manager's machine: deaths, restarts, callbacks, sweeps.\<close>

inductive core_step :: "'p core_state loaders \<Rightarrow> ('p core_state \<Rightarrow> bool) \<Rightarrow> 'p core \<Rightarrow> 'p core \<Rightarrow> bool" for ls ok where
  Turn: "mgr_step ls ok (lc_world c) w \<Longrightarrow> core_step ls ok c (set_world w c)"
| CallStart: "hash_order (e_hash E) \<Longrightarrow> logos_core_start E env meta scan c = (a, c') \<Longrightarrow> core_step ls ok c c'"
| CallCleanup: "hash_order (e_hash E) \<Longrightarrow> logos_core_cleanup E c = (a, c') \<Longrightarrow> core_step ls ok c c'"
| CallRefresh: "hash_order (e_hash E) \<Longrightarrow> logos_core_refresh_modules E meta scan c = (a, c') \<Longrightarrow> core_step ls ok c c'"
| CallDir: "logos_core_add_modules_dir dir c = (a, c') \<Longrightarrow> core_step ls ok c c'"
| CallLoad: "hash_order (e_hash E) \<Longrightarrow> logos_core_load_module E name deps c = (r, c') \<Longrightarrow> core_step ls ok c c'"
| CallUnload: "hash_order (e_hash E) \<Longrightarrow> logos_core_unload_module E name cascade c = (r, c') \<Longrightarrow> core_step ls ok c c'"
| CallProcess: "hash_order (e_hash E) \<Longrightarrow> logos_core_process_module E meta name c = (m, c') \<Longrightarrow> core_step ls ok c c'"
| CallAddBare: "hash_order (e_hash E) \<Longrightarrow> logos_core_add_bare_module E isFile metadata img c = (m, c') \<Longrightarrow> core_step ls ok c c'"
| CallStats: "logos_core_get_module_stats E stats c = (j, c') \<Longrightarrow> core_step ls ok c c'"
| CallBasePath: "logos_core_set_persistence_base_path base_path c = (a, c') \<Longrightarrow> core_step ls ok c c'"
| CallTransports: "logos_core_set_module_transports name transports c = (a, c') \<Longrightarrow> core_step ls ok c c'"
| CallAccess: "logos_core_set_access_policy E p c = (a, c') \<Longrightarrow> core_step ls ok c c'"
| CallContainer: "logos_core_set_container_policy p c = (a, c') \<Longrightarrow> core_step ls ok c c'"
| CallSupervision: "logos_core_set_supervision_policy m win wait c = (a, c') \<Longrightarrow> core_step ls ok c c'"

inductive core_reach :: "'p core_state loaders \<Rightarrow> ('p core_state \<Rightarrow> bool) \<Rightarrow> 'p core \<Rightarrow> 'p core \<Rightarrow> bool" for ls ok where
  CoreStart: "core_reach ls ok c c"
| CoreStep: "core_reach ls ok c0 c \<Longrightarrow> core_step ls ok c c' \<Longrightarrow> core_reach ls ok c0 c'"

lemma set_world_simps [simp]: "lc_world (set_world w c) = w" "set_world (lc_world c) c = c"
  by (simp_all add: set_world_def)

lemma passed_on_step:
  assumes "passed_on f body c = (a, c')" and "\<And>r w'. body (lc_world c) = Some (r, w') \<Longrightarrow> mgr_step ls ok (lc_world c) w'"
  shows "c' = c \<or> mgr_step ls ok (lc_world c) (lc_world c')"
  using assms by (auto simp: passed_on_def split: option.splits prod.splits sum.splits)

lemma no_throw_Some: "no_throw body w = Some (r, w') \<Longrightarrow> \<exists>a. body w = Some (a, w')"
  by (auto simp: no_throw_def)

lemma passed_on_inv:
  assumes "loader_fleet ls ok" and "mgr_inv ls ok (lc_world c)" and "passed_on f body c = (a, c')"
    and "\<And>r w'. body (lc_world c) = Some (r, w') \<Longrightarrow> mgr_step ls ok (lc_world c) w'"
  shows "mgr_inv ls ok (lc_world c')"
proof -
  have "c' = c \<or> mgr_step ls ok (lc_world c) (lc_world c')" by (rule passed_on_step [OF assms(3)]) (rule assms(4))
  then show ?thesis using loader_fleet.step_inv [OF assms(1)] assms(2) by blast
qed

lemma supervisor_inv [simp]: "mgr_inv ls ok (w\<lparr>w_supervisor := sv\<rparr>) = mgr_inv ls ok w"
  by (simp add: mgr_inv_def fleet_inv_def)

lemma environment_inv: "mgr_inv ls ok w \<Longrightarrow> mgr_inv ls ok (applySupervisionFromEnvironment env w)"
  by (auto simp: applySupervisionFromEnvironment_def Let_def split: option.split)

lemma anchor_has:
  assumes "i < length (loaderRegistry E W container fl)"
  shows "l_hasModule (loaderRegistry E W container fl ! i) n
      (s\<lparr>co_native := setHostApi True (co_native s), co_web := web_setHostApi True (co_web s)\<rparr>)
    = l_hasModule (loaderRegistry E W container fl ! i) n s"
  by (rule registry_cases [of E W container fl])
    (use assms in \<open>auto simp: less_Suc_eq nth_Cons' inproc_hasModule_def web_hasModule_def setHostApi_def web_setHostApi_def\<close>)

lemma anchor_step:
  assumes "mgr_inv (loaderRegistry E W container fl) (core_ok ok E W) w"
  shows "mgr_step (loaderRegistry E W container fl) (core_ok ok E W) w (anchorCoreApi w)"
  unfolding anchorCoreApi_def
proof (rule StepWork)
  show "core_ok ok E W ((w_containers w)\<lparr>co_native := setHostApi True (co_native (w_containers w)), co_web := web_setHostApi True (co_web (w_containers w))\<rparr>)"
    using assms by (simp add: mgr_inv_def fleet_inv_def core_ok_def inproc_names_ok_def web_names_ok_def setHostApi_def web_setHostApi_def)
qed (rule anchor_has)

lemma start_inv:
  assumes fleet: "loader_fleet ls (core_ok ok N W)" and ls: "ls = loaderRegistry N W container fl"
    and inv: "mgr_inv ls (core_ok ok N W) (lc_world c)" and ho: "hash_order (e_hash E)"
    and start: "logos_core_start E env meta scan c = (a, c')"
  shows "mgr_inv ls (core_ok ok N W) (lc_world c')"
proof -
  let ?w = "anchorCoreApi (applySupervisionFromEnvironment env (lc_world c))"
  have "mgr_inv ls (core_ok ok N W) ?w"
    using loader_fleet.step_inv [OF fleet anchor_step [of N W container fl ok, folded ls]] environment_inv [OF inv] by blast
  then have "mgr_inv ls (core_ok ok N W) (mgr_discoverInstalledModules E meta scan ?w)"
    using loader_fleet.step_inv [OF fleet StepDiscover [OF ho]] by blast
  then have d: "mgr_inv ls (core_ok ok N W) (lc_world (set_world (mgr_discoverInstalledModules E meta scan ?w) c))" by simp
  obtain a1 c1 where one: "passed_on (\<lambda>_. ()) (initializeCapabilityModule E) (set_world (mgr_discoverInstalledModules E meta scan ?w) c) = (a1, c1)"
    by fastforce
  have i1: "mgr_inv ls (core_ok ok N W) (lc_world c1)"
    by (rule passed_on_inv [OF fleet d one]) (rule StepCapability [OF ho])
  have "mgr_inv ls (core_ok ok N W) (lc_world c')" if "passed_on (\<lambda>_. ()) (initializeModulesState E) c1 = (a, c')"
    by (rule passed_on_inv [OF fleet i1 that]) (rule StepModulesState [OF ho])
  with i1 start one show ?thesis by (auto simp: logos_core_start_def Let_def split: api.splits)
qed

lemma core_step_inv:
  assumes fleet: "loader_fleet ls (core_ok ok N W)" and ls: "ls = loaderRegistry N W container fl"
    and "core_step ls (core_ok ok N W) c c'" and inv: "mgr_inv ls (core_ok ok N W) (lc_world c)"
  shows "mgr_inv ls (core_ok ok N W) (lc_world c')"
  using assms(3)
proof cases
  case (Turn w)
  then show ?thesis using loader_fleet.step_inv [OF fleet _ inv] by simp
next
  case (CallStart E env meta scan a)
  then show ?thesis using start_inv [OF fleet ls inv] by blast
next
  case (CallCleanup E a)
  then show ?thesis
    unfolding logos_core_cleanup_def
    by (elim passed_on_inv [OF fleet inv]) (auto dest!: no_throw_Some intro: StepClear)
next
  case (CallRefresh E meta scan a)
  then show ?thesis
    using loader_fleet.step_inv [OF fleet StepDiscover inv] by (auto simp: logos_core_refresh_modules_def set_only_def)
next
  case (CallDir dir a)
  then show ?thesis
    using loader_fleet.step_inv [OF fleet StepAddDir inv] inv by (auto simp: logos_core_add_modules_dir_def set_only_def split: option.splits)
next
  case (CallLoad E name deps r)
  have "mgr_inv ls (core_ok ok N W) (lc_world c')" if "passed_on c_int (mgr_loadModule E n) c = (r, c')" for n
    by (rule passed_on_inv [OF fleet inv that]) (rule StepLoad [OF CallLoad(1)])
  moreover have "mgr_inv ls (core_ok ok N W) (lc_world c')" if "passed_on c_int (mgr_loadModuleWithDependencies E n opt) c = (r, c')" for n opt
    by (rule passed_on_inv [OF fleet inv that]) (rule StepLoadWithDependencies [OF CallLoad(1)])
  ultimately show ?thesis using CallLoad(2) inv by (auto simp: logos_core_load_module_def split: option.splits if_splits)
next
  case (CallUnload E name cascade r)
  have "mgr_inv ls (core_ok ok N W) (lc_world c')" if "passed_on c_int (no_throw (mgr_unloadModule E n)) c = (r, c')" for n
    by (rule passed_on_inv [OF fleet inv that]) (auto dest!: no_throw_Some intro: StepUnload [OF CallUnload(1)])
  moreover have "mgr_inv ls (core_ok ok N W) (lc_world c')" if "passed_on c_int (no_throw (mgr_unloadModuleWithDependents E n)) c = (r, c')" for n
    by (rule passed_on_inv [OF fleet inv that]) (auto dest!: no_throw_Some intro: StepCascade [OF CallUnload(1)])
  ultimately show ?thesis using CallUnload(2) inv by (auto simp: logos_core_unload_module_def split: option.splits if_splits)
next
  case (CallProcess E meta name m)
  then show ?thesis
    using loader_fleet.step_inv [OF fleet StepProcess [OF CallProcess(1)] inv] inv
    by (auto simp: logos_core_process_module_def split: option.splits prod.splits) (metis snd_conv)
next
  case (CallAddBare E isFile metadata img m)
  have "mgr_inv ls (core_ok ok N W) (lc_world c')"
    if "passed_on (map_option c_string) (\<lambda>w. Some (mgr_addEmbeddedBareModule E isFile j p w)) c = (m, c')" for j p
    by (rule passed_on_inv [OF fleet inv that]) (metis CallAddBare(1) StepEmbedded option.inject snd_conv)
  then show ?thesis using CallAddBare(2) inv by (auto simp: logos_core_add_bare_module_def split: option.splits)
next
  case (CallStats E stats j)
  then show ?thesis using inv by (auto simp: logos_core_get_module_stats_def Let_def split: prod.splits)
next
  case (CallBasePath base_path a)
  then show ?thesis
    using loader_fleet.step_inv [OF fleet StepPersistence inv] inv
    by (auto simp: logos_core_set_persistence_base_path_def set_only_def split: option.splits)
next
  case (CallTransports name transports a)
  then show ?thesis
    using loader_fleet.step_inv [OF fleet StepTransports inv] inv
    by (auto simp: logos_core_set_module_transports_def set_only_def split: option.splits)
next
  case (CallAccess E p a)
  have "passed_on id (\<lambda>w. Some (setAccessPolicy E (or_empty p) w)) c = (a, c')" using CallAccess by (simp add: logos_core_set_access_policy_def)
  then show ?thesis
    by (rule passed_on_inv [OF fleet inv]) (use StepAccessPolicy [of ls _ "lc_world c" E "or_empty p"] in auto)
next
  case (CallContainer p a)
  then show ?thesis
    using loader_fleet.step_inv [OF fleet StepContainerPolicy inv] by (auto simp: logos_core_set_container_policy_def set_only_def)
next
  case (CallSupervision m win wait a)
  then show ?thesis using inv by (auto simp: logos_core_set_supervision_policy_def set_only_def Let_def)
qed

lemma new_core_inv:
  assumes "ok p" and "hash_order (ie_hash N)" and "hash_order (we_hash W)" and "\<And>c f n. container = Some c \<Longrightarrow> fl = Some f \<Longrightarrow> \<not> c_hasModule c n p"
  shows "mgr_inv (loaderRegistry N W container fl) (core_ok ok N W) (lc_world (newCore N W container fl p))"
proof -
  let ?s = "\<lparr>co_default = p, co_native = emptyInproc, co_web = emptyWeb\<rparr>"
  have "core_ok ok N W ?s"
    using assms(1-3) by (simp add: core_ok_def inproc_names_ok_def web_names_ok_def emptyInproc_def emptyWeb_def)
  moreover have "\<not> running (loaderRegistry N W container fl) n ?s" for n
    by (rule registry_cases [of N W container fl])
      (use assms(4) in \<open>auto simp: running_def less_Suc_eq nth_Cons' inproc_hasModule_def web_hasModule_def emptyInproc_def emptyWeb_def\<close>)
  ultimately show ?thesis by (simp add: newCore_def newWorld_inv)
qed

lemma core_reach_inv:
  assumes "loader_fleet ls (core_ok ok N W)" and "ls = loaderRegistry N W container fl"
    and "core_reach ls (core_ok ok N W) c0 c" and "mgr_inv ls (core_ok ok N W) (lc_world c0)"
  shows "mgr_inv ls (core_ok ok N W) (lc_world c)"
  using assms(3,4) by (induction rule: core_reach.induct) (auto intro: core_step_inv [OF assms(1,2)])

section \<open>Properties\<close>

text \<open>
  C2. Whatever a host calls, in whatever order and with whatever arguments, and whatever modules die, restart or are swept
  in between: after every call, a module that one of the three containers runs is loaded, none runs in two of
  them, no load is left half open, and no announced exit is left to excuse the next crash.
\<close>

theorem api_no_orphans:
  assumes "container \<noteq> None \<Longrightarrow> fl \<noteq> None \<Longrightarrow> module_container (the container) ok"
    and "ok p" and "hash_order (ie_hash N)" and "hash_order (we_hash W)"
    and "\<And>c f n. container = Some c \<Longrightarrow> fl = Some f \<Longrightarrow> \<not> c_hasModule c n p"
    and "core_reach (loaderRegistry N W container fl) (core_ok ok N W) (newCore N W container fl p) c"
  shows "let w = lc_world c; s = w_containers w in
    (runs_default container fl n s \<or> inproc_hasModule n (co_native s) \<or> web_hasModule n (co_web s) \<longrightarrow> isLoaded (w_registry w) n)
    \<and> \<not> (inproc_hasModule n (co_native s) \<and> web_hasModule n (co_web s))
    \<and> \<not> (runs_default container fl n s \<and> (inproc_hasModule n (co_native s) \<or> web_hasModule n (co_web s)))
    \<and> expectedExits w = [] \<and> \<not> insideLoad w \<and> (isLoaded (w_registry w) n \<longrightarrow> map_of (inFlightLoads w) n = None)"
proof -
  let ?ls = "loaderRegistry N W container fl" and ?w = "lc_world c"
  have inv: "mgr_inv ?ls (core_ok ok N W) ?w"
    by (rule core_reach_inv [OF core_fleet [OF assms(1)] refl assms(6) new_core_inv [where N = N and W = W]])
      (use assms(2-5) in auto)
  then have place: "isLoaded (w_registry ?w) n \<and> loaderFor (w_registry ?w) n = Some i"
    if "i < length ?ls" "l_hasModule (?ls ! i) n (w_containers ?w)" for i n
    using that by (simp add: mgr_inv_def fleet_inv_def)
  from registry_place [of N W container fl "w_containers ?w" "isLoaded (w_registry ?w)" "loaderFor (w_registry ?w)", OF place] inv
  show ?thesis by (auto simp: Let_def mgr_inv_def fleet_inv_def)
qed

context loader_fleet begin

lemma load_only_done:
  assumes "mgr_inv ls ok w"
  shows "\<exists>r w'. mgr_loadModule E n w = Some (r, w') \<and> mgr_inv ls ok w' \<and> (\<forall>m. isLoaded (w_registry w) m \<longrightarrow> isLoaded (w_registry w') m)
    \<and> (\<forall>b. r = Inr b \<longrightarrow> b = isLoaded (w_registry w') n)"
proof -
  let ?v = "(forgetDeaths n w)\<lparr>insideLoad := True\<rparr>"
  obtain r v where one: "loadModuleInternal E n ?v = (r, v)" by (cases "loadModuleInternal E n ?v")
  have d: "load_done ls ok n ?v r v" using load_done [OF _ one] assms by (simp add: mgr_inv_def)
  have "isLoaded (w_registry v) n" if "isLoaded (w_registry w) n"
    using one that known_if_loaded [OF that] by (auto simp: loadModuleInternal_def)
  then have "\<forall>m. isLoaded (w_registry w) m \<longrightarrow> isLoaded (w_registry v) m"
    using d by (fastforce simp: load_done_def only_moves_def)
  moreover have "mgr_loadModule E n w = Some (r, flushFeed E (v\<lparr>insideLoad := False\<rparr>))"
    using assms one by (simp add: mgr_loadModule_def Let_def withEntry_def mgr_inv_def)
  ultimately show ?thesis using d by (auto simp: mgr_inv_def load_done_def)
qed

end

text \<open>What the three values of \<open>LogosLoadDeps\<close>, and any other value, ask for.\<close>

definition load_goal :: "int \<Rightarrow> string \<Rightarrow> registry \<Rightarrow> registry \<Rightarrow> bool" where
  "load_goal deps n r r' \<longleftrightarrow>
     (if deps = LOGOS_LOAD_MODULE_ONLY then isLoaded r' n
      else (if deps = LOGOS_LOAD_REQUIRED_AND_OPTIONAL then resolvable_best r n else resolvable r n) \<and> (\<forall>m \<in> needed r n. isLoaded r' m))"

lemma passed_on_goal:
  assumes "\<exists>r w'. body (lc_world c) = Some (r, w') \<and> I w' \<and> (\<forall>m. isLoaded (w_registry (lc_world c)) m \<longrightarrow> isLoaded (w_registry w') m)
      \<and> (\<forall>b. r = Inr b \<longrightarrow> b = P (w_registry w'))"
  shows "\<exists>a c'. passed_on c_int body c = (a, c') \<and> a \<noteq> Aborted \<and> a \<noteq> Stuck \<and> I (lc_world c')
      \<and> (\<forall>m. isLoaded (w_registry (lc_world c)) m \<longrightarrow> isLoaded (w_registry (lc_world c')) m)
      \<and> (\<forall>k. a = Answer k \<longrightarrow> k = c_int (P (w_registry (lc_world c'))))"
  using assms by (auto simp: passed_on_def split: sum.split)

text \<open>
  C18. \<open>logos_core_load_module\<close> ensures that the module is loaded: it always returns, answers 1 exactly when what the caller
  asked for is loaded when it returns, however much of it was loaded before, and 0 otherwise; it unloads
  nothing, and leaves the program in a state from which every other call keeps its promises. A null name
  aborts.
\<close>

theorem load_module_contract:
  assumes "container \<noteq> None \<Longrightarrow> fl \<noteq> None \<Longrightarrow> module_container (the container) ok"
    and "ls = loaderRegistry N W container fl" and "mgr_inv ls (core_ok ok N W) (lc_world c)" and "hash_order (e_hash E)"
    and "\<And>m. isKnown (w_registry (lc_world c)) m \<Longrightarrow> CHR 0x00 \<notin> set m"
  shows "logos_core_load_module E None deps c = (Aborted, c) \<and>
    (\<exists>a c'. logos_core_load_module E (Some n) deps c = (a, c') \<and> a \<noteq> Aborted \<and> a \<noteq> Stuck \<and> mgr_inv ls (core_ok ok N W) (lc_world c')
      \<and> (\<forall>m. isLoaded (w_registry (lc_world c)) m \<longrightarrow> isLoaded (w_registry (lc_world c')) m)
      \<and> (\<forall>k. a = Answer k \<longrightarrow> k = c_int (load_goal deps n (w_registry (lc_world c)) (w_registry (lc_world c')))))"
proof -
  let ?w = "lc_world c"
  have fleet: "loader_fleet ls (core_ok ok N W)" unfolding assms(2) by (rule core_fleet) (rule assms(1))
  have w: "fleet_inv ls (core_ok ok N W) ?w" "\<not> insideLoad ?w" using assms(3) by (simp_all add: mgr_inv_def)
  note via = passed_on_goal [where c = c and I = "mgr_inv ls (core_ok ok N W)"]
  consider "deps = LOGOS_LOAD_MODULE_ONLY" | "deps = LOGOS_LOAD_REQUIRED_AND_OPTIONAL"
    | "deps \<noteq> LOGOS_LOAD_MODULE_ONLY" "deps \<noteq> LOGOS_LOAD_REQUIRED_AND_OPTIONAL" by blast
  then have "\<exists>a c'. logos_core_load_module E (Some n) deps c = (a, c') \<and> a \<noteq> Aborted \<and> a \<noteq> Stuck \<and> mgr_inv ls (core_ok ok N W) (lc_world c')
      \<and> (\<forall>m. isLoaded (w_registry ?w) m \<longrightarrow> isLoaded (w_registry (lc_world c')) m)
      \<and> (\<forall>k. a = Answer k \<longrightarrow> k = c_int (load_goal deps n (w_registry ?w) (w_registry (lc_world c'))))"
  proof cases
    case 1
    then have "logos_core_load_module E (Some n) deps c = passed_on c_int (mgr_loadModule E n) c"
      "load_goal deps n r r' = isLoaded r' n" for r r'
      by (simp_all add: logos_core_load_module_def load_goal_def LOGOS_LOAD_MODULE_ONLY_def LOGOS_LOAD_REQUIRED_DEPS_def LOGOS_LOAD_REQUIRED_AND_OPTIONAL_def)
    moreover note via [where body = "mgr_loadModule E n" and P = "\<lambda>r'. isLoaded r' n", OF loader_fleet.load_only_done [OF fleet assms(3), of E n]]
    ultimately show ?thesis by simp
  next
    case 2
    then have "logos_core_load_module E (Some n) deps c = passed_on c_int (mgr_loadModuleWithDependencies E n BestEffort) c"
      "load_goal deps n r r' = (resolvable_best r n \<and> (\<forall>m \<in> needed r n. isLoaded r' m))" for r r'
      by (simp_all add: logos_core_load_module_def load_goal_def LOGOS_LOAD_MODULE_ONLY_def LOGOS_LOAD_REQUIRED_AND_OPTIONAL_def)
    moreover have "\<exists>r w'. mgr_loadModuleWithDependencies E n BestEffort ?w = Some (r, w') \<and> mgr_inv ls (core_ok ok N W) w'
        \<and> (\<forall>m. isLoaded (w_registry ?w) m \<longrightarrow> isLoaded (w_registry w') m)
        \<and> (\<forall>b. r = Inr b \<longrightarrow> b = (resolvable_best (w_registry ?w) n \<and> (\<forall>m \<in> needed (w_registry ?w) n. isLoaded (w_registry w') m)))"
      using loader_fleet.best_effort_done [OF fleet w assms(4), of n] assms(5) by (auto simp: mgr_inv_def)
    note via [where body = "mgr_loadModuleWithDependencies E n BestEffort"
        and P = "\<lambda>r'. resolvable_best (w_registry ?w) n \<and> (\<forall>m \<in> needed (w_registry ?w) n. isLoaded r' m)", OF this]
    ultimately show ?thesis by simp
  next
    case 3
    then have "logos_core_load_module E (Some n) deps c = passed_on c_int (mgr_loadModuleWithDependencies E n OrderOnly) c"
      "load_goal deps n r r' = (resolvable r n \<and> (\<forall>m \<in> needed r n. isLoaded r' m))" for r r'
      by (simp_all add: logos_core_load_module_def load_goal_def)
    moreover have "\<exists>r w'. mgr_loadModuleWithDependencies E n OrderOnly ?w = Some (r, w') \<and> mgr_inv ls (core_ok ok N W) w'
        \<and> (\<forall>m. isLoaded (w_registry ?w) m \<longrightarrow> isLoaded (w_registry w') m)
        \<and> (\<forall>b. r = Inr b \<longrightarrow> b = (resolvable (w_registry ?w) n \<and> (\<forall>m \<in> needed (w_registry ?w) n. isLoaded (w_registry w') m)))"
      using loader_fleet.load_dependencies_done [OF fleet w assms(4), of n] by (auto simp: mgr_inv_def)
    note via [where body = "mgr_loadModuleWithDependencies E n OrderOnly"
        and P = "\<lambda>r'. resolvable (w_registry ?w) n \<and> (\<forall>m \<in> needed (w_registry ?w) n. isLoaded r' m)", OF this]
    ultimately show ?thesis by simp
  qed
  then show ?thesis by (simp add: logos_core_load_module_def)
qed

text \<open>What a caller reads of an array is the list it was made of, where no element holds a null character.\<close>

lemma c_string_id: "CHR 0x00 \<notin> set s \<Longrightarrow> c_string s = s"
  unfolding c_string_def by (rule takeWhile_eq_all_conv [THEN iffD2]) auto

lemma read_back: "(\<And>x. x \<in> set xs \<Longrightarrow> CHR 0x00 \<notin> set x) \<Longrightarrow> read_array (toNullTerminatedArray xs) = xs"
proof -
  assume clean: "\<And>x. x \<in> set xs \<Longrightarrow> CHR 0x00 \<notin> set x"
  have "read_array (map (\<lambda>s. Some (c_string s)) ys @ [None]) = ys" if "\<And>x. x \<in> set ys \<Longrightarrow> CHR 0x00 \<notin> set x" for ys
    using that by (induction ys) (auto simp: c_string_id)
  then show ?thesis using clean by (simp add: toNullTerminatedArray_def)
qed

text \<open>
  C39. The arrays of known and of loaded modules end in the null pointer and read back as exactly the known and the loaded
  modules, each once; so does that of a module's dependencies, which lists known modules only.
\<close>

theorem module_arrays_read_back:
  assumes "hash_order (e_hash E)" and "registry_ok (w_registry (lc_world c))"
    and "\<And>m. isKnown (w_registry (lc_world c)) m \<Longrightarrow> CHR 0x00 \<notin> set m"
  shows "(\<exists>xs. logos_core_get_known_modules E c = Answer xs \<and> last xs = None \<and> distinct (read_array xs)
        \<and> set (read_array xs) = {m. isKnown (w_registry (lc_world c)) m})
    \<and> (\<exists>xs. logos_core_get_loaded_modules E c = Answer xs \<and> last xs = None \<and> distinct (read_array xs)
        \<and> set (read_array xs) = {m. isLoaded (w_registry (lc_world c)) m})
    \<and> (\<forall>ds. getDependencies n recursive (lc_world c) = Some ds \<longrightarrow>
        (\<exists>xs. logos_core_get_module_dependencies (Some n) recursive c = Answer xs \<and> last xs = None \<and> read_array xs = ds))"
proof -
  let ?r = "w_registry (lc_world c)"
  have ends: "last (toNullTerminatedArray xs) = None" for xs by (simp add: toNullTerminatedArray_def)
  have keys: "distinct (keys (m_modules ?r))" using assms(2) by (simp add: registry_ok_def umap_ok_def)
  have known: "distinct (knownModuleNames (e_hash E) ?r)" "set (knownModuleNames (e_hash E) ?r) = {m. isKnown ?r m}"
    using hash_orderD [OF assms(1) keys] by (simp_all add: knownModuleNames_def isKnown_def del: set_map)
  have loaded: "distinct (loadedModuleNames (e_hash E) ?r)" "set (loadedModuleNames (e_hash E) ?r) = {m. isLoaded ?r m}"
    using hash_orderD(1) [OF assms(1) keys] set_loadedModuleNames [OF assms(1,2)] by (simp_all add: loadedModuleNames_def)
  have k: "read_array (toNullTerminatedArray (knownModuleNames (e_hash E) ?r)) = knownModuleNames (e_hash E) ?r"
    by (rule read_back) (use known(2) assms(3) in blast)
  have l: "read_array (toNullTerminatedArray (loadedModuleNames (e_hash E) ?r)) = loadedModuleNames (e_hash E) ?r"
    by (rule read_back) (use loaded(2) assms(3) known_if_loaded in blast)
  have "read_array (toNullTerminatedArray ds) = ds" if "getDependencies n recursive (lc_world c) = Some ds" for ds
    by (rule read_back) (use that assms(3) in \<open>auto simp: getDependencies_def\<close>)
  then show ?thesis
    using known loaded k l ends
    by (auto simp: logos_core_get_known_modules_def logos_core_get_loaded_modules_def logos_core_get_module_dependencies_def
        with_name_def answer_array_def)
qed

section \<open>The stats of the program\<close>

lemma insert_new_ok: "umap_ok m \<Longrightarrow> umap_ok (insert_new m new)"
proof (induction new arbitrary: m)
  case (Cons e new)
  obtain k v where e: "e = (k, v)" by (cases e)
  let ?m = "if k \<in> set (keys m) then m else m @ [(k, v)]"
  have "umap_ok ?m" using Cons.prems by (auto simp: umap_ok_def)
  moreover have "insert_new m (e # new) = insert_new ?m new" by (simp add: insert_new_def e)
  ultimately show ?case using Cons.IH [of ?m] by simp
qed (simp add: insert_new_def)

lemma getAllPids_ok: "umap_ok (getAllPids ls s)"
  unfolding getAllPids_def by (induction ls rule: rev_induct) (simp_all add: insert_new_ok)

lemma map_of_native:
  "map_of (map (\<lambda>(n, i). (n, f n i)) m) n = map_option (f n) (map_of m n)"
  by (induction m) auto

lemma native_reports:
  assumes "map_of (ip_modules (co_native s)) n = Some inst"
    and "\<And>c f. container = Some c \<Longrightarrow> fl = Some f \<Longrightarrow> map_of (c_getAllPids c (co_default s)) n = None"
    and "\<And>c f u. container = Some c \<Longrightarrow> fl = Some f \<Longrightarrow> c_usage c = Some u \<Longrightarrow> map_of (u (co_default s)) n = None"
  shows "map_of (getAllPids (loaderRegistry N W container fl) s) n = Some kInProcPid"
    and "map_of (getAllResourceUsage (loaderRegistry N W container fl) s) n = Some (measureInstance N n inst)"
proof -
  have here: "map_of (map (\<lambda>n. (n, kInProcPid)) (keys m)) n = map_option (\<lambda>_. kInProcPid) (map_of m n)" for m :: "Instance umap"
    by (induction m) auto
  have r: "map_of (l_getAllPids (inProcLoader N) s) n = Some kInProcPid" "map_of (l_getAllResourceUsage (inProcLoader N) s) n = Some (measureInstance N n inst)"
    using assms(1) here
    by (simp_all add: inProcLoader_def liftLoader_def compositeModuleLoader_def inprocContainer_def inproc_getAllPids_def
        inproc_getAllResourceUsage_def map_of_native del: set_map)
  have "map_of (getAllPids (loaderRegistry N W container fl) s) n = Some kInProcPid \<and>
      map_of (getAllResourceUsage (loaderRegistry N W container fl) s) n = Some (measureInstance N n inst)"
  proof (rule registry_cases [of N W container fl])
    assume "loaderRegistry N W container fl = [inProcLoader N, webLoader W]"
    then show ?thesis using r by (simp add: getAllPids_def getAllResourceUsage_def map_of_insert_new)
  next
    fix c f
    assume t: "container = Some c" "fl = Some f" "loaderRegistry N W container fl = [defaultLoader c f, inProcLoader N, webLoader W]"
    then have "map_of (l_getAllPids (defaultLoader c f) s) n = None" "map_of (l_getAllResourceUsage (defaultLoader c f) s) n = None"
      using assms(2,3) by (simp_all add: defaultLoader_def liftLoader_def compositeModuleLoader_def split: option.split)
    with r t(3) show ?thesis by (simp add: getAllPids_def getAllResourceUsage_def map_of_insert_new)
  qed
  then show "map_of (getAllPids (loaderRegistry N W container fl) s) n = Some kInProcPid"
    "map_of (getAllResourceUsage (loaderRegistry N W container fl) s) n = Some (measureInstance N n inst)" by blast+
qed

lemma entries_one:
  assumes "list_all2 (in_process_entry usage pids) ns es" and "distinct ns" and "n \<in> set ns"
  shows "\<exists>e. filter (\<lambda>j. entry_name j = Some n) es = [e] \<and> in_process_entry usage pids n e"
proof -
  have named: "in_process_entry usage pids m e \<Longrightarrow> entry_name e = Some m" for m e
    by (simp add: in_process_entry_def entry_name_def)
  have none: "n \<notin> set ns \<Longrightarrow> filter (\<lambda>j. entry_name j = Some n) es = []" if "list_all2 (in_process_entry usage pids) ns es" for ns es
    using that by (induction rule: list_all2_induct) (auto dest: named)
  show ?thesis using assms
    by (induction rule: list_all2_induct) (auto dest: named simp: none)
qed

text \<open>
  Every module that the Native container runs has exactly one entry among the module stats, in whatever state
  process-stats is, as a share of the host's process with the figures the container measured for it.
\<close>

theorem native_modules_in_stats:
  assumes "hash_order (e_hash E)" and "w_loaders (lc_world c) = loaderRegistry N W container fl"
    and "w_containers (lc_world c) = s" and "map_of (ip_modules (co_native s)) n = Some inst"
    and "\<And>c f. container = Some c \<Longrightarrow> fl = Some f \<Longrightarrow> map_of (c_getAllPids c (co_default s)) n = None"
    and "\<And>c f u. container = Some c \<Longrightarrow> fl = Some f \<Longrightarrow> c_usage c = Some u \<Longrightarrow> map_of (u (co_default s)) n = None"
    and "\<And>raw ps. stats (getModuleProcessIds (lc_world c)) = Some raw \<Longrightarrow> e_parse E raw = Some ps \<Longrightarrow>
        \<forall>j \<in> set (elements_of ps). entry_name j \<noteq> Some n"
  shows "\<exists>e. filter (\<lambda>j. entry_name j = Some n) (elements_of (fst (logos_core_get_module_stats E stats c))) = [e]
    \<and> jfind e ''pid'' = Some (JInt (-1)) \<and> jfind e ''scope'' = Some (JString ''in_process'')
    \<and> jfind e ''cpu_time_seconds'' = Some (JFloat (cpuTimeSeconds (measureInstance N n inst)))
    \<and> jfind e ''memory_mb'' = Some (JFloat (of_nat (memoryBytes (measureInstance N n inst)) / 1048576))"
proof -
  let ?w = "lc_world c" and ?ls = "loaderRegistry N W container fl"
  define ps where "ps = (case stats (getModuleProcessIds ?w) of None \<Rightarrow> JNull | Some raw \<Rightarrow> (case e_parse E raw of None \<Rightarrow> JNull | Some j \<Rightarrow> j))"
  have silent: "\<forall>j \<in> set (elements_of ps). entry_name j \<noteq> Some n"
    using assms(7) by (auto simp: ps_def elements_of_def [of JNull] split: option.splits)
  have pids: "getModuleProcessIds ?w = getAllPids ?ls s" and usage: "getModuleResourceUsage ?w = getAllResourceUsage ?ls s"
    using assms(2,3) by (simp_all add: getModuleProcessIds_def getModuleResourceUsage_def)
  have reports: "map_of (getAllPids ?ls s) n = Some kInProcPid" "map_of (getAllResourceUsage ?ls s) n = Some (measureInstance N n inst)"
    by (rule native_reports [OF assms(4)]; use assms(5,6) in blast)+
  let ?cpu = "\<lambda>name cpu h. percentFor name cpu (e_steady E div 1000000) h"
  let ?j = "fst (mergeModuleStats (e_hash E) ?cpu (getAllPids ?ls s) ps (getAllResourceUsage ?ls s) (lc_cpuHistory c))"
  from merge_exact [OF assms(1) getAllPids_ok [of ?ls s], of ?cpu ps "getAllResourceUsage ?ls s" "lc_cpuHistory c"]
  obtain ns es where m: "elements_of ?j = map stampProcess (elements_of ps) @ es" "distinct ns"
    "set ns = {n. (\<exists>pid < 0. map_of (getAllPids ?ls s) n = Some pid) \<and> (\<forall>j \<in> set (elements_of ps). entry_name j \<noteq> Some n)}"
    "list_all2 (in_process_entry (getAllResourceUsage ?ls s) (getAllPids ?ls s)) ns es" by blast
  have "n \<in> set ns" unfolding m(3) using reports(1) silent by (auto simp: kInProcPid_def)
  from entries_one [OF m(4,2) this] obtain e where e: "filter (\<lambda>j. entry_name j = Some n) es = [e]"
    "in_process_entry (getAllResourceUsage ?ls s) (getAllPids ?ls s) n e" by blast
  have "filter (\<lambda>j. entry_name j = Some n) (map stampProcess (elements_of ps)) = []" using silent by (simp add: filter_empty_conv)
  then have "filter (\<lambda>j. entry_name j = Some n) (elements_of ?j) = [e]" using m(1) e(1) by simp
  moreover have "fst (logos_core_get_module_stats E stats c) = ?j"
    by (simp add: logos_core_get_module_stats_def Let_def ps_def pids usage split: prod.split)
  ultimately show ?thesis using e(2) reports by (auto simp: in_process_entry_def kInProcPid_def)
qed

section \<open>Findings\<close>

text \<open>A host that turned supervision off is overruled by the environment when it starts the core.\<close>

lemma explicit_off_overruled:
  "maxRestarts (policy (w_supervisor (applySupervisionFromEnvironment (Some ''3'')
     (lc_world (snd (logos_core_set_supervision_policy 0 0 0 (newCore N W container fl p))))))) = 3"
proof -
  have "maxRestarts (policyFromEnvironment (Some ''3'')) = 3" by code_simp
  then show ?thesis
    by (simp add: logos_core_set_supervision_policy_def set_only_def applySupervisionFromEnvironment_def policy_def setPolicy_def
        newCore_def newWorld_def newSupervisor_def defaultPolicy_def)
qed

section \<open>Witnesses\<close>

abbreviation sampleCoreTable :: "unit core_state loaders" where
  "sampleCoreTable \<equiv> loaderRegistry sample_env sampleWebEnv None None"

abbreviation sampleCoreOk :: "unit core_state \<Rightarrow> bool" where
  "sampleCoreOk \<equiv> core_ok (\<lambda>_. True) sample_env sampleWebEnv"

definition coreNew :: "unit core" where
  "coreNew = newCore sample_env sampleWebEnv None None ()"

definition coreBegun :: "unit core" where
  "coreBegun = snd (logos_core_start sampleMgr None (\<lambda>_. None) (\<lambda>_. [sample_package ''a'' ''/m/a_bare.so'']) coreNew)"

definition coreLoaded :: "unit core" where
  "coreLoaded = snd (logos_core_load_module sampleMgr (Some ''a'') 1 coreBegun)"

lemma core_sample_reach: "core_reach sampleCoreTable sampleCoreOk coreNew coreBegun" "core_reach sampleCoreTable sampleCoreOk coreNew coreLoaded"
proof -
  have ho: "hash_order (e_hash sampleMgr)" by (rule sample_outside(2))
  show b: "core_reach sampleCoreTable sampleCoreOk coreNew coreBegun"
    unfolding coreBegun_def by (rule CoreStep [OF CoreStart CallStart [OF ho]]) (rule prod.collapse [symmetric])
  show "core_reach sampleCoreTable sampleCoreOk coreNew coreLoaded"
    unfolding coreLoaded_def by (rule CoreStep [OF b CallLoad [OF ho]]) (rule prod.collapse [symmetric])
qed

lemma sample_orders: "hash_order (ie_hash sample_env)" "hash_order (we_hash sampleWebEnv)"
  by (simp_all add: sample_env_def sampleWebEnv_def hash_order_id)

lemma core_sample_inv: "core_reach sampleCoreTable sampleCoreOk coreNew c \<Longrightarrow> mgr_inv sampleCoreTable sampleCoreOk (lc_world c)"
  using core_reach_inv [OF core.loader_fleet_axioms [of sample_env sampleWebEnv "\<lambda>_. True"] refl, of coreNew c]
    new_core_inv [of "\<lambda>_. True" "()" sample_env sampleWebEnv None None] sample_orders
  by (simp add: coreNew_def)

lemma core_sample_known: "set (keys (m_modules (w_registry (lc_world coreBegun)))) = {''a''}"
  "set (keys (m_modules (w_registry (lc_world coreLoaded)))) = {''a''}"
  by code_simp+

theorem api_no_orphans_witness:
  "inproc_hasModule ''a'' (co_native (w_containers (lc_world coreLoaded))) \<and> isLoaded (w_registry (lc_world coreLoaded)) ''a''"
proof -
  have "inproc_hasModule ''a'' (co_native (w_containers (lc_world coreLoaded)))" by code_simp
  then show ?thesis
    using api_no_orphans [of None None "\<lambda>_. True" "()" sample_env sampleWebEnv coreLoaded "''a''"] sample_orders
      core_sample_reach(2) [unfolded coreNew_def]
    by (simp add: Let_def)
qed

theorem load_module_contract_witness:
  "fst (logos_core_load_module sampleMgr (Some ''a'') 1 coreBegun) = Answer 1
    \<and> load_goal 1 ''a'' (w_registry (lc_world coreBegun)) (w_registry (lc_world coreLoaded))"
proof -
  have "CHR 0x00 \<notin> set m" if "isKnown (w_registry (lc_world coreBegun)) m" for m
    using that unfolding isKnown_def core_sample_known by simp
  then obtain a c' where l: "logos_core_load_module sampleMgr (Some ''a'') 1 coreBegun = (a, c')"
    "\<forall>k. a = Answer k \<longrightarrow> k = c_int (load_goal 1 ''a'' (w_registry (lc_world coreBegun)) (w_registry (lc_world c')))"
    using load_module_contract [of None None "\<lambda>_. True" sampleCoreTable sample_env sampleWebEnv coreBegun sampleMgr 1 "''a''"]
      core_sample_inv [OF core_sample_reach(1)] sample_outside(2) by blast
  have "fst (logos_core_load_module sampleMgr (Some ''a'') 1 coreBegun) = Answer 1" by code_simp
  with l show ?thesis by (auto simp: coreLoaded_def c_int_def split: if_splits)
qed

theorem module_arrays_read_back_witness:
  "\<exists>xs. logos_core_get_loaded_modules sampleMgr coreLoaded = Answer xs \<and> set (read_array xs) = {m. isLoaded (w_registry (lc_world coreLoaded)) m}"
proof -
  have "CHR 0x00 \<notin> set m" if "isKnown (w_registry (lc_world coreLoaded)) m" for m
    using that unfolding isKnown_def core_sample_known by simp
  moreover have "registry_ok (w_registry (lc_world coreLoaded))"
    using core_sample_inv [OF core_sample_reach(2)] by (simp add: mgr_inv_def fleet_inv_def registry_fit_def)
  ultimately show ?thesis using module_arrays_read_back [OF sample_outside(2), of coreLoaded "''a''" False] by blast
qed

theorem native_modules_in_stats_witness:
  "\<exists>e. filter (\<lambda>j. entry_name j = Some ''a'') (elements_of (fst (logos_core_get_module_stats sampleMgr (\<lambda>_. None) coreLoaded))) = [e]
     \<and> jfind e ''scope'' = Some (JString ''in_process'')"
proof -
  have "map_of (ip_modules (co_native (w_containers (lc_world coreLoaded)))) ''a'' \<noteq> None" by code_simp
  then obtain inst where "map_of (ip_modules (co_native (w_containers (lc_world coreLoaded)))) ''a'' = Some inst" by blast
  moreover have "w_loaders (lc_world coreLoaded) = sampleCoreTable"
    using core_sample_inv [OF core_sample_reach(2)] by (simp add: mgr_inv_def fleet_inv_def)
  ultimately show ?thesis
    using native_modules_in_stats [OF sample_outside(2), of coreLoaded sample_env sampleWebEnv None None _ "''a''" inst "\<lambda>_. None"] by auto
qed

end
