(* ===== verification/ModuleClients.thy ===== *)
theory ModuleClients
  imports ManagerRun
begin

text \<open>
  What the operator set, and where the core dials a module. A setting is moved by its setter and by \<open>clear\<close>, by
  nothing else the manager does, whatever loads, dies or is restarted in between. From that: the transport on
  which \<open>moduleClient\<close> dials a module is the first of those that the module was told to bind when it was loaded.
\<close>

section \<open>The client of a module\<close>

text \<open>
  \<open>logos::transportSetFromJsonString\<close> is the parameter \<open>parseSet\<close>. \<open>None\<close> is the global default, the
  \<open>getClient\<close> without a transport.
\<close>

definition moduleClient :: "(string \<Rightarrow> 't list) \<Rightarrow> string \<Rightarrow> 'c world \<Rightarrow> string \<times> 't option" where
  "moduleClient parseSet name w =
     (let transportSet = (case map_of (moduleTransportsMap w) name of None \<Rightarrow> [] | Some j \<Rightarrow> j) in
      if transportSet \<noteq> [] then
        (case parseSet transportSet of [] \<Rightarrow> (name, None) | t # _ \<Rightarrow> (name, Some t))
      else (name, None))"

definition capabilityModuleClient :: "(string \<Rightarrow> 't list) \<Rightarrow> 'c world \<Rightarrow> string \<times> 't option" where
  "capabilityModuleClient parseSet w = moduleClient parseSet kCapabilityModule w"

definition modulesStateClient :: "(string \<Rightarrow> 't list) \<Rightarrow> 'c world \<Rightarrow> string \<times> 't option" where
  "modulesStateClient parseSet w = moduleClient parseSet kModulesState w"

text \<open>The client each remote call of the manager goes through.\<close>

fun rpcClient :: "(string \<Rightarrow> 't list) \<Rightarrow> rpc \<Rightarrow> 'c world \<Rightarrow> string \<times> 't option" where
  "rpcClient parseSet (RegisterRestriction _ _ _) w = capabilityModuleClient parseSet w"
| "rpcClient parseSet (InformModuleToken _ _ _) w = capabilityModuleClient parseSet w"
| "rpcClient parseSet (WatchObject name _ _ _) w = moduleClient parseSet name w"
| "rpcClient parseSet WatchModulesState w = modulesStateClient parseSet w"
| "rpcClient parseSet (ApplySnapshot _) w = modulesStateClient parseSet w"
| "rpcClient parseSet (NoteTransition _) w = modulesStateClient parseSet w"

text \<open>The transports a container in the process publishes a module on; empty is the global default.\<close>

definition publishedOn :: "(string \<Rightarrow> 't list) \<Rightarrow> ModuleDescriptor \<Rightarrow> 't list" where
  "publishedOn parseSet desc = (if transportSetJson desc \<noteq> [] then parseSet (transportSetJson desc) else [])"

section \<open>The settings of the operator\<close>

definition settings_of :: "'c world \<Rightarrow> string umap \<times> string \<times> AccessPolicy option \<times> string \<times> string" where
  "settings_of w = (moduleTransportsMap w, accessPolicyJson w, parsedEnforcePolicy w, containerPolicyValue w, persistenceBasePath w)"

named_theorems settled

lemma settled_fields [settled]:
  "settings_of (w\<lparr>w_registry := a\<rparr>) = settings_of w" "settings_of (w\<lparr>w_containers := c\<rparr>) = settings_of w"
  "settings_of (w\<lparr>w_observer := ob\<rparr>) = settings_of w" "settings_of (w\<lparr>tokens := ts\<rparr>) = settings_of w"
  "settings_of (w\<lparr>inFlightLoads := m\<rparr>) = settings_of w" "settings_of (w\<lparr>expectedExits := x\<rparr>) = settings_of w"
  "settings_of (w\<lparr>hostStaysSilent := b\<rparr>) = settings_of w" "settings_of (w\<lparr>minted := k\<rparr>) = settings_of w"
  "settings_of (w\<lparr>w_supervisor := s\<rparr>) = settings_of w" "settings_of (w\<lparr>insideLoad := b\<rparr>) = settings_of w"
  "settings_of (w\<lparr>scheduledRestarts := l\<rparr>) = settings_of w" "settings_of (w\<lparr>rpcs := rs\<rparr>) = settings_of w"
  by (simp_all add: settings_of_def)

lemma settled_quiet:
  assumes "inward w' = inward w"
  shows "settings_of w' = settings_of w"
  using inward_fields(9-13) [OF assms] by (simp add: settings_of_def)

lemmas settled_outgoing [settled] =
  settled_quiet [OF inward_outgoing(1)] settled_quiet [OF inward_outgoing(2)] settled_quiet [OF inward_outgoing(3)]
  settled_quiet [OF inward_outgoing(4)] settled_quiet [OF inward_deliverSince] settled_quiet [OF inward_runOnOwner]
  settled_quiet [OF inward_serveOwner] settled_quiet [OF inward_call]

lemma settled_state [settled]:
  "settings_of (record_edge n a b i p r w) = settings_of w" "settings_of (flushFeed E w) = settings_of w"
  "settings_of (markExitExpected n w) = settings_of w" "settings_of (snd (consumeExpectedExit n w)) = settings_of w"
  "settings_of (beginLoadAttempt n w) = settings_of w" "settings_of (abandonLoadAttempt n w) = settings_of w"
  "settings_of (saveToken n t w) = settings_of w" "settings_of (armReadinessWatch E n i p w) = settings_of w"
  "settings_of (enableModulesStateFeed E w) = settings_of w" "settings_of (disableModulesStateFeed w) = settings_of w"
  "settings_of (snd (loadFailed n i p reason w)) = settings_of w" "settings_of (clearExpectedExits w) = settings_of w"
  "settings_of (forgetDeaths n w) = settings_of w" "settings_of (pushSnapshot E w) = settings_of w"
  by (simp_all add: record_edge_def flushFeed_def markExitExpected_def consumeExpectedExit_def beginLoadAttempt_def
      abandonLoadAttempt_def saveToken_def armReadinessWatch_def enableModulesStateFeed_def disableModulesStateFeed_def
      loadFailed_def clearExpectedExits_def forgetDeaths_def pushSnapshot_def buildSnapshotListing_def Let_def settled split: prod.split)

lemma settled_fold: "(\<And>x w. settings_of (f x w) = settings_of w) \<Longrightarrow> settings_of (fold f xs w) = settings_of w"
  by (induction xs arbitrary: w) simp_all

lemma settled_parts:
  "consumeExpectedExit n w = (asked, w') \<Longrightarrow> settings_of w' = settings_of w"
  "recordTerminationDuringLoad n w = (mine, w') \<Longrightarrow> settings_of w' = settings_of w"
  "commitLoad now n ld h w = (committed, w') \<Longrightarrow> settings_of w' = settings_of w"
  by (auto simp: consumeExpectedExit_def recordTerminationDuringLoad_def commitLoad_def Let_def settled split: option.splits if_splits)

lemma settled_death [settled]: "settings_of (onTerminated E n w) = settings_of w"
  by (auto simp: onTerminated_def superviseUnexpectedExit_def Let_def settled split: prod.split Decision.split dest!: settled_parts)

lemma settled_deaths [settled]: "settings_of (handleDeaths E ds w) = settings_of w"
  by (simp add: handleDeaths_def settled_fold settled)

lemma settled_markAll [settled]: "settings_of (markAllLoadedExitsExpected E w) = settings_of w"
  by (simp add: markAllLoadedExitsExpected_def settled_fold settled)

lemma settled_teardown [settled]: "settings_of (teardownFleet E w) = settings_of w"
  by (simp add: teardownFleet_def Let_def settled split: prod.split)

lemma settled_finish [settled]:
  "settings_of (finishLoad E n i p t w) = settings_of w" "settings_of (snd (finishUnload E n w)) = settings_of w"
  by (auto simp: finishLoad_def finishUnload_def Let_def settled split: prod.split dest!: settled_parts)

lemma settled_settle [settled]: "settings_of (snd (settleLoad E n ld l h i p t w)) = settings_of w"
  by (auto simp: settleLoad_def Let_def settled split: prod.split dest!: settled_parts)

lemma settled_attempt [settled]: "settings_of (snd (attemptLoad E n ld l desc i w)) = settings_of w"
  by (auto simp: attemptLoad_def Let_def settled split: prod.split launch_result.split)

lemma settled_load [settled]: "settings_of (snd (loadModuleInternal E n w)) = settings_of w"
  by (auto simp: loadModuleInternal_def Let_def settled split: option.split sum.split)

lemma settled_unload [settled]: "settings_of (snd (unloadModuleInternal E n w)) = settings_of w"
  by (auto simp: unloadModuleInternal_def Let_def settled split: option.split prod.split)

lemma settled_entry:
  assumes "withEntry E refused body w = Some (r, w')"
    and "\<And>r v. body (w\<lparr>insideLoad := True\<rparr>) = Some (r, v) \<Longrightarrow> settings_of v = settings_of (w\<lparr>insideLoad := True\<rparr>)"
  shows "settings_of w' = settings_of w"
  using assms by (auto simp: withEntry_def settled split: if_splits option.splits prod.splits)

lemma settled_loadEach: "loadEach E tolerated ns w = (r, w') \<Longrightarrow> settings_of w' = settings_of w"
proof (induction ns arbitrary: w r)
  case (Cons n ns)
  obtain r1 w1 where one: "loadModuleInternal E n w = (r1, w1)" by (cases "loadModuleInternal E n w")
  have "settings_of w1 = settings_of w" using settled_load [of E n w] one by simp
  with Cons one show ?case by (auto split: sum.splits prod.splits)
qed simp

lemma settled_unloadEach: "unloadEach E ns w = (b, w') \<Longrightarrow> settings_of w' = settings_of w"
proof (induction ns arbitrary: w b)
  case (Cons n ns)
  obtain g v where one: "unloadModuleInternal E n w = (g, v)" by (cases "unloadModuleInternal E n w")
  have "settings_of v = settings_of w" using settled_unload [of E n w] one by simp
  with Cons one show ?case by (auto split: if_splits prod.splits)
qed simp

lemma load_settled: "loadModuleInternal E n w = (r, v) \<Longrightarrow> settings_of v = settings_of w"
  using settled_load [of E n w] by simp

lemma unload_settled: "unloadModuleInternal E n w = (b, v) \<Longrightarrow> settings_of v = settings_of w"
  using settled_unload [of E n w] by simp

lemma settled_entries:
  "mgr_loadModule E n w = Some (r, w') \<Longrightarrow> settings_of w' = settings_of w"
  "restartModule E n w = Some (r, w') \<Longrightarrow> settings_of w' = settings_of w"
  "mgr_loadModuleWithDependencies E n opt w = Some (r, w') \<Longrightarrow> settings_of w' = settings_of w"
  "initializeModulesState E w = Some (r, w') \<Longrightarrow> settings_of w' = settings_of w"
  "initializeCapabilityModule E w = Some (r, w') \<Longrightarrow> settings_of w' = settings_of w"
  "mgr_unloadModule E n w = Some (b, w') \<Longrightarrow> settings_of w' = settings_of w"
  "mgr_unloadModuleWithDependents E n w = Some (b, w') \<Longrightarrow> settings_of w' = settings_of w"
  "mgr_terminateAll E w = Some (u, w') \<Longrightarrow> settings_of w' = settings_of w"
  unfolding mgr_loadModule_def restartModule_def mgr_loadModuleWithDependencies_def initializeModulesState_def
    initializeCapabilityModule_def mgr_unloadModule_def mgr_unloadModuleWithDependents_def mgr_terminateAll_def Let_def
  by (drule settled_entry;
      force simp: settled dest: load_settled unload_settled settled_loadEach settled_unloadEach
        split: if_splits option.splits prod.splits sum.splits bool.splits)+

lemma settled_callbacks [settled]:
  "settings_of (objectAvailable E ready n inst pid e w) = settings_of w" "settings_of (modulesStateAvailable E ready w) = settings_of w"
  "settings_of (scheduledRestart E n w) = settings_of w" "settings_of (mgr_discoverInstalledModules E meta scan w) = settings_of w"
  "settings_of (snd (mgr_processModule E meta p w)) = settings_of w"
  "settings_of (snd (mgr_addEmbeddedBareModule E isFile metadata img w)) = settings_of w"
  "settings_of (mgr_setModulesDir dir w) = settings_of w" "settings_of (mgr_addModulesDir dir w) = settings_of w"
  by (auto simp: objectAvailable_def modulesStateAvailable_def scheduledRestart_def mgr_discoverInstalledModules_def mgr_processModule_def
      mgr_addEmbeddedBareModule_def mgr_setModulesDir_def mgr_addModulesDir_def Let_def settled split: prod.split option.split
      dest: settled_entries(2))

lemma settled_clear:
  assumes "mgr_clear E w = Some (u, w')" and "\<not> insideLoad w"
  shows "settings_of w' = ([], [], None, containerPolicyValue w, persistenceBasePath w)"
  using assms settled_teardown [of E "w\<lparr>insideLoad := True\<rparr>", unfolded settings_of_def]
  by (auto simp: mgr_clear_def withEntry_def Let_def settled) (simp_all add: settings_of_def)

section \<open>Properties\<close>

text \<open>
  Whatever step the manager makes, the operator's settings stay as they are unless the step is the setter of
  one of them or \<open>clear\<close>, which forgets the transports and the access policy and keeps the rest.
\<close>

lemma settings_move_by_setter:
  assumes "mgr_step ls ok w w'" and "settings_of w' \<noteq> settings_of w"
  shows "(\<exists>E p. w' = snd (setAccessPolicy E p w)) \<or> (\<exists>p. w' = snd (setContainerPolicy p w)) \<or> (\<exists>p. w' = setPersistenceBasePath p w)
    \<or> (\<exists>n t. w' = setModuleTransports n t w)
    \<or> (\<exists>E. mgr_clear E w = Some ((), w')) \<and> settings_of w' = ([], [], None, containerPolicyValue w, persistenceBasePath w)"
  using assms
proof cases
  case (StepClear E u)
  note settled_clear [OF StepClear(2)]
  moreover have "\<not> insideLoad w" using StepClear assms(2) by (auto simp: mgr_clear_def withEntry_def settled)
  ultimately show ?thesis using StepClear by auto
qed (auto simp: settled dest: settled_entries)

text \<open>
  C16. The core dials a module where it was told to bind: after any step but a setting of that module's transports or
  \<open>clear\<close>, the client of the module is on the first of the transports in the descriptor of its load, and on the
  global default when there are none, so never on a transport it did not bind.
\<close>

theorem dialled_where_bound:
  assumes "mgr_step ls ok w w'" and "\<nexists>t. w' = setModuleTransports n t w" and "\<nexists>E. mgr_clear E w = Some ((), w')"
  shows "moduleClient parseSet n w' =
    (n, case publishedOn parseSet (buildDescriptor E n w) of [] \<Rightarrow> None | t # _ \<Rightarrow> Some t)"
proof -
  have "map_of (moduleTransportsMap w') n = map_of (moduleTransportsMap w) n"
  proof (cases "settings_of w' = settings_of w")
    case False
    from settings_move_by_setter [OF assms(1) this] assms(3)
    consider E p where "w' = snd (setAccessPolicy E p w)" | p where "w' = snd (setContainerPolicy p w)"
      | p where "w' = setPersistenceBasePath p w" | m t where "w' = setModuleTransports m t w" by blast
    then show ?thesis
    proof cases
      case (4 m t)
      then have "m \<noteq> n" using assms(2) by blast
      with 4 show ?thesis by (simp add: setModuleTransports_def)
    qed (auto simp: setAccessPolicy_def setContainerPolicy_def setPersistenceBasePath_def Let_def split: sum.split option.split)
  qed (simp add: settings_of_def)
  then show ?thesis
    by (auto simp: moduleClient_def publishedOn_def buildDescriptor_def Let_def split: option.split list.split)
qed

text \<open>What the setter itself does: the last setting of a module counts, and an empty one returns it to the default.\<close>

theorem transports_last_setting:
  "moduleClient parseSet n (setModuleTransports m t w) =
     (if m \<noteq> n then moduleClient parseSet n w else (n, if t = [] then None else case parseSet t of [] \<Rightarrow> None | x # _ \<Rightarrow> Some x))"
  by (auto simp: moduleClient_def setModuleTransports_def Let_def map_of_delete split: list.split)

text \<open>A policy set between a load and a call: the transport the operator gave \<open>a\<close> is the one dialled.\<close>

definition sampleDial :: "inproc world" where
  "sampleDial = setModuleTransports ''a'' ''tcp'' sampleWorld"

theorem dialled_where_bound_witness:
  "moduleClient (\<lambda>j. [j, ''local'']) ''a'' (snd (setAccessPolicy sampleMgr ''off'' sampleDial)) = (''a'', Some ''tcp'')"
proof -
  let ?w = "snd (setAccessPolicy sampleMgr ''off'' sampleDial)"
  have s: "accessPolicyJson ?w = ''off''" "accessPolicyJson sampleDial = []" by code_simp+
  then have "\<nexists>t. ?w = setModuleTransports ''a'' t sampleDial" by (auto simp: setModuleTransports_def)
  moreover have "\<not> insideLoad sampleDial" by code_simp
  then have "\<nexists>E. mgr_clear E sampleDial = Some ((), ?w)"
    using settled_clear [of _ sampleDial "()" ?w] s(1) by (auto simp: settings_of_def)
  moreover have "publishedOn (\<lambda>j. [j, ''local'']) (buildDescriptor sampleMgr ''a'' sampleDial) = [''tcp'', ''local'']" by code_simp
  ultimately show ?thesis
    using dialled_where_bound [OF StepAccessPolicy [of "[]" "\<lambda>_. True" sampleDial sampleMgr "''off''"], of "''a''" "\<lambda>j. [j, ''local'']" sampleMgr]
    by simp
qed

end
