(* ===== verification/LogChannels.thy ===== *)
theory LogChannels
  imports Prelude
begin

text \<open>
  \<open>src/logging/logos_log.cpp\<close>: the initialisation of the process's logging, under its \<open>once_flag\<close>, and \<open>logger\<close>, which
  finds the logger of a channel or makes one, with any number of threads asking at once. spdlog is the parameter
  \<open>spdlog\<close>: the calls of it that the file makes, on a state \<open>'s\<close> of its own; each takes spdlog's registry lock, so each is one
  step. A logger is its place in \<open>lg_made\<close>, the loggers the file made. What a line looks like is spdlog's.
\<close>

section \<open>Initialisation\<close>

record 's spdlog =
  sp_get :: "string \<Rightarrow> 's \<Rightarrow> nat option"
  sp_initialize :: "string \<Rightarrow> nat \<Rightarrow> 's \<Rightarrow> 's option"
  sp_set_default :: "string \<Rightarrow> nat \<Rightarrow> 's \<Rightarrow> 's"
  sp_set_pattern :: "string \<Rightarrow> 's \<Rightarrow> 's"
  sp_load_env_levels :: "string \<Rightarrow> 's \<Rightarrow> 's"

record 's logging =
  lg_spdlog :: 's
  lg_once :: bool
  lg_made :: "string list"

definition kPattern :: string where
  "kPattern = ''[%Y-%m-%d %H:%M:%S.%e] [%^%l%$] [%n] %v''"

abbreviation kDefaultLogger :: string where "kDefaultLogger \<equiv> ''logos''"

definition make_logger :: "string \<Rightarrow> 's logging \<Rightarrow> nat \<times> 's logging" where
  "make_logger channel s = (length (lg_made s), s\<lparr>lg_made := lg_made s @ [channel]\<rparr>)"

definition initLogging :: "'s spdlog \<Rightarrow> (string \<Rightarrow> string option) \<Rightarrow> 's logging \<Rightarrow> 's logging" where
  "initLogging A getenv s =
     (if lg_once s then s
      else let (lg, s) = make_logger kDefaultLogger (s\<lparr>lg_once := True\<rparr>);
               lvlVar = (if getenv ''LOGOS_LOG_LEVEL'' \<noteq> None then ''LOGOS_LOG_LEVEL'' else ''SPDLOG_LEVEL'')
        in s\<lparr>lg_spdlog := sp_load_env_levels A lvlVar (sp_set_pattern A kPattern (sp_set_default A kDefaultLogger lg (lg_spdlog s)))\<rparr>)"

lemma initLogging_once: "initLogging A env (initLogging B env' s) = initLogging B env' s"
  by (simp add: initLogging_def make_logger_def Let_def)

section \<open>The logger of a channel\<close>

text \<open>Where a call of \<open>logger\<close> is: before its first lookup, with a logger of its own to register, after losing the race.\<close>

datatype logger_pc = LookUp | Registering nat | LookAgain | Has nat | Threw

fun logger_step :: "'s spdlog \<Rightarrow> string \<Rightarrow> logger_pc \<Rightarrow> 's logging \<Rightarrow> logger_pc \<times> 's logging" where
  "logger_step A channel LookUp s =
     (case sp_get A channel (lg_spdlog s) of Some l \<Rightarrow> (Has l, s)
      | None \<Rightarrow> (let (l, s) = make_logger channel s in (Registering l, s)))"
| "logger_step A channel (Registering l) s =
     (case sp_initialize A channel l (lg_spdlog s) of Some d \<Rightarrow> (Has l, s\<lparr>lg_spdlog := d\<rparr>) | None \<Rightarrow> (LookAgain, s))"
| "logger_step A channel LookAgain s =
     (case sp_get A channel (lg_spdlog s) of Some l \<Rightarrow> (Has l, s) | None \<Rightarrow> (Threw, s))"
| "logger_step A channel (Has l) s = (Has l, s)"
| "logger_step A channel Threw s = (Threw, s)"

text \<open>A call that nothing interrupts: three steps end it.\<close>

definition logger :: "'s spdlog \<Rightarrow> string \<Rightarrow> 's logging \<Rightarrow> logger_pc \<times> 's logging" where
  "logger A channel s =
     (let (pc, s) = logger_step A channel LookUp s; (pc, s) = logger_step A channel pc s in logger_step A channel pc s)"

text \<open>Any number of calls at once, each for a channel of its own, and the initialisation between any two steps.\<close>

record 's loggers =
  ls_state :: "'s logging"
  ls_calls :: "(string \<times> logger_pc) list"

inductive loggers_step :: "'s spdlog \<Rightarrow> (string \<Rightarrow> string option) \<Rightarrow> 's loggers \<Rightarrow> 's loggers \<Rightarrow> bool" for A env where
  Call: "loggers_step A env g (g\<lparr>ls_calls := ls_calls g @ [(channel, LookUp)]\<rparr>)"
| Run: "loggers_step A env g \<lparr>ls_state = s, ls_calls = (ls_calls g)[i := (channel, pc')]\<rparr>"
    if "i < length (ls_calls g)" "ls_calls g ! i = (channel, pc)" "logger_step A channel pc (ls_state g) = (pc', s)"
| Init: "loggers_step A env g (g\<lparr>ls_state := initLogging A env (ls_state g)\<rparr>)"

inductive loggers_reach :: "'s spdlog \<Rightarrow> (string \<Rightarrow> string option) \<Rightarrow> 's loggers \<Rightarrow> 's loggers \<Rightarrow> bool" for A env g0 where
  Here: "loggers_reach A env g0 g0"
| Next: "loggers_reach A env g0 g \<Longrightarrow> loggers_step A env g g' \<Longrightarrow> loggers_reach A env g0 g'"

section \<open>One logger per channel\<close>

text \<open>
  What spdlog documents of its registry: a name is registered once, a second registration throws, a registered logger is found,
  and the default logger, the pattern and the levels move no other name.
\<close>

definition spdlog_registry :: "'s spdlog \<Rightarrow> bool" where
  "spdlog_registry A \<longleftrightarrow>
     (\<forall>c l s. case sp_initialize A c l s of None \<Rightarrow> sp_get A c s \<noteq> None
        | Some d \<Rightarrow> sp_get A c s = None \<and> (\<forall>x. sp_get A x d = (if x = c then Some l else sp_get A x s)))
     \<and> (\<forall>c l s x. x \<noteq> c \<longrightarrow> sp_get A x (sp_set_default A c l s) = sp_get A x s)
     \<and> (\<forall>p s x. sp_get A x (sp_set_pattern A p s) = sp_get A x s)
     \<and> (\<forall>v s x. sp_get A x (sp_load_env_levels A v s) = sp_get A x s)"

lemma initialize_cases:
  "spdlog_registry A \<Longrightarrow> case sp_initialize A c l s of None \<Rightarrow> sp_get A c s \<noteq> None
    | Some d \<Rightarrow> sp_get A c s = None \<and> (\<forall>x. sp_get A x d = (if x = c then Some l else sp_get A x s))"
  unfolding spdlog_registry_def by blast

lemma register_ok:
  assumes "spdlog_registry A" and "sp_initialize A c l s = Some d"
  shows "sp_get A c s = None" and "sp_get A x d = (if x = c then Some l else sp_get A x s)"
  using initialize_cases [OF assms(1), where c = c and l = l and s = s] assms(2) by simp_all

lemma register_throws: "spdlog_registry A \<Longrightarrow> sp_initialize A c l s = None \<Longrightarrow> sp_get A c s \<noteq> None"
  using initialize_cases [where A = A and c = c and l = l and s = s] by simp

lemma init_moves_default:
  "spdlog_registry A \<Longrightarrow> x \<noteq> kDefaultLogger \<Longrightarrow> sp_get A x (lg_spdlog (initLogging A env s)) = sp_get A x (lg_spdlog s)"
  by (simp add: spdlog_registry_def initLogging_def make_logger_def Let_def)

text \<open>What a call says of its channel agrees with what is registered under it.\<close>

definition call_agrees :: "'s spdlog \<Rightarrow> 's logging \<Rightarrow> string \<times> logger_pc \<Rightarrow> bool" where
  "call_agrees A s call \<longleftrightarrow> fst call = kDefaultLogger \<or>
     (case snd call of Has l \<Rightarrow> sp_get A (fst call) (lg_spdlog s) = Some l
      | LookAgain \<Rightarrow> sp_get A (fst call) (lg_spdlog s) \<noteq> None | Threw \<Rightarrow> False | _ \<Rightarrow> True)"

lemma agrees_mono:
  assumes "call_agrees A s call"
    and "\<And>x l. x \<noteq> kDefaultLogger \<Longrightarrow> sp_get A x (lg_spdlog s) = Some l \<Longrightarrow> sp_get A x (lg_spdlog s') = Some l"
  shows "call_agrees A s' call"
  using assms by (auto simp: call_agrees_def split: logger_pc.splits)

lemma logger_step_grows:
  assumes "spdlog_registry A" and "logger_step A c pc s = (pc', s')" and "sp_get A x (lg_spdlog s) = Some l"
  shows "sp_get A x (lg_spdlog s') = Some l"
proof (cases pc)
  case (Registering k)
  with assms show ?thesis using register_ok [OF assms(1)] by (fastforce split: option.splits)
qed (use assms in \<open>auto simp: make_logger_def split: option.splits\<close>)

lemma logger_step_agrees:
  assumes "spdlog_registry A" and "logger_step A c pc s = (pc', s')" and "call_agrees A s (c, pc)"
  shows "call_agrees A s' (c, pc')"
proof (cases pc)
  case (Registering k)
  with assms show ?thesis using register_ok [OF assms(1)] register_throws [OF assms(1)]
    by (auto simp: call_agrees_def split: option.splits)
qed (use assms in \<open>auto simp: call_agrees_def make_logger_def split: option.splits\<close>)

lemma calls_agree_step:
  assumes "loggers_step A env g g'" and "spdlog_registry A" and "list_all (call_agrees A (ls_state g)) (ls_calls g)"
  shows "list_all (call_agrees A (ls_state g')) (ls_calls g')"
  using assms
proof cases
  case (Call channel)
  with assms(3) show ?thesis by (simp add: call_agrees_def)
next
  case (Run i channel pc pc' s)
  have own: "call_agrees A s (channel, pc')"
    using assms(3) Run(2,3) by (intro logger_step_agrees [OF assms(2) Run(4)]) (auto simp: list_all_length)
  have "call_agrees A s call" if "call \<in> set (ls_calls g)" for call
    using agrees_mono [of A "ls_state g" call s] logger_step_grows [OF assms(2) Run(4)] assms(3) that by (auto simp: list_all_iff)
  with own Run show ?thesis by (auto simp: list_all_iff dest: set_update_subset_insert [THEN subsetD])
next
  case Init
  have "call_agrees A (initLogging A env (ls_state g)) call" if "call \<in> set (ls_calls g)" for call
    using agrees_mono [of A "ls_state g" call] init_moves_default [OF assms(2)] assms(3) that by (auto simp: list_all_iff)
  with Init show ?thesis by (auto simp: list_all_iff)
qed

lemma calls_agree:
  assumes "loggers_reach A env \<lparr>ls_state = s0, ls_calls = []\<rparr> g" and "spdlog_registry A"
  shows "list_all (call_agrees A (ls_state g)) (ls_calls g)"
  using assms by (induction rule: loggers_reach.induct) (simp, blast intro: calls_agree_step)

text \<open>
  Threads that ask for one channel at once, before, while or after the logging is initialised, all get one logger, the one that
  is registered, and no call throws: the one that loses the race to register takes the winner's. The channel of the
  default logger is apart: the initialisation replaces what is registered under it.
\<close>

theorem one_logger_per_channel:
  assumes "spdlog_registry A" and "loggers_reach A env \<lparr>ls_state = s0, ls_calls = []\<rparr> g" and "channel \<noteq> kDefaultLogger"
  shows "(channel, Threw) \<notin> set (ls_calls g)
    \<and> ((channel, Has l) \<in> set (ls_calls g) \<longrightarrow> sp_get A channel (lg_spdlog (ls_state g)) = Some l)"
  using calls_agree [OF assms(2,1)] assms(3) by (auto simp: list_all_iff call_agrees_def)

lemma logger_returns:
  assumes "spdlog_registry A"
  shows "\<exists>l s'. logger A channel s = (Has l, s') \<and> sp_get A channel (lg_spdlog s') = Some l"
proof (cases "sp_get A channel (lg_spdlog s)")
  case None
  then obtain d where d: "sp_initialize A channel (length (lg_made s)) (lg_spdlog s) = Some d"
    using register_throws [OF assms] by blast
  then show ?thesis using None register_ok(2) [OF assms d] by (simp add: logger_def make_logger_def)
next
  case (Some l)
  then show ?thesis by (simp add: logger_def)
qed

section \<open>A registry that keeps the contract\<close>

definition tableSpdlog :: "(string \<times> nat) list spdlog" where
  "tableSpdlog = \<lparr>sp_get = (\<lambda>c s. map_of s c),
     sp_initialize = (\<lambda>c l s. if map_of s c = None then Some ((c, l) # s) else None),
     sp_set_default = (\<lambda>c l s. (c, l) # s), sp_set_pattern = (\<lambda>_ s. s), sp_load_env_levels = (\<lambda>_ s. s)\<rparr>"

lemma table_registry: "spdlog_registry tableSpdlog"
  by (simp add: spdlog_registry_def tableSpdlog_def)

definition startLogging :: "(string \<times> nat) list logging" where
  "startLogging = \<lparr>lg_spdlog = [], lg_once = False, lg_made = []\<rparr>"

text \<open>Two calls for \<open>core\<close> both miss; the first registers, the second throws inside and takes the first's.\<close>

definition racedLoggers :: "(string \<times> nat) list loggers" where
  "racedLoggers = \<lparr>ls_state = \<lparr>lg_spdlog = [(''core'', 0)], lg_once = False, lg_made = [''core'', ''core'']\<rparr>,
     ls_calls = [(''core'', Has 0), (''core'', Has 0)]\<rparr>"

lemma loggers_run:
  assumes "loggers_reach A env g0 g" and "i < length (ls_calls g)" and "ls_calls g ! i = (channel, pc)"
    and "logger_step A channel pc (ls_state g) = (pc', s)" and "g' = \<lparr>ls_state = s, ls_calls = (ls_calls g)[i := (channel, pc')]\<rparr>"
  shows "loggers_reach A env g0 g'"
  using assms loggers_reach.Next Run by metis

lemma loggers_call:
  assumes "loggers_reach A env g0 g" and "g' = g\<lparr>ls_calls := ls_calls g @ [(channel, LookUp)]\<rparr>"
  shows "loggers_reach A env g0 g'"
  using assms loggers_reach.Next Call by metis

lemma raced_reach: "loggers_reach tableSpdlog env \<lparr>ls_state = startLogging, ls_calls = []\<rparr> racedLoggers"
proof -
  let ?s = "\<lambda>d m. \<lparr>lg_spdlog = d, lg_once = False, lg_made = m\<rparr>"
  let ?reach = "\<lambda>d m a b. loggers_reach tableSpdlog env \<lparr>ls_state = startLogging, ls_calls = []\<rparr>
     \<lparr>ls_state = ?s d m, ls_calls = [(''core'', a), (''core'', b)]\<rparr>"
  have "loggers_reach tableSpdlog env \<lparr>ls_state = startLogging, ls_calls = []\<rparr> \<lparr>ls_state = startLogging, ls_calls = [(''core'', LookUp)]\<rparr>"
    by (rule loggers_call [OF loggers_reach.Here, where channel = "''core''"]) simp
  then have "?reach [] [] LookUp LookUp"
    by (rule loggers_call [where channel = "''core''"]) (simp add: startLogging_def)
  then have "?reach [] [''core''] (Registering 0) LookUp"
    by (rule loggers_run [where i = 0 and pc = "LookUp"]) (simp_all add: tableSpdlog_def make_logger_def)
  then have "?reach [] [''core'', ''core''] (Registering 0) (Registering 1)"
    by (rule loggers_run [where i = 1 and pc = "LookUp"]) (simp_all add: tableSpdlog_def make_logger_def)
  then have "?reach [(''core'', 0)] [''core'', ''core''] (Has 0) (Registering 1)"
    by (rule loggers_run [where i = 0 and pc = "Registering 0"]) (simp_all add: tableSpdlog_def)
  then have "?reach [(''core'', 0)] [''core'', ''core''] (Has 0) LookAgain"
    by (rule loggers_run [where i = 1 and pc = "Registering 1"]) (simp_all add: tableSpdlog_def)
  then have "?reach [(''core'', 0)] [''core'', ''core''] (Has 0) (Has 0)"
    by (rule loggers_run [where i = 1 and pc = "LookAgain"]) (simp_all add: tableSpdlog_def)
  then show ?thesis by (simp add: racedLoggers_def)
qed

theorem one_logger_per_channel_witness:
  "sp_get tableSpdlog ''core'' (lg_spdlog (ls_state racedLoggers)) = Some 0"
  using one_logger_per_channel [OF table_registry raced_reach [of "\<lambda>_. None"], where channel = "''core''" and l = 0]
  by (simp add: racedLoggers_def)

end
