(* ===== verification/Spec2Isabelle.thy ===== *)
theory Spec2Isabelle
  imports ManagerAccess FleetRace LoadLocks LogosCore ModuleClients LogChannels
begin

text \<open>
  A model of logos-liblogos, the core that discovers, loads, supervises and unloads the modules of a host, and the
  theorems that make it correct. Every path below is under \<open>src/src\<close>; most files are in \<open>logos_core\<close>.

  \<^bold>\<open>The parts and how they interact.\<close> A host calls the C functions of \<open>logos_core.h\<close>, thin wrappers of
  \<open>ModuleManager\<close> (\<open>module_manager.cpp\<close>). The manager keeps what it knows in the \<open>ModuleRegistry\<close>, asks the
  \<open>DependencyResolver\<close> for an order, checks three gates (container policy, protocol version, dependency
  versions), picks a loader from the \<open>ModuleLoaderRegistry\<close>, and drives it: load, token, verdict, commit. A loader pairs
  a format with a container: the pair the build links in, the Native container (\<open>inproc_container.cpp\<close>, a Bare image in
  this process behind a \<open>BareModuleGlue\<close>) and the Web container (\<open>web_container.cpp\<close>, a page behind a
  \<open>WebModuleGlue\<close>, whose own calls go out through a \<open>WebCallRouter\<close>). A container reports every death through a callback;
  the manager tells an orderly exit from a crash by the exits it announced, feeds the \<open>ModuleStateObserver\<close>, and
  asks the \<open>ModuleSupervisor\<close> whether to load the module again. Who may call whom is derived from the declared
  dependencies and the access policy and pushed to \<open>capability_module\<close>.

  \<^bold>\<open>Conventions\<close> (\<open>Prelude\<close>). The process-wide statics are fields of explicit states; an \<open>unordered_map\<close> or \<open>map\<close> is an
  association list with distinct keys, and the order in which a hash table is walked is a parameter that only permutes
  (\<open>hash_order\<close>). Machine integers keep their width where the code casts or saturates (\<open>int_of_long\<close>, \<open>64 word\<close>), a
  double is a rational number. An exception is a value (\<open>exn + 'a\<close>), a call that would not return is \<open>None\<close>, and an abort is
  \<open>Aborted\<close>. A JSON value stands for \<open>nlohmann::json\<close> and for a \<open>QVariant\<close>. What is not under \<open>src\<close> is a parameter: the
  semver predicates of liblgx, the package scan and metadata reader, the dynamic loader, the webview backend, the
  API client, the token store, the process reader, the clock, and the container and format loader the build links in.
  Remote calls, answers and teardowns are logs.

  \<^bold>\<open>Which theory models which file.\<close>
  \<^item> \<open>ProtocolGate\<close>, \<open>DependencyGate\<close>, \<open>AccessPolicy\<close>: \<open>protocol_gate.h\<close>, \<open>dependency_gate.cpp\<close>, \<open>access_policy.cpp\<close>, on
    every input, with exact verdicts.
  \<^item> \<open>GraphSearch\<close>, \<open>TopoSort\<close>, \<open>DependencyResolver\<close>: \<open>dependency_resolver.cpp\<close>. The worklist walk computes reachability,
    \<open>topoSort\<close> orders what is not on a cycle, \<open>resolve\<close> is exact in its order and its failures in all three modes.
  \<^item> \<open>ModuleRegistry\<close>, \<open>RegistryGraph\<close>, \<open>RegistryLifecycle\<close>: \<open>module_registry.cpp\<close>; the reverse edges, membership and
    identity, load stamps and readiness.
  \<^item> \<open>StateObserver\<close>, \<open>Supervisor\<close>: \<open>module_state_observer.cpp\<close>, \<open>module_supervisor.cpp\<close>; the feed is what was recorded, in
    order; at most \<open>maxRestarts\<close> restarts in any window.
  \<^item> \<open>LoaderRegistry\<close>: \<open>module_loader.h\<close>, the format loaders, \<open>composite_module_loader.cpp\<close>, \<open>module_loader_registry.cpp\<close>. Its
    locales are the contracts the rest relies on: \<open>module_container\<close> (what a container keeps and announces),
    \<open>module_runner\<close> (the same for a loader, a sublocale) and \<open>loader_fleet\<close> (for a whole table).
  \<^item> \<open>BareModuleAbi\<close>, \<open>BareModuleGlue\<close>, \<open>InProcContainer\<close>: \<open>bare_module_abi.cpp\<close>, \<open>bare_module_glue.cpp\<close>,
    \<open>inproc_container.cpp\<close>; the glue also as a step relation of callers, worker and stop. \<open>interpretation inproc\<close>.
  \<^item> \<open>WebCallRouter\<close>, \<open>WebModuleGlue\<close>, \<open>WebContainer\<close>, \<open>WebBooks\<close>: \<open>web_call_router.cpp\<close>, \<open>web_qt_dispatch.cpp\<close>,
    \<open>web_module_glue.cpp\<close>, \<open>web_module_view.cpp\<close>, \<open>web_container.cpp\<close>; the router's gate and the glue's nested waits as step
    relations; \<open>WebBooks\<close> balances pages and APIs over any run. \<open>interpretation web\<close>.
  \<^item> \<open>ManagerState\<close>, \<open>ModuleManager\<close>: \<open>module_manager.cpp\<close>, its statics as the record \<open>world\<close> and its functions.
    \<open>ManagerFrames\<close> says what they leave alone; \<open>ManagerLoad\<close>, \<open>ManagerUnload\<close>, \<open>ManagerFleet\<close>, \<open>BestEffortLoad\<close>,
    \<open>ManagerAccess\<close> what they do; \<open>ManagerRun\<close> is the machine of all of them and its invariant; \<open>ManagerSample\<close> a concrete host.
    \<open>ModuleClients\<close> is where the core dials a module, and that the operator's settings move by their setters alone.
  \<^item> \<open>LoadRace\<close>, \<open>FleetRace\<close>, \<open>LoadLocks\<close>: the concurrency of \<open>module_manager.cpp\<close>: one module's load and unload interleaved
    with death callbacks, any number of modules at once on the state they share, and the lock discipline of all functions.
  \<^item> \<open>CoreLoaders\<close>: the table the core builds, three containers as parts of one state; it keeps \<open>loader_fleet\<close>.
  \<^item> \<open>ModuleStats\<close>, \<open>LogosCore\<close>: \<open>module_stats_json.cpp\<close>, \<open>logos_core.cpp\<close>; the C functions and the machine of a host that calls them.
  \<^item> \<open>LogChannels\<close>: \<open>logging/logos_log.cpp\<close>; whoever asks at once for one channel gets one logger.

  \<^bold>\<open>How the sequential and the concurrent models fit.\<close> \<open>ManagerRun\<close> and \<open>LogosCore\<close> run one public call at a time, with deaths, turns
  of the event loop and scheduled restarts between calls. \<open>LoadLocks\<close> shows why two calls on one module, or a call beside a fleet
  teardown, do not overlap, and that they do not wedge; what does overlap with a load, the callback of a death, is \<open>LoadRace\<close>.
  Loads, unloads and deaths of different modules do overlap: \<open>FleetRace\<close> interleaves them in one world, a step of one module being a
  step of \<open>LoadRace\<close>, with scans, installs, settings and turns of the event loop beside them; a frame (\<open>other_step\<close>, \<open>aside_kept\<close>)
  carries the invariants of one module over to all.

  \<^bold>\<open>Termination and fuel.\<close> No definition runs on fuel. The growth loop of best-effort resolution is a \<open>partial_function (option)\<close> and
  is proved to return; so are a load with dependencies, a best-effort load and a cascade. The waits for a page are one list element
  per probe before the deadline. Timers and posted closures are lists of what is still to run.

  \<^bold>\<open>Not modelled.\<close> What a log line says and where it goes. Memory ownership of the C strings beyond the array of pointers. The
  mutexes of the registry, the observer and the supervisor, taken under nothing else: their critical sections are single steps,
  and what one path does between two locks it shares with a callback is one step. Module hosts, webview backends, transports, spdlog,
  tests and docs are outside \<open>src/src\<close>.
\<close>

end
